(* ===== verification/Prelude.thy ===== *)
theory Prelude
  imports Main "HOL-Library.Word" "HOL-Library.Multiset"
begin

text \<open>
  Shared vocabulary of the development: the machine integers of the code, the error numbers
  its functions return, the ways a run can go wrong below the level of return codes, and
  the lemmas on words, pages and little-endian bytes that several components use.
\<close>

unbundle bit_operations_syntax

section \<open>Machine integers and results\<close>

type_synonym u8 = "8 word"
type_synonym u32 = "32 word"
type_synonym u64 = "64 word"

text \<open>Kernel heap addresses; the null pointer is the \<open>None\<close> of a \<open>kptr option\<close>.\<close>

type_synonym kptr = nat

text \<open>
  The error numbers the drivers return. A C function that returns \<open>0\<close> or \<open>-E\<close> is a value
  of \<open>rc\<close>: \<open>Inr ()\<close> for \<open>0\<close> and \<open>Inl E\<close> for \<open>-E\<close>. \<open>OtherErr\<close> carries an error number
  that is passed through from code outside the repository.
\<close>

datatype errno =
    EINVAL | ENOMEM | EAGAIN | ENOSYS | EBUSY | ENODEV | ECANCELED | OtherErr nat

type_synonym rc = "errno + unit"

text \<open>
  Faults: a run that dereferences a null pointer, reads memory it never wrote, frees twice,
  leaves a buffer, fails an assertion, divides by zero, shifts by more than the width of the
  value, accesses a device register at an address that is not a multiple of its size. The code does not return from them.
\<close>

datatype fault =
    NullDeref | UninitRead | UseAfterFree | DoubleFree | RefUnderflow
  | OutOfBounds | AssertFailed | DivByZero | BadShift | Misaligned

datatype ('a, 's) outcome = Fault fault | Ok 'a 's

fun obind :: "('a, 's) outcome \<Rightarrow> ('a \<Rightarrow> 's \<Rightarrow> ('b, 't) outcome) \<Rightarrow> ('b, 't) outcome" where
  "obind (Fault x) f = Fault x"
| "obind (Ok a s) f = f a s"

fun faulty :: "('a, 's) outcome \<Rightarrow> bool" where
  "faulty (Fault x) = True"
| "faulty (Ok a s) = False"

lemma obind_Ok: "obind m f = Ok b t \<longleftrightarrow> (\<exists>a s. m = Ok a s \<and> f a s = Ok b t)"
  by (cases m) auto

lemma obind_Ok_E:
  assumes "obind m f = Ok b t"
  obtains a s where "m = Ok a s" and "f a s = Ok b t"
  using assms by (auto simp: obind_Ok)

lemma obind_assoc: "obind (obind m f) g = obind m (\<lambda>a s. obind (f a s) g)"
  by (cases m) auto

lemma faulty_iff: "faulty m \<longleftrightarrow> (\<exists>x. m = Fault x)"
  by (cases m) auto

lemma not_faulty_iff: "\<not> faulty m \<longleftrightarrow> (\<exists>a s. m = Ok a s)"
  by (cases m) auto

text \<open>The values of the page constants.\<close>

named_theorems page_simps

section \<open>Pages\<close>

definition PAGE_SHIFT :: nat where
  "PAGE_SHIFT = 12"

definition PAGE_SIZE :: u64 where
  "PAGE_SIZE = push_bit PAGE_SHIFT 1"

definition page_mask :: u64 where
  "page_mask = PAGE_SIZE - 1"

text \<open>\<open>(x | page_mask) - page_mask\<close>: the start of the page that holds \<open>x\<close>.\<close>

definition page_start :: "u64 \<Rightarrow> u64" where
  "page_start x = (x OR page_mask) - page_mask"

lemma PAGE_SIZE_eq [page_simps]: "PAGE_SIZE = 4096"
  by (simp add: PAGE_SIZE_def PAGE_SHIFT_def)

lemma page_mask_eq [page_simps]: "page_mask = 4095"
  by (simp add: page_mask_def PAGE_SIZE_eq)

lemma word_or_minus_mask: "(x OR m) - m = x - (x AND m)" for x m :: "'a::len word"
proof -
  have "(x AND m) + (x OR m) = x + m" by (rule word_plus_and_or)
  then show ?thesis by (simp add: algebra_simps)
qed

lemma page_mask_is_mask: "page_mask = mask 12"
  by (simp add: page_mask_eq mask_eq_exp_minus_1)

lemma unat_and_page_mask: "unat (x AND page_mask) = unat x mod 4096"
proof -
  have "x AND page_mask = take_bit 12 x"
    by (simp add: page_mask_is_mask take_bit_eq_mask)
  then have "unat (x AND page_mask) = take_bit 12 (unat x)"
    by (simp only: unsigned_take_bit_eq)
  then show ?thesis by (simp add: take_bit_eq_mod)
qed

lemma page_offset_eq: "x - page_start x = x AND page_mask"
  by (simp add: page_start_def word_or_minus_mask)

lemma unat_page_start: "unat (page_start x) = 4096 * (unat x div 4096)"
proof -
  have "x AND page_mask \<le> x" by (rule word_and_le2)
  then have "unat (page_start x) = unat x - unat x mod 4096"
    by (simp add: page_start_def word_or_minus_mask unat_sub unat_and_page_mask)
  then show ?thesis by (simp add: minus_mod_eq_mult_div)
qed

lemma page_offset_less: "unat (x - page_start x) < 4096"
  by (simp add: page_offset_eq unat_and_page_mask)

section \<open>Words and naturals\<close>

lemma unat_ucast_32_64 [simp]: "unat (ucast (x :: u32) :: u64) = unat x"
  using unsigned_less [of x, where ?'a = nat] by (simp add: unsigned_ucast_eq take_bit_nat_eq_self)

lemma unat_lt_u32: "unat (x :: u32) < 4294967296"
  using unsigned_less [of x, where ?'a = nat] by simp

lemma unat_lt_u64: "unat (x :: u64) < 18446744073709551616"
  using unsigned_less [of x, where ?'a = nat] by simp

lemma unat_lt_u8: "unat (x :: u8) < 256"
  using unsigned_less [of x, where ?'a = nat] by simp

lemma unat_of_nat_u32: "k < 4294967296 \<Longrightarrow> unat (of_nat k :: u32) = k"
  by (simp add: unsigned_of_nat take_bit_nat_eq_self)

lemma unat_of_nat_u64: "k < 18446744073709551616 \<Longrightarrow> unat (of_nat k :: u64) = k"
  by (simp add: unsigned_of_nat take_bit_nat_eq_self)

lemma unat_add_u32: "unat x + unat y < 4294967296 \<Longrightarrow> unat (x + y :: u32) = unat x + unat y"
  by (simp add: unat_word_ariths)

lemma unat_add_u64: "unat x + unat y < 18446744073709551616 \<Longrightarrow> unat (x + y :: u64) = unat x + unat y"
  by (simp add: unat_word_ariths)

section \<open>Physical memory\<close>

text \<open>What a load or a store at a physical address does is up to the hardware.\<close>

record 'd physmem =
  pm_read :: "u64 \<Rightarrow> 'd \<Rightarrow> u32 \<times> 'd"
  pm_write :: "u64 \<Rightarrow> u32 \<Rightarrow> 'd \<Rightarrow> 'd"

text \<open>A block of device registers, by offset.\<close>

record 'd mmio =
  mm_read :: "nat \<Rightarrow> 'd \<Rightarrow> u32 \<times> 'd"
  mm_write :: "nat \<Rightarrow> u32 \<Rightarrow> 'd \<Rightarrow> 'd"

end
