(* ===== verification/Kernel.thy ===== *)
theory Kernel
  imports Prelude
begin

text \<open>
  The resources the pinner driver (drivers/pinner) takes from the kernel, and its data
  structures. The kernel itself is not part of the repository: whatever a kernel call may
  answer (an address or a null pointer, the pages of a user range, the result of a DMA
  mapping, random bytes) is an argument of the model, the record \<open>pin_env\<close> below; what the
  call is documented to do to a resource is recorded in the fields of \<open>kstate\<close>.
\<close>

section \<open>Data of the driver\<close>

text \<open>A \<open>struct page\<close> is named by its page frame number.\<close>

type_synonym page = nat

record scatterlist =
  sg_pg :: page
  sg_offset :: u32
  sg_length :: u32
  sg_dma_address :: u64

record pinning =
  p_addr :: kptr
  num_sg_ents :: nat
  sglist :: "(kptr \<times> scatterlist list) option"
  p_magic :: u32

record proc_info =
  pi_addr :: kptr
  pinning_list :: "pinning list"
  pi_magic :: u32

record pinner_handle =
  user_magic :: u32
  pin_magic :: u32

record physlist_entry =
  pe_addr :: u64
  pe_len :: u32

record pinner_cmd =
  cmd :: u32
  usr_buf :: u64
  usr_buf_sz :: u32
  handle_ptr :: u64
  physlist_ptr :: u64

datatype dma_event =
    DmaMap kptr nat
  | DmaUnmap "kptr option" nat
  | SyncForCpu "kptr option" nat
  | SyncForDevice "kptr option" nat

text \<open>
  The user memory the driver copies from and to, by the type of what is stored at an
  address. An address outside the domain is not accessible: the copy returns the number of
  bytes it could not copy and the model leaves the memory as it was.
\<close>

record user_mem =
  um_cmds :: "u64 \<rightharpoonup> pinner_cmd"
  um_handles :: "u64 \<rightharpoonup> pinner_handle"
  um_counts :: "u64 \<rightharpoonup> u32"
  um_entries :: "u64 \<rightharpoonup> physlist_entry list"

text \<open>
  \<open>k_users\<close> is the global list \<open>users\<close>, \<open>k_private\<close> the \<open>private_data\<close> of the open files,
  \<open>k_live\<close> the addresses that kmalloc or kzalloc returned and kfree did not take back,
  \<open>k_refs\<close> the page references that get_user_pages_fast took and put_page did not drop,
  \<open>k_registered\<close> the variable \<open>registered\<close> and \<open>k_device\<close> whether the misc device exists.
\<close>

record kstate =
  k_users :: "proc_info list"
  k_private :: "nat \<rightharpoonup> kptr"
  k_live :: "kptr multiset"
  k_refs :: "page multiset"
  k_dma :: "dma_event list"
  k_umem :: user_mem
  k_registered :: bool
  k_device :: bool

text \<open>
  What the kernel answers while one pin command runs: the addresses of the page array, the
  pinning, the scatterlist and the entry buffer (\<open>None\<close>: out of memory), the pages that
  get_user_pages_fast pinned (or its error), the random magic, the outcome of dma_map_sg (a
  count or an error, and the scatterlist it leaves), and page_to_phys.
\<close>

record pin_env =
  ev_arr :: "kptr option"
  ev_gup :: "errno + page list"
  ev_pin :: "kptr option"
  ev_sgl :: "kptr option"
  ev_ents :: "kptr option"
  ev_magic :: u32
  ev_dma_map :: "scatterlist list \<Rightarrow> (errno + nat) \<times> scatterlist list"
  ev_page_to_phys :: "page \<Rightarrow> u64"

section \<open>Kernel services\<close>

definition kalloc :: "kptr option \<Rightarrow> kstate \<Rightarrow> kstate" where
  "kalloc a s = (case a of None \<Rightarrow> s | Some x \<Rightarrow> s\<lparr>k_live := add_mset x (k_live s)\<rparr>)"

definition kfree :: "kptr option \<Rightarrow> kstate \<Rightarrow> (unit, kstate) outcome" where
  "kfree a s = (case a of
      None \<Rightarrow> Ok () s
    | Some x \<Rightarrow> if x \<in># k_live s then Ok () (s\<lparr>k_live := k_live s - {#x#}\<rparr>) else Fault DoubleFree)"

definition put_page :: "page \<Rightarrow> kstate \<Rightarrow> (unit, kstate) outcome" where
  "put_page pg s =
     (if pg \<in># k_refs s then Ok () (s\<lparr>k_refs := k_refs s - {#pg#}\<rparr>) else Fault RefUnderflow)"

definition get_pages :: "page list \<Rightarrow> kstate \<Rightarrow> kstate" where
  "get_pages pgs s = s\<lparr>k_refs := k_refs s + mset pgs\<rparr>"

definition dma_event_add :: "dma_event \<Rightarrow> kstate \<Rightarrow> kstate" where
  "dma_event_add e s = s\<lparr>k_dma := k_dma s @ [e]\<rparr>"

definition find_info :: "kptr \<Rightarrow> kstate \<Rightarrow> proc_info option" where
  "find_info a s = find (\<lambda>i. pi_addr i = a) (k_users s)"

definition upd_info :: "kptr \<Rightarrow> (proc_info \<Rightarrow> proc_info) \<Rightarrow> kstate \<Rightarrow> kstate" where
  "upd_info a f s =
     s\<lparr>k_users := map (\<lambda>i. if pi_addr i = a then f i else i) (k_users s)\<rparr>"

definition copy_handle_to_user :: "u64 \<Rightarrow> pinner_handle \<Rightarrow> user_mem \<Rightarrow> user_mem option" where
  "copy_handle_to_user a h m =
     (if a \<in> dom (um_handles m) then Some (m\<lparr>um_handles := (um_handles m)(a \<mapsto> h)\<rparr>) else None)"

definition copy_count_to_user :: "u64 \<Rightarrow> u32 \<Rightarrow> user_mem \<Rightarrow> user_mem option" where
  "copy_count_to_user a n m =
     (if a \<in> dom (um_counts m) then Some (m\<lparr>um_counts := (um_counts m)(a \<mapsto> n)\<rparr>) else None)"

text \<open>Copying \<open>k\<close> entries overwrites the first \<open>k\<close> of the user's array.\<close>

definition copy_entries_to_user ::
    "u64 \<Rightarrow> physlist_entry list \<Rightarrow> user_mem \<Rightarrow> user_mem option" where
  "copy_entries_to_user a es m =
     (case um_entries m a of
        None \<Rightarrow> None
      | Some old \<Rightarrow> Some (m\<lparr>um_entries := (um_entries m)(a \<mapsto> es @ drop (length es) old)\<rparr>))"

lemmas kernel_defs =
  kalloc_def kfree_def put_page_def get_pages_def dma_event_add_def upd_info_def
  copy_handle_to_user_def copy_count_to_user_def copy_entries_to_user_def

lemma kfree_Ok:
  "kfree a s = Ok u t \<longleftrightarrow>
     (case a of None \<Rightarrow> t = s
      | Some x \<Rightarrow> x \<in># k_live s \<and> t = s\<lparr>k_live := k_live s - {#x#}\<rparr>)"
  by (auto simp: kfree_def split: option.splits)

lemma put_page_Ok:
  "put_page pg s = Ok u t \<longleftrightarrow> pg \<in># k_refs s \<and> t = s\<lparr>k_refs := k_refs s - {#pg#}\<rparr>"
  by (auto simp: put_page_def)

end
