(* ===== verification/Pinner.thy ===== *)
theory Pinner
  imports Kernel
begin

text \<open>
  The pinner driver, drivers/pinner/pinner.c: one definition per C function, in the order of
  the file. A function that changes the driver's state takes the state and returns the new
  one with its return code, or a fault. The gotos to \<open>do_pin_error\<close> are calls of the
  definition of that name.
\<close>

section \<open>Releasing pages and pinnings\<close>

definition PINNER_MAX_PAGES :: int where
  "PINNER_MAX_PAGES = 1024"

definition PINNER_PIN :: u32 where
  "PINNER_PIN = 1"

definition PINNER_UNPIN :: u32 where
  "PINNER_UNPIN = 2"

definition PINNER_FLUSH :: u32 where
  "PINNER_FLUSH = 3"

text \<open>
  \<open>put_page_list p n\<close> reads \<open>p[0], .., p[n-1]\<close>. The array comes from kmalloc and only its
  first \<open>length pgs\<close> elements were written, by get_user_pages_fast.
\<close>

fun put_page_list :: "page list \<Rightarrow> nat \<Rightarrow> kstate \<Rightarrow> (unit, kstate) outcome" where
  "put_page_list pgs 0 s = Ok () s"
| "put_page_list [] (Suc n) s = Fault UninitRead"
| "put_page_list (pg # pgs) (Suc n) s = obind (put_page pg s) (\<lambda>_ t. put_page_list pgs n t)"

fun put_sg_pages :: "scatterlist list \<Rightarrow> nat \<Rightarrow> kstate \<Rightarrow> (unit, kstate) outcome" where
  "put_sg_pages sgl 0 s = Ok () s"
| "put_sg_pages [] (Suc n) s = Fault OutOfBounds"
| "put_sg_pages (sg # sgl) (Suc n) s =
     obind (put_page (sg_pg sg) s) (\<lambda>_ t. put_sg_pages sgl n t)"

definition pinner_put_sglist_pages ::
    "(kptr \<times> scatterlist list) option \<Rightarrow> nat \<Rightarrow> kstate \<Rightarrow> (unit, kstate) outcome" where
  "pinner_put_sglist_pages sgl n s =
     (case sgl of None \<Rightarrow> Ok () s | Some (a, l) \<Rightarrow> put_sg_pages l n s)"

text \<open>
  \<open>list_del\<close> of a pinning. A pinning that was never added to a list has the null links
  kzalloc left in it, and list_del writes through them.
\<close>

definition list_del_pinning :: "kptr \<Rightarrow> kstate \<Rightarrow> (unit, kstate) outcome" where
  "list_del_pinning a s =
     (if a \<in> p_addr ` set (concat (map pinning_list (k_users s)))
      then Ok () (s\<lparr>k_users := map (\<lambda>i. i\<lparr>pinning_list :=
                    filter (\<lambda>q. p_addr q \<noteq> a) (pinning_list i)\<rparr>) (k_users s)\<rparr>)
      else Fault NullDeref)"

definition pinner_free_pinning :: "pinning \<Rightarrow> kstate \<Rightarrow> (unit, kstate) outcome" where
  "pinner_free_pinning p s =
     (let s1 = dma_event_add (DmaUnmap (map_option fst (sglist p)) (num_sg_ents p)) s
      in obind (pinner_put_sglist_pages (sglist p) (num_sg_ents p) s1) (\<lambda>_ s2.
         obind (kfree (map_option fst (sglist p)) s2) (\<lambda>_ s3.
         obind (list_del_pinning (p_addr p) s3) (\<lambda>_ s4.
         kfree (Some (p_addr p)) s4))))"

text \<open>The number of pinnings on all lists: what the loops below decrease.\<close>

definition num_pinnings :: "kstate \<Rightarrow> nat" where
  "num_pinnings s = length (concat (map pinning_list (k_users s)))"

lemma put_page_users:
  "put_page pg s = Ok u t \<Longrightarrow> k_users t = k_users s"
  by (auto simp: put_page_Ok)

lemma put_sg_pages_users:
  "put_sg_pages sgl n s = Ok u t \<Longrightarrow> k_users t = k_users s"
  by (induction sgl n s arbitrary: u t rule: put_sg_pages.induct)
     (auto elim!: obind_Ok_E dest: put_page_users)

lemma kfree_users: "kfree a s = Ok u t \<Longrightarrow> k_users t = k_users s"
  by (auto simp: kfree_Ok split: option.splits)

lemma length_filter_concat:
  "length (concat (map (\<lambda>i. filter P (f i)) xs)) = length (filter P (concat (map f xs)))"
  by (induction xs) auto

lemma list_del_pinning_fewer:
  assumes "list_del_pinning a s = Ok u t"
  shows "num_pinnings t < num_pinnings s"
proof -
  let ?all = "concat (map pinning_list (k_users s))"
  from assms obtain q where q: "q \<in> set ?all" "p_addr q = a"
    by (auto simp: list_del_pinning_def split: if_splits)
  from assms have t: "t = s\<lparr>k_users := map (\<lambda>i. i\<lparr>pinning_list :=
                    filter (\<lambda>q. p_addr q \<noteq> a) (pinning_list i)\<rparr>) (k_users s)\<rparr>"
    by (auto simp: list_del_pinning_def split: if_splits)
  have "num_pinnings t = length (filter (\<lambda>q. p_addr q \<noteq> a) ?all)"
    by (simp add: t num_pinnings_def comp_def length_filter_concat)
  also have "\<dots> < length ?all"
    by (rule length_filter_less [OF q(1)]) (simp add: q(2))
  finally show ?thesis by (simp add: num_pinnings_def)
qed

lemma pinner_free_pinning_fewer:
  "pinner_free_pinning p s = Ok u t \<Longrightarrow> num_pinnings t < num_pinnings s"
  by (auto simp: pinner_free_pinning_def Let_def pinner_put_sglist_pages_def dma_event_add_def
        num_pinnings_def split: option.splits
      elim!: obind_Ok_E
      dest!: kfree_users put_sg_pages_users list_del_pinning_fewer)

lemma obind_cong [fundef_cong]:
  "m = m' \<Longrightarrow> (\<And>a s. m' = Ok a s \<Longrightarrow> f a s = g a s) \<Longrightarrow> obind m f = obind m' g"
  by (cases m') auto

text \<open>The loop of \<open>pinner_free_pinnings\<close> frees the first pinning until the list is empty.\<close>

function pinner_free_pinnings :: "kptr \<Rightarrow> kstate \<Rightarrow> (unit, kstate) outcome" where
  "pinner_free_pinnings ia s =
     (case find_info ia s of
        None \<Rightarrow> Fault UseAfterFree
      | Some info \<Rightarrow>
          (case pinning_list info of
             [] \<Rightarrow> Ok () s
           | p # rest \<Rightarrow> obind (pinner_free_pinning p s) (\<lambda>_ t. pinner_free_pinnings ia t)))"
  by pat_completeness auto
termination
  by (relation "measure (\<lambda>(ia, s). num_pinnings s)") (auto dest: pinner_free_pinning_fewer)

declare pinner_free_pinnings.simps [simp del]

definition pinner_free_proc_info :: "kptr \<Rightarrow> kstate \<Rightarrow> (unit, kstate) outcome" where
  "pinner_free_proc_info ia s =
     obind (pinner_free_pinnings ia s) (\<lambda>_ t.
       kfree (Some ia) (t\<lparr>k_users := filter (\<lambda>i. pi_addr i \<noteq> ia) (k_users t)\<rparr>))"

section \<open>Reporting a pinning to the user\<close>

text \<open>\<open>offsetof(struct pinner_physlist, entries)\<close>: the entries are 8-byte aligned.\<close>

definition entries_offset :: u64 where
  "entries_offset = 8"

definition entry_of :: "scatterlist \<Rightarrow> physlist_entry" where
  "entry_of sg = \<lparr>pe_addr = sg_dma_address sg + ucast (sg_offset sg), pe_len = sg_length sg\<rparr>"

definition pinner_send_physlist ::
    "pin_env \<Rightarrow> pinner_cmd \<Rightarrow> pinning \<Rightarrow> kstate \<Rightarrow> (rc, kstate) outcome" where
  "pinner_send_physlist ev c p s =
     (case ev_ents ev of
        None \<Rightarrow> Ok (Inl ENOMEM) s
      | Some x \<Rightarrow>
         (let s1 = kalloc (Some x) s in
          case sglist p of
            None \<Rightarrow> Fault NullDeref
          | Some (sa, sgl) \<Rightarrow>
             if length sgl < num_sg_ents p then Fault OutOfBounds
             else
              (let entries = map entry_of (take (num_sg_ents p) sgl) in
               case copy_count_to_user (physlist_ptr c) (of_nat (num_sg_ents p)) (k_umem s1) of
                 None \<Rightarrow> obind (kfree (Some x) s1) (\<lambda>_ t. Ok (Inl EAGAIN) t)
               | Some m1 \<Rightarrow>
                  (case copy_entries_to_user (physlist_ptr c + entries_offset) entries m1 of
                     None \<Rightarrow> obind (kfree (Some x) (s1\<lparr>k_umem := m1\<rparr>)) (\<lambda>_ t. Ok (Inl EAGAIN) t)
                   | Some m2 \<Rightarrow> obind (kfree (Some x) (s1\<lparr>k_umem := m2\<rparr>)) (\<lambda>_ t. Ok (Inr ()) t)))))"

section \<open>Building the scatterlist\<close>

definition zero_sg :: scatterlist where
  "zero_sg = \<lparr>sg_pg = 0, sg_offset = 0, sg_length = 0, sg_dma_address = 0\<rparr>"

definition sg_set_page :: "scatterlist \<Rightarrow> page \<Rightarrow> u64 \<Rightarrow> u64 \<Rightarrow> scatterlist" where
  "sg_set_page sg pg len off =
     sg\<lparr>sg_pg := pg, sg_offset := ucast off, sg_length := ucast len\<rparr>"

text \<open>Entry \<open>i\<close> gets page \<open>i\<close>: sg_set_page, then the store of its physical address.\<close>

definition set_entry ::
    "(page \<Rightarrow> u64) \<Rightarrow> page list \<Rightarrow> nat \<Rightarrow> u64 \<Rightarrow> u64 \<Rightarrow> scatterlist list \<Rightarrow> scatterlist list" where
  "set_entry phys pgs i len off sgl =
     sgl[i := (sg_set_page (sgl ! i) (pgs ! i) len off)\<lparr>sg_dma_address := phys (pgs ! i)\<rparr>]"

function fill_middle ::
    "(page \<Rightarrow> u64) \<Rightarrow> page list \<Rightarrow> nat \<Rightarrow> nat \<Rightarrow> scatterlist list \<Rightarrow> scatterlist list" where
  "fill_middle phys pgs n i sgl =
     (if i + 1 < n then fill_middle phys pgs n (i + 1) (set_entry phys pgs i PAGE_SIZE 0 sgl)
      else sgl)"
  by pat_completeness auto
termination
  by (relation "measure (\<lambda>(phys, pgs, n, i, sgl). n - i)") auto

declare fill_middle.simps [simp del]

definition first_page_sz :: "u64 \<Rightarrow> u32 \<Rightarrow> u32" where
  "first_page_sz off total_sz =
     (if ucast total_sz < PAGE_SIZE - off then total_sz else ucast (PAGE_SIZE - off))"

definition fill_sglist ::
    "(page \<Rightarrow> u64) \<Rightarrow> page list \<Rightarrow> nat \<Rightarrow> u64 \<Rightarrow> u32 \<Rightarrow> scatterlist list" where
  "fill_sglist phys pgs n off total_sz =
     (let sgl0 = replicate n zero_sg;
          sgl1 = set_entry phys pgs 0 (ucast (first_page_sz off total_sz)) off sgl0;
          sgl2 = fill_middle phys pgs n 1 sgl1
      in if n > 1
         then set_entry phys pgs (n - 1)
                (ucast total_sz - (PAGE_SIZE - off) - (of_nat (n - 2)) * PAGE_SIZE) 0 sgl2
         else sgl2)"

definition pinner_alloc_and_fill_sglist ::
    "pin_env \<Rightarrow> page list option \<Rightarrow> int \<Rightarrow> pinning \<Rightarrow> u64 \<Rightarrow> u32 \<Rightarrow> kstate \<Rightarrow>
     rc \<times> pinning \<times> kstate" where
  "pinner_alloc_and_fill_sglist ev page_arr num_pages p off total_sz s =
     (case page_arr of
        None \<Rightarrow> (Inl EINVAL, p, s)
      | Some pgs \<Rightarrow>
         if num_pages \<le> 0 then (Inl EINVAL, p, s)
         else
          (case ev_sgl ev of
             None \<Rightarrow> (Inl ENOMEM, p\<lparr>sglist := None\<rparr>, s)
           | Some a \<Rightarrow>
              (Inr (),
               p\<lparr>sglist := Some (a, fill_sglist (ev_page_to_phys ev) pgs (nat num_pages) off total_sz)\<rparr>,
               kalloc (Some a) s)))"

section \<open>The commands\<close>

text \<open>
  \<open>num_pages = (first_pg_offset + usr_buf_sz + page_mask) / page_sz\<close>, computed in unsigned
  long and stored in an int.
\<close>

definition num_pages_of :: "u64 \<Rightarrow> u32 \<Rightarrow> int" where
  "num_pages_of buf sz =
     sint (ucast (((buf - page_start buf) + ucast sz + page_mask) div PAGE_SIZE) :: u32)"

text \<open>The label \<open>do_pin_error\<close>: \<open>pin\<close>, \<open>p\<close> and \<open>num_pages\<close> as they are at the goto.\<close>

definition do_pin_error ::
    "pinning option \<Rightarrow> (kptr \<times> page list) option \<Rightarrow> int \<Rightarrow> errno \<Rightarrow> kstate \<Rightarrow> (rc, kstate) outcome" where
  "do_pin_error pin p num_pages e s =
     (case pin of
        Some q \<Rightarrow> obind (pinner_free_pinning q s) (\<lambda>_ t. Ok (Inl e) t)
      | None \<Rightarrow>
         (case p of
            Some (a, pgs) \<Rightarrow>
              obind (put_page_list pgs (nat num_pages) s) (\<lambda>_ t.
              obind (kfree (Some a) t) (\<lambda>_ t'. Ok (Inl e) t'))
          | None \<Rightarrow> Ok (Inl e) s))"

definition list_add_pinning :: "pinning \<Rightarrow> kptr \<Rightarrow> kstate \<Rightarrow> kstate" where
  "list_add_pinning q ia = upd_info ia (\<lambda>i. i\<lparr>pinning_list := q # pinning_list i\<rparr>)"

text \<open>dma_map_sg writes the scatterlist through the pointer that the linked pinning holds.\<close>

definition set_pinning_sglist :: "kptr \<Rightarrow> scatterlist list \<Rightarrow> kstate \<Rightarrow> kstate" where
  "set_pinning_sglist a sgl s =
     s\<lparr>k_users := map (\<lambda>i. i\<lparr>pinning_list := map (\<lambda>q. if p_addr q = a
          then q\<lparr>sglist := map_option (\<lambda>(sa, l). (sa, sgl)) (sglist q)\<rparr> else q)
          (pinning_list i)\<rparr>) (k_users s)\<rparr>"

text \<open>The part of \<open>pinner_do_pin\<close> after the pinning has its scatterlist.\<close>

definition do_pin_publish ::
    "pin_env \<Rightarrow> pinner_cmd \<Rightarrow> kptr \<Rightarrow> u32 \<Rightarrow> int \<Rightarrow> pinning \<Rightarrow> kstate \<Rightarrow> (rc, kstate) outcome" where
  "do_pin_publish ev c ia imagic num_pages pin s =
     (let pin1 = pin\<lparr>p_magic := ev_magic ev\<rparr>;
          s1 = list_add_pinning pin1 ia s
      in case sglist pin1 of
           None \<Rightarrow> Fault NullDeref
         | Some (sa, sgl) \<Rightarrow>
            (let (ret, sgl') = ev_dma_map ev sgl;
                 pin2 = pin1\<lparr>sglist := Some (sa, sgl')\<rparr>;
                 s2 = set_pinning_sglist (p_addr pin) sgl'
                        (dma_event_add (DmaMap sa (num_sg_ents pin)) s1)
             in case ret of
                  Inl e \<Rightarrow> do_pin_error (Some pin2) None num_pages e s2
                | Inr k \<Rightarrow>
                   obind (pinner_send_physlist ev c pin2 s2) (\<lambda>r s3.
                     case r of
                       Inl e \<Rightarrow> do_pin_error (Some pin2) None num_pages e s3
                     | Inr _ \<Rightarrow>
                        (case copy_handle_to_user (handle_ptr c)
                                \<lparr>user_magic = imagic, pin_magic = p_magic pin1\<rparr> (k_umem s3) of
                           None \<Rightarrow> do_pin_error (Some pin2) None num_pages EAGAIN s3
                         | Some m \<Rightarrow> Ok (Inr ()) (s3\<lparr>k_umem := m\<rparr>)))))"

definition pinner_do_pin ::
    "pin_env \<Rightarrow> pinner_cmd \<Rightarrow> kptr \<Rightarrow> kstate \<Rightarrow> (rc, kstate) outcome" where
  "pinner_do_pin ev c ia s =
     (let off = usr_buf c - page_start (usr_buf c);
          num_pages = num_pages_of (usr_buf c) (usr_buf_sz c)
      in if num_pages > PINNER_MAX_PAGES then do_pin_error None None num_pages EINVAL s
         else if num_pages \<le> 0 then do_pin_error None None num_pages EINVAL s
         else
          (case ev_arr ev of
             None \<Rightarrow> do_pin_error None None num_pages ENOMEM s
           | Some a \<Rightarrow>
              (let s1 = kalloc (Some a) s in
               case ev_gup ev of
                 Inl e \<Rightarrow> do_pin_error None (Some (a, [])) num_pages EAGAIN s1
               | Inr pgs \<Rightarrow>
                  (let s2 = get_pages pgs s1 in
                   if int (length pgs) \<noteq> num_pages
                   then do_pin_error None (Some (a, pgs)) num_pages EAGAIN s2
                   else
                    (case ev_pin ev of
                       None \<Rightarrow> do_pin_error None (Some (a, pgs)) num_pages ENOMEM s2
                     | Some b \<Rightarrow>
                        (let pin0 = \<lparr>p_addr = b, num_sg_ents = nat num_pages, sglist = None,
                                     p_magic = 0\<rparr>;
                             (ret, pin1, s4) = pinner_alloc_and_fill_sglist ev (Some pgs) num_pages
                               pin0 off (usr_buf_sz c) (kalloc (Some b) s2)
                         in case ret of
                              Inl e \<Rightarrow> do_pin_error (Some pin1) (Some (a, pgs)) num_pages e s4
                            | Inr _ \<Rightarrow>
                               (case find_info ia s4 of
                                  None \<Rightarrow> Fault UseAfterFree
                                | Some info \<Rightarrow>
                                   do_pin_publish ev c ia (pi_magic info) num_pages pin1 s4)))))))"

text \<open>The linear search of flush and unpin: the first pinning with the handle's magic.\<close>

definition find_pinning :: "u32 \<Rightarrow> proc_info \<Rightarrow> pinning option" where
  "find_pinning m info = find (\<lambda>p. m = p_magic p) (pinning_list info)"

definition pinner_do_flush :: "pinner_cmd \<Rightarrow> kptr \<Rightarrow> kstate \<Rightarrow> (rc, kstate) outcome" where
  "pinner_do_flush c ia s =
     (case um_handles (k_umem s) (handle_ptr c) of
        None \<Rightarrow> Ok (Inl EAGAIN) s
      | Some h \<Rightarrow>
         (case find_info ia s of
            None \<Rightarrow> Fault UseAfterFree
          | Some info \<Rightarrow>
             if user_magic h \<noteq> pi_magic info then Ok (Inl EINVAL) s
             else
              (case find_pinning (pin_magic h) info of
                 None \<Rightarrow> Ok (Inl EINVAL) s
               | Some p \<Rightarrow>
                  (let sg = map_option fst (sglist p);
                       s1 = (if usr_buf_sz c AND 1 = 0
                             then dma_event_add (SyncForCpu sg (num_sg_ents p)) s else s);
                       s2 = (if usr_buf_sz c AND 2 = 0
                             then dma_event_add (SyncForDevice sg (num_sg_ents p)) s1 else s1)
                   in Ok (Inr ()) s2))))"

definition pinner_do_unpin :: "pinner_cmd \<Rightarrow> kptr \<Rightarrow> kstate \<Rightarrow> (rc, kstate) outcome" where
  "pinner_do_unpin c ia s =
     (case um_handles (k_umem s) (handle_ptr c) of
        None \<Rightarrow> Ok (Inl EAGAIN) s
      | Some h \<Rightarrow>
         (case find_info ia s of
            None \<Rightarrow> Fault UseAfterFree
          | Some info \<Rightarrow>
             if user_magic h \<noteq> pi_magic info then Ok (Inl EINVAL) s
             else
              (case find_pinning (pin_magic h) info of
                 None \<Rightarrow> Ok (Inl EINVAL) s
               | Some p \<Rightarrow> obind (pinner_free_pinning p s) (\<lambda>_ t. Ok (Inr ()) t))))"

section \<open>File operations and module entry points\<close>

definition pinner_open :: "kptr option \<Rightarrow> u32 \<Rightarrow> nat \<Rightarrow> kstate \<Rightarrow> (rc, kstate) outcome" where
  "pinner_open a magic filp s =
     (case a of
        None \<Rightarrow> Ok (Inl ENOMEM) s
      | Some x \<Rightarrow>
         (let info = \<lparr>pi_addr = x, pinning_list = [], pi_magic = magic\<rparr>;
              s1 = kalloc (Some x) s
          in Ok (Inr ()) (s1\<lparr>k_users := info # k_users s1,
                             k_private := (k_private s1)(filp \<mapsto> x)\<rparr>)))"

definition pinner_release :: "nat \<Rightarrow> kstate \<Rightarrow> (rc, kstate) outcome" where
  "pinner_release filp s =
     (case k_private s filp of
        None \<Rightarrow> Fault NullDeref
      | Some ia \<Rightarrow> obind (pinner_free_proc_info ia s) (\<lambda>_ t. Ok (Inr ()) t))"

text \<open>\<open>sizeof(struct pinner_cmd)\<close> on a 64-bit machine: 4 + 4 (padding) + 8 + 4 + 4 (padding) + 8 + 8.\<close>

definition sizeof_pinner_cmd :: u64 where
  "sizeof_pinner_cmd = 40"

definition pinner_write ::
    "pin_env \<Rightarrow> nat \<Rightarrow> u64 \<Rightarrow> u64 \<Rightarrow> kstate \<Rightarrow> (rc, kstate) outcome" where
  "pinner_write ev filp buf sz s =
     (if sz \<noteq> sizeof_pinner_cmd then Ok (Inl EINVAL) s
      else
       (case um_cmds (k_umem s) buf of
          None \<Rightarrow> Ok (Inl EAGAIN) s
        | Some c \<Rightarrow>
           (case k_private s filp of
              None \<Rightarrow> Fault NullDeref
            | Some ia \<Rightarrow>
               if cmd c = PINNER_PIN then pinner_do_pin ev c ia s
               else if cmd c = PINNER_UNPIN then pinner_do_unpin c ia s
               else if cmd c = PINNER_FLUSH then pinner_do_flush c ia s
               else Ok (Inl ENOSYS) s)))"

text \<open>misc_register answers a count or an error; its error code is propagated.\<close>

definition pinner_init :: "errno + nat \<Rightarrow> kstate \<Rightarrow> (errno + nat) \<times> kstate" where
  "pinner_init r s =
     (case r of Inl e \<Rightarrow> (Inl e, s) | Inr k \<Rightarrow> (Inr k, s\<lparr>k_registered := True, k_device := True\<rparr>))"

lemma list_del_pinning_users:
  "list_del_pinning a s = Ok u t \<Longrightarrow> map pi_addr (k_users t) = map pi_addr (k_users s)"
  by (auto simp: list_del_pinning_def split: if_splits)

lemma pinner_free_pinning_users:
  "pinner_free_pinning p s = Ok u t \<Longrightarrow> map pi_addr (k_users t) = map pi_addr (k_users s)"
  by (auto simp: pinner_free_pinning_def Let_def pinner_put_sglist_pages_def dma_event_add_def
      split: option.splits
      elim!: obind_Ok_E
      dest!: kfree_users put_sg_pages_users list_del_pinning_users)

lemma pinner_free_pinnings_users:
  "pinner_free_pinnings ia s = Ok u t \<Longrightarrow> map pi_addr (k_users t) = map pi_addr (k_users s)"
proof (induction ia s arbitrary: u t rule: pinner_free_pinnings.induct)
  case (1 ia s)
  show ?case
  proof (cases "find_info ia s")
    case None
    with "1.prems" show ?thesis by (simp add: pinner_free_pinnings.simps [of ia s])
  next
    case (Some info)
    show ?thesis
    proof (cases "pinning_list info")
      case Nil
      with Some "1.prems" show ?thesis by (simp add: pinner_free_pinnings.simps [of ia s])
    next
      case (Cons p rest)
      with Some "1.prems" obtain v s' where free: "pinner_free_pinning p s = Ok v s'"
        and loop: "pinner_free_pinnings ia s' = Ok u t"
        by (auto simp: pinner_free_pinnings.simps [of ia s] elim: obind_Ok_E)
      from "1.IH" [OF Some Cons free loop] pinner_free_pinning_users [OF free]
      show ?thesis by simp
    qed
  qed
qed

lemma map_filter_addr:
  "map f (filter (\<lambda>i. f i \<noteq> a) xs) = filter (\<lambda>x. x \<noteq> a) (map f xs)"
  by (induction xs) auto

lemma pinner_free_proc_info_users:
  assumes "pinner_free_proc_info ia s = Ok u t"
  shows "map pi_addr (k_users t) = filter (\<lambda>a. a \<noteq> ia) (map pi_addr (k_users s))"
proof -
  from assms obtain v s' where free: "pinner_free_pinnings ia s = Ok v s'"
    and users: "k_users t = filter (\<lambda>i. pi_addr i \<noteq> ia) (k_users s')"
    by (auto simp: pinner_free_proc_info_def elim!: obind_Ok_E dest!: kfree_users)
  show ?thesis
    by (simp only: users map_filter_addr pinner_free_pinnings_users [OF free])
qed

text \<open>The loop of \<open>pinner_exit\<close>: free the first proc_info until the list of users is empty.\<close>

function free_all_users :: "kstate \<Rightarrow> (unit, kstate) outcome" where
  "free_all_users s =
     (case k_users s of
        [] \<Rightarrow> Ok () s
      | i # rest \<Rightarrow> obind (pinner_free_proc_info (pi_addr i) s) (\<lambda>_ t. free_all_users t))"
  by pat_completeness auto
termination
proof (relation "measure (\<lambda>s. length (k_users s))")
  fix s i rest a t
  assume users: "k_users s = i # rest" and ok: "pinner_free_proc_info (pi_addr i) s = Ok a t"
  have "length (map pi_addr (k_users t)) = length (filter (\<lambda>a. a \<noteq> pi_addr i) (map pi_addr (k_users s)))"
    using pinner_free_proc_info_users [OF ok] by simp
  also have "\<dots> < length (map pi_addr (k_users s))"
    by (rule length_filter_less [of "pi_addr i"]) (simp_all add: users)
  finally show "(t, s) \<in> measure (\<lambda>s. length (k_users s))" by simp
qed simp

declare free_all_users.simps [simp del]

definition pinner_exit :: "kstate \<Rightarrow> (unit, kstate) outcome" where
  "pinner_exit s =
     free_all_users (if k_registered s then s\<lparr>k_device := False\<rparr> else s)"

end
