(* ===== verification/PinnerInv.thy ===== *)
theory PinnerInv
  imports Pinner
begin

text \<open>
  The resource invariant of the pinner: every page reference and every heap object of a
  well-formed state is owned by exactly one pinning or proc_info. The operations that free
  a pinning are shown to give back what it owns, without a fault.
\<close>

section \<open>What a state owns\<close>

definition uniq :: "'a multiset \<Rightarrow> bool" where
  "uniq M \<longleftrightarrow> (\<forall>x. count M x \<le> 1)"

lemma uniq_add [simp]: "uniq (add_mset a M) \<longleftrightarrow> a \<notin># M \<and> uniq M"
proof
  assume u: "uniq (add_mset a M)"
  have "count M x \<le> 1" for x
  proof -
    have "count M x \<le> count (add_mset a M) x" by simp
    with u show ?thesis unfolding uniq_def by (meson order_trans)
  qed
  moreover have "count M a = 0"
    using u by (auto simp: uniq_def dest!: spec [of _ a])
  ultimately show "a \<notin># M \<and> uniq M" by (simp add: uniq_def not_in_iff)
next
  assume "a \<notin># M \<and> uniq M"
  then show "uniq (add_mset a M)" by (auto simp: uniq_def not_in_iff)
qed

lemma uniq_empty [simp]: "uniq {#}"
  by (simp add: uniq_def)

lemma uniq_subset: "uniq M \<Longrightarrow> N \<subseteq># M \<Longrightarrow> uniq N"
  by (meson mset_subset_eq_count order_trans uniq_def)

lemma uniq_plusD: "uniq (M + N) \<Longrightarrow> uniq M" "uniq (M + N) \<Longrightarrow> uniq N"
  by (auto intro: uniq_subset)

lemma uniq_plus_disjoint: "uniq (M + N) \<Longrightarrow> x \<in># M \<Longrightarrow> x \<notin># N"
proof
  assume "uniq (M + N)" and "x \<in># M" and "x \<in># N"
  then have "count M x \<ge> 1" and "count N x \<ge> 1" and "count M x + count N x \<le> 1"
    by (auto simp: uniq_def Suc_le_eq)
  then show False by linarith
qed

definition pin_pages :: "pinning \<Rightarrow> page multiset" where
  "pin_pages p = (case sglist p of
      None \<Rightarrow> {#} | Some (a, l) \<Rightarrow> mset (map sg_pg (take (num_sg_ents p) l)))"

definition pin_addrs :: "pinning \<Rightarrow> kptr multiset" where
  "pin_addrs p = add_mset (p_addr p) (case sglist p of None \<Rightarrow> {#} | Some (a, l) \<Rightarrow> {#a#})"

definition pages_of :: "pinning multiset \<Rightarrow> page multiset" where
  "pages_of M = \<Sum>\<^sub># (image_mset pin_pages M)"

definition addrs_of :: "pinning multiset \<Rightarrow> kptr multiset" where
  "addrs_of M = \<Sum>\<^sub># (image_mset pin_addrs M)"

lemma pages_of_simps [simp]:
  "pages_of {#} = {#}" "pages_of (add_mset p M) = pin_pages p + pages_of M"
  by (simp_all add: pages_of_def)

lemma addrs_of_simps [simp]:
  "addrs_of {#} = {#}" "addrs_of (add_mset p M) = pin_addrs p + addrs_of M"
  by (simp_all add: addrs_of_def)

lemma p_addr_in_addrs_of: "p \<in># M \<Longrightarrow> p_addr p \<in># addrs_of M"
  by (induction M) (auto simp: pin_addrs_def)

lemma pages_of_in: "p \<in># M \<Longrightarrow> pin_pages p \<subseteq># pages_of M"
  by (auto dest!: multi_member_split)

lemma addrs_of_in: "p \<in># M \<Longrightarrow> pin_addrs p \<subseteq># addrs_of M"
  by (auto dest!: multi_member_split)

definition user_pins :: "proc_info list \<Rightarrow> pinning multiset" where
  "user_pins us = mset (concat (map pinning_list us))"

definition user_addrs :: "proc_info list \<Rightarrow> kptr multiset" where
  "user_addrs us = mset (map pi_addr us) + addrs_of (user_pins us)"

lemma user_pins_simps [simp]:
  "user_pins [] = {#}" "user_pins (i # us) = mset (pinning_list i) + user_pins us"
  by (simp_all add: user_pins_def)

lemma addrs_of_plus: "addrs_of (M + N) = addrs_of M + addrs_of N"
  by (simp add: addrs_of_def)

lemma pages_of_plus: "pages_of (M + N) = pages_of M + pages_of N"
  by (simp add: pages_of_def)

definition wf_pinning :: "pinning \<Rightarrow> bool" where
  "wf_pinning p = (case sglist p of
      None \<Rightarrow> False
    | Some (a, l) \<Rightarrow> length l = num_sg_ents p \<and> 0 < num_sg_ents p \<and> num_sg_ents p \<le> 1024)"

text \<open>
  The ownership invariant, over the page references \<open>B\<close> that others hold: no address has two
  owners, pinnings have a scatterlist of the recorded length, the references taken are those
  of the linked pinnings, and every owned object is live. \<open>pinner_inv\<close> adds that the
  proc_infos are exactly those of the open files, one for each.
\<close>

definition owns :: "page multiset \<Rightarrow> kstate \<Rightarrow> bool" where
  "owns B s \<longleftrightarrow>
     uniq (user_addrs (k_users s)) \<and>
     (\<forall>p \<in># user_pins (k_users s). wf_pinning p) \<and>
     k_refs s = B + pages_of (user_pins (k_users s)) \<and>
     user_addrs (k_users s) \<subseteq># k_live s"

definition pinner_inv :: "page multiset \<Rightarrow> kstate \<Rightarrow> bool" where
  "pinner_inv B s \<longleftrightarrow>
     owns B s \<and>
     ran (k_private s) = pi_addr ` set (k_users s) \<and>
     inj_on (k_private s) (dom (k_private s))"

section \<open>Freeing one pinning\<close>

lemma put_sg_pages_Ok:
  "put_sg_pages l n s = Ok u t \<Longrightarrow>
     n \<le> length l \<and> mset (map sg_pg (take n l)) \<subseteq># k_refs s \<and>
     t = s\<lparr>k_refs := k_refs s - mset (map sg_pg (take n l))\<rparr>"
proof (induction l n s arbitrary: u t rule: put_sg_pages.induct)
  case (3 sg sgl n s)
  then show ?case
    by (fastforce elim!: obind_Ok_E simp: put_page_Ok insert_subset_eq_iff)
qed auto

lemma put_sg_pages_run:
  "n \<le> length l \<Longrightarrow> mset (map sg_pg (take n l)) \<subseteq># k_refs s \<Longrightarrow>
     put_sg_pages l n s = Ok () (s\<lparr>k_refs := k_refs s - mset (map sg_pg (take n l))\<rparr>)"
proof (induction l n s rule: put_sg_pages.induct)
  case (3 sg sgl n s)
  then show ?case by (auto simp: put_page_def insert_subset_eq_iff)
qed auto

definition del_pinning :: "kptr \<Rightarrow> proc_info list \<Rightarrow> proc_info list" where
  "del_pinning a us =
     map (\<lambda>i. i\<lparr>pinning_list := filter (\<lambda>q. p_addr q \<noteq> a) (pinning_list i)\<rparr>) us"

lemma user_pins_del: "user_pins (del_pinning a us) = filter_mset (\<lambda>q. p_addr q \<noteq> a) (user_pins us)"
  by (induction us) (simp_all add: del_pinning_def)

lemma addr_del [simp]: "map pi_addr (del_pinning a us) = map pi_addr us"
  by (simp add: del_pinning_def)

lemma filter_mset_del:
  assumes "p \<in># M" and "uniq (addrs_of M)"
  shows "filter_mset (\<lambda>q. p_addr q \<noteq> p_addr p) M = M - {#p#}"
proof -
  from assms(1) obtain N where M: "M = add_mset p N" by (rule mset_add)
  with assms(2) have "p_addr p \<notin># addrs_of N"
    by (auto simp: pin_addrs_def)
  then have "\<forall>q \<in># N. p_addr q \<noteq> p_addr p"
    by (metis p_addr_in_addrs_of)
  then have "filter_mset (\<lambda>q. p_addr q \<noteq> p_addr p) N = N"
    by (simp add: filter_mset_eq_conv)
  with M show ?thesis by simp
qed

text \<open>What is left when a pinning is freed.\<close>

definition without_pinning :: "pinning \<Rightarrow> kstate \<Rightarrow> kstate" where
  "without_pinning p s =
     s\<lparr>k_users := del_pinning (p_addr p) (k_users s),
       k_refs := k_refs s - pin_pages p,
       k_live := k_live s - pin_addrs p,
       k_dma := k_dma s @ [DmaUnmap (map_option fst (sglist p)) (num_sg_ents p)]\<rparr>"

lemma pinner_free_pinning_run:
  assumes wf: "wf_pinning p"
    and linked: "p_addr p \<in> p_addr ` set (concat (map pinning_list (k_users s)))"
    and refs: "pin_pages p \<subseteq># k_refs s" and live: "pin_addrs p \<subseteq># k_live s"
  shows "pinner_free_pinning p s = Ok () (without_pinning p s)"
proof -
  from wf obtain a l where sg: "sglist p = Some (a, l)" and len: "length l = num_sg_ents p"
    by (auto simp: wf_pinning_def split: option.splits)
  have pages: "pin_pages p = mset (map sg_pg (take (num_sg_ents p) l))"
    by (simp add: pin_pages_def sg)
  have addrs: "pin_addrs p = {#p_addr p, a#}"
    by (simp add: pin_addrs_def sg)
  from live have "a \<in># k_live s" and "p_addr p \<in># k_live s - {#a#}"
    by (simp_all add: addrs insert_subset_eq_iff add_mset_commute)
  then show ?thesis
    using refs linked len
    by (simp add: pinner_free_pinning_def Let_def sg pinner_put_sglist_pages_def pages addrs
        dma_event_add_def put_sg_pages_run kfree_def list_del_pinning_def without_pinning_def
        del_pinning_def add_mset_commute)
qed

lemma user_addrs_del:
  assumes "uniq (user_addrs us)" and "p \<in># user_pins us"
  shows "user_pins (del_pinning (p_addr p) us) = user_pins us - {#p#}"
    and "user_addrs (del_pinning (p_addr p) us) = user_addrs us - pin_addrs p"
proof -
  from assms(1) have u: "uniq (addrs_of (user_pins us))"
    by (auto simp: user_addrs_def dest: uniq_plusD)
  show pins: "user_pins (del_pinning (p_addr p) us) = user_pins us - {#p#}"
    by (simp add: user_pins_del filter_mset_del [OF assms(2) u])
  from assms(2) obtain N where N: "user_pins us = add_mset p N" by (rule mset_add)
  show "user_addrs (del_pinning (p_addr p) us) = user_addrs us - pin_addrs p"
    by (simp add: user_addrs_def pins N)
qed

text \<open>Freeing a linked pinning keeps the invariant.\<close>

lemma owns_free:
  assumes inv: "owns B s" and p: "p \<in># user_pins (k_users s)"
  shows "pinner_free_pinning p s = Ok () (without_pinning p s)"
    and "owns B (without_pinning p s)"
    and "user_pins (k_users (without_pinning p s)) = user_pins (k_users s) - {#p#}"
proof -
  let ?us = "k_users s"
  from inv have u: "uniq (user_addrs ?us)" and wf: "\<forall>p \<in># user_pins ?us. wf_pinning p"
    and refs: "k_refs s = B + pages_of (user_pins ?us)" and live: "user_addrs ?us \<subseteq># k_live s"
    by (auto simp: owns_def)
  have addrs: "pin_addrs p \<subseteq># user_addrs ?us"
    using addrs_of_in [OF p] by (simp add: user_addrs_def subset_mset.add_increasing)
  have pages: "pin_pages p \<subseteq># k_refs s"
    using pages_of_in [OF p] by (simp add: refs subset_mset.add_increasing)
  show "pinner_free_pinning p s = Ok () (without_pinning p s)"
    using p wf pages addrs live
    by (intro pinner_free_pinning_run) (auto simp: user_pins_def intro: subset_mset.order_trans)
  note del = user_addrs_del [OF u p]
  show pins: "user_pins (k_users (without_pinning p s)) = user_pins ?us - {#p#}"
    by (simp add: without_pinning_def del)
  from p obtain N where N: "user_pins ?us = add_mset p N" by (rule mset_add)
  have "k_refs s - pin_pages p = B + pages_of N"
    by (simp add: refs N)
  moreover have "uniq (user_addrs ?us - pin_addrs p)"
    using u by (rule uniq_subset) simp
  moreover have "user_addrs ?us - pin_addrs p \<subseteq># k_live s - pin_addrs p"
    using live by (simp add: subseteq_mset_def diff_le_mono)
  ultimately show "owns B (without_pinning p s)"
    using inv wf N by (simp add: owns_def without_pinning_def del)
qed

lemma find_info_SomeD:
  "find_info ia s = Some info \<Longrightarrow> info \<in> set (k_users s) \<and> pi_addr info = ia"
  by (auto simp: find_info_def find_Some_iff)

lemma user_pins_in: "i \<in> set us \<Longrightarrow> mset (pinning_list i) \<subseteq># user_pins us"
  by (induction us) (auto intro: subset_mset.order_trans)

lemma find_info_del:
  "find_info ja (without_pinning p s) =
     map_option (\<lambda>i. i\<lparr>pinning_list := filter (\<lambda>q. p_addr q \<noteq> p_addr p) (pinning_list i)\<rparr>) (find_info ja s)"
proof -
  have "find (\<lambda>i. pi_addr i = ja) (del_pinning a us) =
      map_option (\<lambda>i. i\<lparr>pinning_list := filter (\<lambda>q. p_addr q \<noteq> a) (pinning_list i)\<rparr>)
        (find (\<lambda>i. pi_addr i = ja) us)" for a us
    by (induction us) (auto simp: del_pinning_def)
  then show ?thesis by (simp add: find_info_def without_pinning_def)
qed

lemma head_pinning:
  assumes own: "owns B s" and info: "find_info ia s = Some info" and ps: "pinning_list info = p # ps"
  shows "p \<in># user_pins (k_users s)"
    and "find_info ia (without_pinning p s) = Some (info\<lparr>pinning_list := ps\<rparr>)"
proof -
  let ?us = "k_users s"
  from info have mem: "info \<in> set ?us" by (simp add: find_info_SomeD)
  have sub: "add_mset p (mset ps) \<subseteq># user_pins ?us"
    using user_pins_in [OF mem] by (simp add: ps)
  then show "p \<in># user_pins ?us" by (auto dest: mset_subset_eqD)
  from own have "uniq (addrs_of (user_pins ?us))"
    by (auto simp: owns_def user_addrs_def dest: uniq_plusD)
  moreover obtain N where "user_pins ?us = add_mset p (mset ps) + N"
    using sub by (auto simp: subset_mset.le_iff_add)
  ultimately have "p_addr p \<notin># addrs_of (mset ps)"
    by (auto simp: addrs_of_plus pin_addrs_def)
  then have "\<forall>q \<in> set ps. p_addr q \<noteq> p_addr p"
    by (metis p_addr_in_addrs_of set_mset_mset)
  then have "filter (\<lambda>q. p_addr q \<noteq> p_addr p) ps = ps"
    by (simp add: filter_id_conv)
  then have "info\<lparr>pinning_list := filter (\<lambda>q. p_addr q \<noteq> p_addr p) (pinning_list info)\<rparr> =
      info\<lparr>pinning_list := ps\<rparr>"
    by (simp add: ps)
  then show "find_info ia (without_pinning p s) = Some (info\<lparr>pinning_list := ps\<rparr>)"
    using info by (simp add: find_info_del)
qed

text \<open>The loop frees every pinning of the proc_info and keeps the invariant.\<close>

lemma owns_free_pinnings:
  assumes "owns B s" and "find_info ia s = Some info"
  shows "\<exists>t. pinner_free_pinnings ia s = Ok () t \<and> owns B t \<and>
           find_info ia t = Some (info\<lparr>pinning_list := []\<rparr>) \<and>
           map pi_addr (k_users t) = map pi_addr (k_users s) \<and>
           user_pins (k_users t) = user_pins (k_users s) - mset (pinning_list info) \<and>
           k_live t = k_live s - addrs_of (mset (pinning_list info)) \<and>
           k_private t = k_private s"
  using assms
proof (induction "pinning_list info" arbitrary: s info)
  case Nil
  then have "info\<lparr>pinning_list := []\<rparr> = info" by simp
  with Nil show ?case
    by (auto simp: pinner_free_pinnings.simps [of ia s] split: list.splits)
next
  case (Cons p ps)
  from Cons.hyps(2) have ps: "pinning_list info = p # ps" by simp
  note head = head_pinning [OF Cons.prems ps]
  note free = owns_free [OF Cons.prems(1) head(1)]
  from Cons.hyps(1) [OF _ free(2) head(2)] obtain t where
    t: "pinner_free_pinnings ia (without_pinning p s) = Ok () t" "owns B t"
       "find_info ia t = Some (info\<lparr>pinning_list := []\<rparr>)"
       "map pi_addr (k_users t) = map pi_addr (k_users (without_pinning p s))"
       "user_pins (k_users t) = user_pins (k_users (without_pinning p s)) - mset ps"
       "k_live t = k_live (without_pinning p s) - addrs_of (mset ps)"
       "k_private t = k_private (without_pinning p s)"
    by auto
  have "pinner_free_pinnings ia s = Ok () t"
    using Cons.prems(2) free(1) t(1) by (simp add: pinner_free_pinnings.simps [of ia s] ps)
  then show ?case
    using t free(3) by (simp add: ps without_pinning_def)
qed

lemma user_pins_filter:
  assumes "uniq (mset (map pi_addr us))" and "find (\<lambda>i. pi_addr i = ia) us = Some info"
  shows "user_pins us = user_pins (filter (\<lambda>i. pi_addr i \<noteq> ia) us) + mset (pinning_list info)"
    and "mset (map pi_addr us) = add_mset ia (mset (map pi_addr (filter (\<lambda>i. pi_addr i \<noteq> ia) us)))"
proof -
  have "user_pins us = user_pins (filter (\<lambda>i. pi_addr i \<noteq> ia) us) + mset (pinning_list info) \<and>
     mset (map pi_addr us) = add_mset ia (mset (map pi_addr (filter (\<lambda>i. pi_addr i \<noteq> ia) us)))"
    using assms
  proof (induction us)
    case (Cons i us)
    show ?case
    proof (cases "pi_addr i = ia")
      case True
      from True Cons.prems(1) have "ia \<notin> pi_addr ` set us" by auto
      then have "\<forall>j \<in> set us. pi_addr j \<noteq> ia" by (metis image_eqI)
      then have "filter (\<lambda>i. pi_addr i \<noteq> ia) us = us" by (simp add: filter_id_conv)
      with True Cons.prems(2) show ?thesis by simp
    next
      case False
      with Cons show ?thesis by simp
    qed
  qed simp
  then show "user_pins us = user_pins (filter (\<lambda>i. pi_addr i \<noteq> ia) us) + mset (pinning_list info)"
    and "mset (map pi_addr us) = add_mset ia (mset (map pi_addr (filter (\<lambda>i. pi_addr i \<noteq> ia) us)))"
    by auto
qed

text \<open>Freeing a proc_info gives back all it owns.\<close>

lemma owns_free_proc_info:
  assumes own: "owns B s" and info: "find_info ia s = Some info"
  shows "\<exists>t. pinner_free_proc_info ia s = Ok () t \<and> owns B t \<and>
           map pi_addr (k_users t) = filter (\<lambda>a. a \<noteq> ia) (map pi_addr (k_users s)) \<and>
           user_pins (k_users t) = user_pins (k_users s) - mset (pinning_list info) \<and>
           k_live t = k_live s - addrs_of (mset (pinning_list info)) - {#ia#} \<and>
           k_private t = k_private s"
proof -
  from owns_free_pinnings [OF assms] obtain u where
    u: "pinner_free_pinnings ia s = Ok () u" "owns B u"
       "find_info ia u = Some (info\<lparr>pinning_list := []\<rparr>)"
       "map pi_addr (k_users u) = map pi_addr (k_users s)"
       "user_pins (k_users u) = user_pins (k_users s) - mset (pinning_list info)"
       "k_live u = k_live s - addrs_of (mset (pinning_list info))"
       "k_private u = k_private s"
    by blast
  let ?us = "filter (\<lambda>i. pi_addr i \<noteq> ia) (k_users u)"
  let ?t = "u\<lparr>k_users := ?us, k_live := k_live u - {#ia#}\<rparr>"
  from u(2) have uq: "uniq (mset (map pi_addr (k_users u)))"
    by (auto simp: owns_def user_addrs_def dest: uniq_plusD)
  note filt = user_pins_filter [OF uq u(3) [unfolded find_info_def]]
  then have pins: "user_pins ?us = user_pins (k_users u)" by simp
  have addrs: "user_addrs (k_users u) = add_mset ia (user_addrs ?us)"
    by (simp only: user_addrs_def filt(2) pins union_mset_add_mset_left)
  from u(2) have live: "add_mset ia (user_addrs ?us) \<subseteq># k_live u"
    by (simp add: owns_def addrs)
  then have "ia \<in># k_live u" by (rule insert_subset_eq_iff [THEN iffD1, THEN conjunct1])
  then have run: "pinner_free_proc_info ia s = Ok () ?t"
    by (simp add: pinner_free_proc_info_def u(1) kfree_def)
  have "user_addrs ?us \<subseteq># k_live u - {#ia#}"
    using live by (simp add: insert_subset_eq_iff)
  then have "owns B ?t"
    using u(2) by (simp add: owns_def addrs pins)
  with run show ?thesis
    using u(4-7) by (auto simp: map_filter_addr pins)
qed

end
