(* ===== verification/PinnerSG.thy ===== *)
theory PinnerSG
  imports Pinner
begin

text \<open>
  The arithmetic of a pin command: how many pages a user buffer spans, and what the
  scatterlist built by \<open>fill_sglist\<close> says about it. The reference is \<open>seg_len\<close>: page \<open>i\<close>
  holds the part of the buffer that lies between \<open>4096 * i\<close> and \<open>4096 * (i + 1)\<close>, counted
  from the start of the first page.
\<close>

section \<open>The number of pages\<close>

lemma unat_first_offset: "unat (b - page_start b) = unat b mod 4096"
  by (simp add: page_offset_eq unat_and_page_mask)

lemma num_pages_of_eq:
  "num_pages_of b sz = int ((unat b mod 4096 + unat sz + 4095) div 4096)"
proof -
  let ?off = "b - page_start b"
  let ?n = "(unat b mod 4096 + unat sz + 4095) div 4096"
  have off: "unat ?off = unat b mod 4096" by (rule unat_first_offset)
  have sz: "unat sz < 4294967296" by (rule unat_lt_u32)
  have mod: "unat b mod 4096 < 4096" by simp
  have "unat (?off + ucast sz + page_mask) = unat b mod 4096 + unat sz + 4095"
    using off sz mod by (simp add: unat_word_ariths page_simps)
  then have div: "unat ((?off + ucast sz + page_mask) div PAGE_SIZE) = ?n"
    by (simp add: unat_div page_simps)
  have small: "?n < 2 ^ 31" using sz mod by simp
  have "unat (ucast ((?off + ucast sz + page_mask) div PAGE_SIZE) :: u32) = ?n"
    using small by (simp add: unsigned_ucast_eq take_bit_nat_eq_self div)
  then have w: "ucast ((?off + ucast sz + page_mask) div PAGE_SIZE) = (of_nat ?n :: u32)"
    by (metis of_nat_unat ucast_id)
  show ?thesis
    unfolding num_pages_of_def w using small by (simp add: signed_of_nat signed_take_bit_int_eq_self)
qed

lemma num_pages_spanned:
  assumes "0 < sz"
  shows "num_pages_of b sz =
           int ((unat b + unat sz - 1) div 4096) - int (unat b div 4096) + 1"
proof -
  have pos: "0 < unat sz" using assms by (simp add: word_less_nat_alt)
  define q r where "q = unat b div 4096" and "r = unat b mod 4096"
  have b: "unat b = 4096 * q + r" by (simp add: q_def r_def)
  have "(unat b + unat sz - 1) div 4096 = q + (r + unat sz - 1) div 4096"
    using pos by (simp add: b add.assoc)
  moreover have "(r + unat sz + 4095) div 4096 = (r + unat sz - 1) div 4096 + 1"
    using pos by (simp add: div_add_self2 [symmetric])
  ultimately show ?thesis
    by (simp add: num_pages_of_eq flip: q_def r_def)
qed

section \<open>The entries of the scatterlist\<close>

definition seg_len :: "nat \<Rightarrow> nat \<Rightarrow> nat \<Rightarrow> nat" where
  "seg_len off sz i = min (off + sz) (4096 * (i + 1)) - max off (4096 * i)"

definition sg_spec :: "(page \<Rightarrow> u64) \<Rightarrow> page list \<Rightarrow> nat \<Rightarrow> nat \<Rightarrow> nat \<Rightarrow> scatterlist" where
  "sg_spec phys pgs off sz i =
     \<lparr>sg_pg = pgs ! i, sg_offset = (if i = 0 then of_nat off else 0),
      sg_length = of_nat (seg_len off sz i), sg_dma_address = phys (pgs ! i)\<rparr>"

lemma length_set_entry [simp]: "length (set_entry phys pgs i len off sgl) = length sgl"
  by (simp add: set_entry_def)

lemma nth_set_entry:
  "i < length sgl \<Longrightarrow> set_entry phys pgs i len off sgl ! j =
     (if j = i then \<lparr>sg_pg = pgs ! i, sg_offset = ucast off, sg_length = ucast len,
                     sg_dma_address = phys (pgs ! i)\<rparr>
      else sgl ! j)"
  by (simp add: set_entry_def sg_set_page_def nth_list_update)

lemma length_fill_middle [simp]: "length (fill_middle phys pgs n i sgl) = length sgl"
  by (induction phys pgs n i sgl rule: fill_middle.induct) (subst fill_middle.simps, simp)

lemma nth_fill_middle:
  assumes "length sgl = n"
  shows "fill_middle phys pgs n i sgl ! j =
     (if i \<le> j \<and> j + 1 < n
      then \<lparr>sg_pg = pgs ! j, sg_offset = 0, sg_length = 4096, sg_dma_address = phys (pgs ! j)\<rparr>
      else sgl ! j)"
  using assms
proof (induction phys pgs n i sgl rule: fill_middle.induct)
  case (1 phys pgs n i sgl)
  show ?case
  proof (cases "i + 1 < n")
    case True
    then show ?thesis
      using "1.IH" "1.prems"
      by (auto simp: fill_middle.simps [of phys pgs n i sgl] nth_set_entry page_simps)
  next
    case False
    then show ?thesis by (auto simp: fill_middle.simps [of phys pgs n i sgl])
  qed
qed

lemma ucast_of_nat_64_32: "(ucast (of_nat k :: u64) :: u32) = of_nat k"
  by (simp add: word_unat_eq_iff unsigned_of_nat unsigned_ucast_eq)

lemma ucast_32_64_32: "(ucast (ucast (x :: u32) :: u64) :: u32) = x"
  by (simp add: word_unat_eq_iff unsigned_ucast_eq take_bit_word_eq_self)

lemma ucast_of_nat_32_64: "k < 2 ^ 32 \<Longrightarrow> (ucast (of_nat k :: u32) :: u64) = of_nat k"
  by (simp add: word_unat_eq_iff unsigned_of_nat unsigned_ucast_eq take_bit_nat_eq_self)

lemma u64_of_unat: "of_nat (unat x) = (x :: u64)"
  by (simp add: of_nat_unat)

text \<open>The length the code computes for the last page, as a number.\<close>

lemma last_len:
  fixes off :: u64 and sz :: u32
  assumes off: "unat off < 4096" and n: "n = (unat off + unat sz + 4095) div 4096" and "1 < n"
  shows "ucast sz - (PAGE_SIZE - off) - of_nat (n - 2) * PAGE_SIZE =
           of_nat (seg_len (unat off) (unat sz) (n - 1))"
proof -
  define o' z where "o' = unat off" and "z = unat sz"
  have "n * 4096 \<le> o' + z + 4095" and "o' + z + 4095 < (n + 1) * 4096"
    unfolding n o'_def z_def by simp_all
  with \<open>1 < n\<close> off have le1: "4096 - o' \<le> z" and le2: "(n - 2) * 4096 \<le> z - (4096 - o')"
    and seg: "seg_len o' z (n - 1) = z - (4096 - o') - (n - 2) * 4096"
    by (auto simp: seg_len_def o'_def min_def max_def)
  have "ucast sz = (of_nat z :: u64)"
    by (metis z_def of_nat_unat unat_ucast_32_64 ucast_id)
  moreover have "PAGE_SIZE - off = of_nat (4096 - o')"
    using off by (simp add: page_simps o'_def of_nat_diff u64_of_unat)
  ultimately have "ucast sz - (PAGE_SIZE - off) - of_nat (n - 2) * PAGE_SIZE =
      (of_nat z - of_nat (4096 - o') - of_nat ((n - 2) * 4096) :: u64)"
    by (simp add: page_simps)
  also have "\<dots> = of_nat (z - (4096 - o') - (n - 2) * 4096)"
    using le1 le2 by (simp only: of_nat_diff)
  finally show ?thesis by (simp only: seg o'_def [symmetric] z_def [symmetric])
qed

lemma first_len:
  fixes off :: u64 and sz :: u32
  assumes off: "unat off < 4096"
  shows "first_page_sz off sz = of_nat (seg_len (unat off) (unat sz) 0)"
proof -
  have "unat (PAGE_SIZE - off) = 4096 - unat off"
    using off by (simp add: page_simps unat_sub word_le_nat_alt)
  then have less: "ucast sz < PAGE_SIZE - off \<longleftrightarrow> unat sz < 4096 - unat off"
    by (simp add: word_less_nat_alt)
  have "PAGE_SIZE - off = of_nat (4096 - unat off)"
    using off by (simp add: page_simps of_nat_diff u64_of_unat)
  then have "(ucast (PAGE_SIZE - off) :: u32) = of_nat (4096 - unat off)"
    by (simp only: ucast_of_nat_64_32)
  moreover have "seg_len (unat off) (unat sz) 0 =
      (if unat sz < 4096 - unat off then unat sz else 4096 - unat off)"
    by (auto simp: seg_len_def min_def)
  moreover have "of_nat (unat sz) = sz" by (simp add: of_nat_unat)
  ultimately show ?thesis
    by (cases "unat sz < 4096 - unat off") (simp_all only: first_page_sz_def less if_True if_False)
qed

lemma fill_sglist_nth:
  fixes off :: u64 and sz :: u32
  assumes off: "unat off < 4096" and n: "n = (unat off + unat sz + 4095) div 4096" and i: "i < n"
  shows "fill_sglist phys pgs n off sz ! i = sg_spec phys pgs (unat off) (unat sz) i"
proof -
  have first: "(ucast (ucast (first_page_sz off sz) :: u64) :: u32) =
      of_nat (seg_len (unat off) (unat sz) 0)"
    by (simp only: first_len [OF off] ucast_32_64_32)
  have bound: "n * 4096 \<le> unat off + unat sz + 4095"
    unfolding n by simp
  have middle: "0 < i \<Longrightarrow> i + 1 < n \<Longrightarrow> seg_len (unat off) (unat sz) i = 4096"
    using off bound by (auto simp: seg_len_def min_def max_def)
  show ?thesis
  proof (cases "1 < n")
    case True
    define l where "l = ucast sz - (PAGE_SIZE - off) - of_nat (n - 2) * PAGE_SIZE"
    define f :: u64 where "f = ucast (first_page_sz off sz)"
    have l: "(ucast l :: u32) = of_nat (seg_len (unat off) (unat sz) (n - 1))"
      by (simp only: l_def last_len [OF off n True] ucast_of_nat_64_32)
    have f: "(ucast f :: u32) = of_nat (seg_len (unat off) (unat sz) 0)"
      by (simp only: f_def first)
    have sgl: "fill_sglist phys pgs n off sz =
        set_entry phys pgs (n - 1) l 0
          (fill_middle phys pgs n 1 (set_entry phys pgs 0 f off (replicate n zero_sg)))"
      using True by (simp only: fill_sglist_def Let_def l_def f_def if_True)
    consider "i = 0" | "i = n - 1" | "0 < i" "i + 1 < n" using i by linarith
    then show ?thesis
    proof cases
      case 1
      with True show ?thesis
        by (simp add: sgl nth_set_entry nth_fill_middle sg_spec_def f)
    next
      case 2
      with True l show ?thesis
        by (simp add: sgl nth_set_entry sg_spec_def)
    next
      case 3
      then have "i \<noteq> n - 1" by simp
      with 3 True show ?thesis
        by (simp add: sgl nth_set_entry nth_fill_middle sg_spec_def middle)
    qed
  next
    case False
    with i have i0: "i = 0" and n1: "n = 1" by auto
    have "fill_sglist phys pgs n off sz =
        set_entry phys pgs 0 (ucast (first_page_sz off sz)) off [zero_sg]"
      by (simp add: fill_sglist_def Let_def n1 fill_middle.simps [of phys pgs 1 1, simplified])
    then show ?thesis
      by (simp only: i0) (simp add: nth_set_entry sg_spec_def first)
  qed
qed

lemma length_fill_sglist [simp]: "length (fill_sglist phys pgs n off sz) = n"
  by (simp add: fill_sglist_def Let_def)

lemma fill_sglist_eq:
  assumes "unat off < 4096" and "n = (unat off + unat sz + 4095) div 4096"
  shows "fill_sglist phys pgs n off sz = map (sg_spec phys pgs (unat off) (unat sz)) [0..<n]"
  by (rule nth_equalityI) (simp_all add: fill_sglist_nth [OF assms])

section \<open>What the segments add up to\<close>

lemma seg_len_le: "seg_len off sz i \<le> 4096"
  by (auto simp: seg_len_def)

lemma seg_len_sum:
  "off < 4096 \<Longrightarrow> (\<Sum>i<k. seg_len off sz i) = (if k = 0 then 0 else min (off + sz) (4096 * k) - off)"
proof (induction k)
  case (Suc k)
  then show ?case
    by (cases k) (auto simp: seg_len_def min_def max_def)
qed simp

lemma seg_len_total:
  assumes "off < 4096" and "n = (off + sz + 4095) div 4096" and "0 < n"
  shows "(\<Sum>i<n. seg_len off sz i) = sz"
proof -
  have "off + sz \<le> 4096 * n" using assms(2) by simp
  with assms show ?thesis by (simp add: seg_len_sum)
qed

end
