(* ===== verification/PinnerPin.thy ===== *)
theory PinnerPin
  imports PinnerInv PinnerSG
begin

text \<open>
  The pin command against the ownership invariant: every outcome of \<open>pinner_do_pin\<close>, by the
  answers of the kernel. The two outcomes in which the code faults (pages that could not all
  be pinned, no memory for the scatterlist) are stated as equations as well.
\<close>

section \<open>What a kernel answers\<close>

definition new_addrs :: "pin_env \<Rightarrow> kptr list" where
  "new_addrs ev = concat (map (\<lambda>x. case x of None \<Rightarrow> [] | Some a \<Rightarrow> [a])
                            [ev_arr ev, ev_pin ev, ev_sgl ev, ev_ents ev])"

text \<open>
  Documented behaviour of the kernel calls: kmalloc returns memory that is not in use,
  get_user_pages_fast pins at most the pages asked for, and dma_map_sg fills in the DMA
  fields of the entries but neither drops entries nor moves them to other pages.
\<close>

definition env_ok :: "pin_env \<Rightarrow> pinner_cmd \<Rightarrow> kstate \<Rightarrow> bool" where
  "env_ok ev c s \<longleftrightarrow>
     distinct (new_addrs ev) \<and> (\<forall>a \<in> set (new_addrs ev). a \<notin># k_live s) \<and>
     (\<forall>pgs. ev_gup ev = Inr pgs \<longrightarrow> int (length pgs) \<le> num_pages_of (usr_buf c) (usr_buf_sz c)) \<and>
     (\<forall>l. map sg_pg (snd (ev_dma_map ev l)) = map sg_pg l)"

text \<open>Everything the command needs was available.\<close>

definition env_complete :: "pin_env \<Rightarrow> pinner_cmd \<Rightarrow> bool" where
  "env_complete ev c \<longleftrightarrow>
     (\<exists>pgs. ev_gup ev = Inr pgs \<and> int (length pgs) = num_pages_of (usr_buf c) (usr_buf_sz c)) \<and>
     ev_sgl ev \<noteq> None"

definition good_size :: "pinner_cmd \<Rightarrow> bool" where
  "good_size c \<longleftrightarrow> 0 < num_pages_of (usr_buf c) (usr_buf_sz c) \<and>
                   num_pages_of (usr_buf c) (usr_buf_sz c) \<le> PINNER_MAX_PAGES"

section \<open>Putting pages back\<close>

lemma put_page_list_run:
  "length pgs = n \<Longrightarrow> mset pgs \<subseteq># k_refs s \<Longrightarrow>
     put_page_list pgs n s = Ok () (s\<lparr>k_refs := k_refs s - mset pgs\<rparr>)"
proof (induction pgs n s rule: put_page_list.induct)
  case (3 pg pgs n s)
  then show ?case by (auto simp: put_page_def insert_subset_eq_iff)
qed auto

lemma put_page_list_short:
  "length pgs < n \<Longrightarrow> mset pgs \<subseteq># k_refs s \<Longrightarrow> put_page_list pgs n s = Fault UninitRead"
proof (induction pgs n s rule: put_page_list.induct)
  case (3 pg pgs n s)
  then show ?case by (auto simp: put_page_def insert_subset_eq_iff)
qed auto

section \<open>Outcomes before the pinning is linked\<close>

lemma do_pin_bad_size:
  "\<not> good_size c \<Longrightarrow> pinner_do_pin ev c ia s = Ok (Inl EINVAL) s"
  by (auto simp: pinner_do_pin_def Let_def good_size_def do_pin_error_def)

lemma do_pin_no_array:
  "good_size c \<Longrightarrow> ev_arr ev = None \<Longrightarrow> pinner_do_pin ev c ia s = Ok (Inl ENOMEM) s"
  by (auto simp: pinner_do_pin_def Let_def good_size_def do_pin_error_def)

lemma do_pin_no_pages:
  assumes "good_size c" and "ev_arr ev = Some a" and "ev_gup ev = Inl e"
  shows "pinner_do_pin ev c ia s = Fault UninitRead"
proof -
  from assms(1) obtain n where n: "nat (num_pages_of (usr_buf c) (usr_buf_sz c)) = Suc n"
    by (metis good_size_def gr0_implies_Suc zero_less_nat_eq)
  show ?thesis
    using assms by (auto simp: pinner_do_pin_def Let_def good_size_def do_pin_error_def n)
qed

lemma do_pin_short_pages:
  assumes "good_size c" and "ev_arr ev = Some a" and "ev_gup ev = Inr pgs"
    and "int (length pgs) < num_pages_of (usr_buf c) (usr_buf_sz c)"
  shows "pinner_do_pin ev c ia s = Fault UninitRead"
proof -
  have "length pgs < nat (num_pages_of (usr_buf c) (usr_buf_sz c))" using assms(4) by linarith
  then have "put_page_list pgs (nat (num_pages_of (usr_buf c) (usr_buf_sz c)))
      (get_pages pgs (kalloc (Some a) s)) = Fault UninitRead"
    by (rule put_page_list_short) (simp add: get_pages_def)
  then show ?thesis
    using assms by (auto simp: pinner_do_pin_def Let_def good_size_def do_pin_error_def)
qed

lemma do_pin_no_pinning:
  assumes "good_size c" and "ev_arr ev = Some a" and "ev_gup ev = Inr pgs"
    and "int (length pgs) = num_pages_of (usr_buf c) (usr_buf_sz c)" and "ev_pin ev = None"
  shows "pinner_do_pin ev c ia s = Ok (Inl ENOMEM) s"
proof -
  have len: "length pgs = nat (num_pages_of (usr_buf c) (usr_buf_sz c))" using assms(4) by linarith
  have "put_page_list pgs (nat (num_pages_of (usr_buf c) (usr_buf_sz c)))
      (get_pages pgs (kalloc (Some a) s)) = Ok () (kalloc (Some a) s)"
    by (subst put_page_list_run [OF len]) (simp_all add: get_pages_def kalloc_def)
  then show ?thesis
    using assms
    by (auto simp: pinner_do_pin_def Let_def good_size_def do_pin_error_def kfree_def kalloc_def)
qed

lemma do_pin_no_sglist:
  assumes "good_size c" and "ev_arr ev = Some a" and "ev_gup ev = Inr pgs"
    and "int (length pgs) = num_pages_of (usr_buf c) (usr_buf_sz c)" and "ev_pin ev = Some b"
    and "ev_sgl ev = None" and "b \<notin> p_addr ` set (concat (map pinning_list (k_users s)))"
  shows "pinner_do_pin ev c ia s = Fault NullDeref"
  using assms
  by (auto simp: pinner_do_pin_def Let_def good_size_def do_pin_error_def pinner_alloc_and_fill_sglist_def
      pinner_free_pinning_def pinner_put_sglist_pages_def kfree_def list_del_pinning_def
      dma_event_add_def kalloc_def get_pages_def)

section \<open>Linking a pinning\<close>

definition link_pinning :: "kptr \<Rightarrow> pinning \<Rightarrow> proc_info list \<Rightarrow> proc_info list" where
  "link_pinning ia p us =
     map (\<lambda>i. if pi_addr i = ia then i\<lparr>pinning_list := p # pinning_list i\<rparr> else i) us"

lemma addr_link [simp]: "map pi_addr (link_pinning ia p us) = map pi_addr us"
  by (simp add: link_pinning_def)

lemma link_absent: "ia \<notin> pi_addr ` set us \<Longrightarrow> link_pinning ia p us = us"
  by (induction us) (auto simp: link_pinning_def)

lemma user_pins_link:
  assumes "uniq (mset (map pi_addr us))" and "ia \<in> pi_addr ` set us"
  shows "user_pins (link_pinning ia p us) = add_mset p (user_pins us)"
  using assms
proof (induction us)
  case (Cons i us)
  show ?case
  proof (cases "pi_addr i = ia")
    case True
    with Cons.prems(1) have "ia \<notin> pi_addr ` set us" by auto
    then have "link_pinning ia p us = us" by (rule link_absent)
    with True show ?thesis by (simp add: link_pinning_def)
  next
    case False
    with Cons.prems have "user_pins (link_pinning ia p us) = add_mset p (user_pins us)"
      by (intro Cons.IH) auto
    with False show ?thesis by (simp add: link_pinning_def)
  qed
qed simp

lemma set_sglist_absent:
  assumes "a \<notin> p_addr ` set ps"
  shows "map (\<lambda>q. if p_addr q = a then f q else q) ps = ps"
  using assms by (induction ps) auto

lemma set_sglist_link:
  assumes "p_addr p \<notin> p_addr ` set (concat (map pinning_list us))" and "sglist p = Some (sa, l)"
  shows "map (\<lambda>i. i\<lparr>pinning_list := map (\<lambda>q. if p_addr q = p_addr p
            then q\<lparr>sglist := map_option (\<lambda>(sa, l). (sa, l')) (sglist q)\<rparr> else q)
            (pinning_list i)\<rparr>) (link_pinning ia p us) =
         link_pinning ia (p\<lparr>sglist := Some (sa, l')\<rparr>) us"
proof -
  have fix_others: "map (\<lambda>q. if p_addr q = p_addr p then f q else q) (pinning_list i) = pinning_list i"
    if "i \<in> set us" for i f
    using that assms(1) by (intro set_sglist_absent) auto
  show ?thesis
    unfolding link_pinning_def map_map
    by (rule map_cong [OF refl]) (simp add: fix_others assms(2))
qed

lemma del_link:
  assumes "p_addr p \<notin> p_addr ` set (concat (map pinning_list us))"
  shows "del_pinning (p_addr p) (link_pinning ia p us) = us"
proof -
  have keep: "filter (\<lambda>q. p_addr q \<noteq> p_addr p) (pinning_list i) = pinning_list i"
    if "i \<in> set us" for i
    using that assms by (auto simp: filter_id_conv image_iff) metis
  have "del_pinning (p_addr p) (link_pinning ia p us) = map (\<lambda>i. i) us"
    unfolding link_pinning_def del_pinning_def map_map
    by (rule map_cong [OF refl]) (simp add: keep)
  then show ?thesis by simp
qed

lemma not_live_not_linked:
  assumes "owns B s" and "b \<notin># k_live s"
  shows "b \<notin> p_addr ` set (concat (map pinning_list (k_users s)))"
proof
  assume "b \<in> p_addr ` set (concat (map pinning_list (k_users s)))"
  then obtain q where "q \<in># user_pins (k_users s)" and "b = p_addr q"
    by (auto simp: user_pins_def)
  then have "b \<in># user_addrs (k_users s)"
    by (simp add: user_addrs_def p_addr_in_addrs_of)
  with assms show False by (auto simp: owns_def dest: mset_subset_eqD)
qed

lemma not_live_not_owned: "owns B s \<Longrightarrow> b \<notin># k_live s \<Longrightarrow> b \<notin># user_addrs (k_users s)"
  by (auto simp: owns_def dest: mset_subset_eqD)

lemma owns_umem [simp]: "owns B (s\<lparr>k_umem := m\<rparr>) = owns B s"
  by (simp add: owns_def)

text \<open>The list can be written: there is memory for the entries and the user's addresses are accessible.\<close>

definition list_accepted :: "pin_env \<Rightarrow> pinner_cmd \<Rightarrow> user_mem \<Rightarrow> bool" where
  "list_accepted ev c m \<longleftrightarrow> ev_ents ev \<noteq> None \<and> physlist_ptr c \<in> dom (um_counts m) \<and>
     physlist_ptr c + entries_offset \<in> dom (um_entries m)"

definition pin_accepted :: "pin_env \<Rightarrow> pinner_cmd \<Rightarrow> scatterlist list \<Rightarrow> user_mem \<Rightarrow> bool" where
  "pin_accepted ev c l m \<longleftrightarrow> (\<exists>k. fst (ev_dma_map ev l) = Inr k) \<and> list_accepted ev c m \<and>
     handle_ptr c \<in> dom (um_handles m)"

lemma send_physlist_run:
  assumes "sglist p = Some (sa, l)" and "length l = num_sg_ents p"
  shows "\<exists>r m. pinner_send_physlist ev c p s = Ok r (s\<lparr>k_umem := m\<rparr>) \<and>
     (r = Inr () \<longleftrightarrow> list_accepted ev c (k_umem s)) \<and>
     (r = Inr () \<longrightarrow>
        um_counts m (physlist_ptr c) = Some (of_nat (num_sg_ents p)) \<and>
        (\<exists>rest. um_entries m (physlist_ptr c + entries_offset) = Some (map entry_of l @ rest)) \<and>
        um_handles m = um_handles (k_umem s))"
proof -
  have "s\<lparr>k_live := k_live s\<rparr> = s" "s\<lparr>k_umem := k_umem s\<rparr> = s" by simp_all
  moreover have "s\<lparr>k_live := k_live s, k_umem := m\<rparr> = s\<lparr>k_umem := m\<rparr>" for m by simp
  ultimately show ?thesis
    using assms
    by (auto simp: pinner_send_physlist_def Let_def kalloc_def kfree_def copy_count_to_user_def
        copy_entries_to_user_def list_accepted_def split: option.splits intro: exI [of _ "k_umem s"])
qed

section \<open>Publishing a pinning\<close>

text \<open>
  The state \<open>s4\<close> in which \<open>do_pin_publish\<close> starts: the array, the pinning and the scatterlist
  are allocated and the pages are pinned, but the pinning is on no list yet.
\<close>

definition built :: "kstate \<Rightarrow> kstate \<Rightarrow> kptr \<Rightarrow> pinning \<Rightarrow> kptr \<Rightarrow> scatterlist list \<Rightarrow> bool" where
  "built s s4 a pin sa l \<longleftrightarrow>
     k_users s4 = k_users s \<and> k_private s4 = k_private s \<and>
     k_refs s4 = k_refs s + mset (map sg_pg l) \<and>
     k_live s4 = k_live s + {#a, p_addr pin, sa#} \<and>
     sglist pin = Some (sa, l) \<and> length l = num_sg_ents pin \<and>
     0 < num_sg_ents pin \<and> num_sg_ents pin \<le> 1024 \<and>
     p_addr pin \<notin># k_live s \<and> sa \<notin># k_live s \<and> p_addr pin \<noteq> sa"

definition published :: "pin_env \<Rightarrow> pinning \<Rightarrow> kptr \<Rightarrow> scatterlist list \<Rightarrow> pinning" where
  "published ev pin sa l = pin\<lparr>p_magic := ev_magic ev, sglist := Some (sa, snd (ev_dma_map ev l))\<rparr>"

definition linked_state :: "pin_env \<Rightarrow> kptr \<Rightarrow> pinning \<Rightarrow> kptr \<Rightarrow> scatterlist list \<Rightarrow> kstate \<Rightarrow> kstate" where
  "linked_state ev ia pin sa l s4 =
     s4\<lparr>k_users := link_pinning ia (published ev pin sa l) (k_users s4),
        k_dma := k_dma s4 @ [DmaMap sa (num_sg_ents pin)]\<rparr>"

lemma linked_state_owns:
  assumes own: "owns B s" and ia: "ia \<in> pi_addr ` set (k_users s)" and b: "built s s4 a pin sa l"
    and dma: "\<forall>l. map sg_pg (snd (ev_dma_map ev l)) = map sg_pg l"
  shows "owns B (linked_state ev ia pin sa l s4)"
    and "user_pins (k_users (linked_state ev ia pin sa l s4)) =
           add_mset (published ev pin sa l) (user_pins (k_users s))"
    and "wf_pinning (published ev pin sa l)"
proof -
  let ?p = "published ev pin sa l" and ?us = "k_users s"
  have uq: "uniq (mset (map pi_addr ?us))"
    using own by (auto simp: owns_def user_addrs_def dest: uniq_plusD)
  have pins: "user_pins (link_pinning ia ?p ?us) = add_mset ?p (user_pins ?us)"
    by (rule user_pins_link [OF uq ia])
  then show "user_pins (k_users (linked_state ev ia pin sa l s4)) = add_mset ?p (user_pins ?us)"
    using b by (simp add: linked_state_def built_def)
  have len: "length (snd (ev_dma_map ev l)) = length l"
    using dma by (metis length_map)
  show wf: "wf_pinning ?p"
    using b len by (simp add: wf_pinning_def published_def built_def)
  have pages: "pin_pages ?p = mset (map sg_pg l)"
    using b len dma by (simp add: pin_pages_def published_def built_def del: mset_map)
  have addrs: "pin_addrs ?p = {#p_addr pin, sa#}"
    by (simp add: pin_addrs_def published_def)
  have new: "user_addrs (link_pinning ia ?p ?us) = add_mset (p_addr pin) (add_mset sa (user_addrs ?us))"
    by (simp add: user_addrs_def pins addrs del: mset_map)
  have "p_addr pin \<notin># user_addrs ?us" and "sa \<notin># user_addrs ?us"
    using own b by (auto simp: built_def dest: not_live_not_owned)
  then have "uniq (user_addrs (link_pinning ia ?p ?us))"
    using own b by (simp add: new owns_def built_def)
  moreover have "user_addrs (link_pinning ia ?p ?us) \<subseteq># k_live s4"
    using own b subset_mset.order_trans [of "user_addrs ?us" "k_live s" "add_mset a (k_live s)"]
    by (simp add: new owns_def built_def)
  moreover have "k_refs s4 = B + pages_of (user_pins (link_pinning ia ?p ?us))"
    using own b by (simp add: pins pages owns_def built_def del: mset_map)
  ultimately show "owns B (linked_state ev ia pin sa l s4)"
    using own wf b by (simp add: owns_def linked_state_def pins built_def)
qed

text \<open>Freeing the pinning that was just linked restores the lists and the references.\<close>

lemma unlink_published:
  assumes own: "owns B s" and ia: "ia \<in> pi_addr ` set (k_users s)" and b: "built s s4 a pin sa l"
    and dma: "\<forall>l. map sg_pg (snd (ev_dma_map ev l)) = map sg_pg l"
  shows "\<exists>t. pinner_free_pinning (published ev pin sa l) ((linked_state ev ia pin sa l s4)\<lparr>k_umem := m\<rparr>) = Ok () t \<and>
     owns B t \<and> k_users t = k_users s \<and> k_refs t = k_refs s \<and> k_live t = add_mset a (k_live s) \<and>
     k_private t = k_private s"
proof -
  let ?p = "published ev pin sa l"
  let ?s = "(linked_state ev ia pin sa l s4)\<lparr>k_umem := m\<rparr>"
  note linked = linked_state_owns [OF assms]
  have own': "owns B ?s" using linked(1) by simp
  have mem: "?p \<in># user_pins (k_users ?s)" using linked(2) by simp
  note free = owns_free [OF own' mem]
  have fresh: "p_addr ?p \<notin> p_addr ` set (concat (map pinning_list (k_users s)))"
    using own b by (intro not_live_not_linked) (auto simp: published_def built_def)
  have users: "k_users (without_pinning ?p ?s) = k_users s"
    using del_link [OF fresh] b by (simp add: without_pinning_def linked_state_def built_def)
  have "k_refs (without_pinning ?p ?s) = B + pages_of (user_pins (k_users s))"
    using free(2) by (simp add: owns_def users)
  then have refs: "k_refs (without_pinning ?p ?s) = k_refs s"
    using own by (simp add: owns_def)
  have live: "k_live (without_pinning ?p ?s) = add_mset a (k_live s)"
    using b by (simp add: without_pinning_def linked_state_def built_def pin_addrs_def published_def
        add_mset_commute)
  have priv: "k_private (without_pinning ?p ?s) = k_private s"
    using b by (simp add: without_pinning_def linked_state_def built_def)
  from free(1,2) users refs live priv show ?thesis by blast
qed

text \<open>
  What a pin command leaves when it returns an error: at most the page array \<open>a\<close> is still
  allocated. And what it leaves when it succeeds: the pinning \<open>p\<close> is linked, its pages are
  held, the user has the count, the entries and the handle.
\<close>

definition pin_failed :: "kstate \<Rightarrow> kstate \<Rightarrow> kptr multiset \<Rightarrow> bool" where
  "pin_failed s t leak \<longleftrightarrow>
     k_users t = k_users s \<and> k_refs t = k_refs s \<and> k_live t = k_live s + leak \<and>
     k_private t = k_private s"

definition pin_done ::
    "pin_env \<Rightarrow> pinner_cmd \<Rightarrow> kptr \<Rightarrow> u32 \<Rightarrow> pinning \<Rightarrow> kptr \<Rightarrow> kptr \<Rightarrow> scatterlist list \<Rightarrow>
     kstate \<Rightarrow> kstate \<Rightarrow> bool" where
  "pin_done ev c ia imagic pin a sa l s t \<longleftrightarrow>
     k_users t = link_pinning ia (published ev pin sa l) (k_users s) \<and>
     k_refs t = k_refs s + mset (map sg_pg l) \<and>
     k_live t = k_live s + {#a, p_addr pin, sa#} \<and>
     k_private t = k_private s \<and>
     um_counts (k_umem t) (physlist_ptr c) = Some (of_nat (num_sg_ents pin)) \<and>
     (\<exists>rest. um_entries (k_umem t) (physlist_ptr c + entries_offset) =
        Some (map entry_of (snd (ev_dma_map ev l)) @ rest)) \<and>
     um_handles (k_umem t) (handle_ptr c) =
        Some \<lparr>user_magic = imagic, pin_magic = ev_magic ev\<rparr>"

text \<open>What list_add and the DMA mapping make of such a state.\<close>

lemma linked_state_steps:
  assumes own: "owns B s" and b: "built s s4 a pin sa l" and d: "ev_dma_map ev l = (ret, l')"
  shows "pin\<lparr>p_magic := ev_magic ev, sglist := Some (sa, l')\<rparr> = published ev pin sa l"
    and "set_pinning_sglist (p_addr pin) l' (dma_event_add (DmaMap sa (num_sg_ents pin))
        (list_add_pinning (pin\<lparr>p_magic := ev_magic ev\<rparr>) ia s4)) = linked_state ev ia pin sa l s4"
proof -
  show "pin\<lparr>p_magic := ev_magic ev, sglist := Some (sa, l')\<rparr> = published ev pin sa l"
    by (simp add: published_def d)
  have "sglist pin = Some (sa, l)" and "p_addr pin \<notin> p_addr ` set (concat (map pinning_list (k_users s4)))"
    using b not_live_not_linked [OF own, of "p_addr pin"] by (simp_all add: built_def)
  then show "set_pinning_sglist (p_addr pin) l' (dma_event_add (DmaMap sa (num_sg_ents pin))
        (list_add_pinning (pin\<lparr>p_magic := ev_magic ev\<rparr>) ia s4)) = linked_state ev ia pin sa l s4"
    using d set_sglist_link [of "pin\<lparr>p_magic := ev_magic ev\<rparr>" "k_users s4" sa l l' ia]
    by (simp add: set_pinning_sglist_def dma_event_add_def list_add_pinning_def upd_info_def
        linked_state_def published_def link_pinning_def)
qed

text \<open>The code after the pages are in the scatterlist, in terms of the state with the linked pinning.\<close>

lemma do_pin_publish_eq:
  assumes own: "owns B s" and b: "built s s4 a pin sa l"
    and send: "pinner_send_physlist ev c (published ev pin sa l) (linked_state ev ia pin sa l s4) =
      Ok r ((linked_state ev ia pin sa l s4)\<lparr>k_umem := m\<rparr>)"
  shows "do_pin_publish ev c ia imagic n pin s4 =
    (let p = published ev pin sa l; s' = linked_state ev ia pin sa l s4 in
     case fst (ev_dma_map ev l) of
       Inl e \<Rightarrow> do_pin_error (Some p) None n e s'
     | Inr k \<Rightarrow>
         (case r of
            Inl e \<Rightarrow> do_pin_error (Some p) None n e (s'\<lparr>k_umem := m\<rparr>)
          | Inr _ \<Rightarrow>
              (case copy_handle_to_user (handle_ptr c) \<lparr>user_magic = imagic, pin_magic = ev_magic ev\<rparr> m of
                 None \<Rightarrow> do_pin_error (Some p) None n EAGAIN (s'\<lparr>k_umem := m\<rparr>)
               | Some m' \<Rightarrow> Ok (Inr ()) (s'\<lparr>k_umem := m'\<rparr>))))"
proof -
  obtain ret l' where d: "ev_dma_map ev l = (ret, l')" by force
  have sg: "sglist pin = Some (sa, l)" using b by (simp add: built_def)
  note steps = linked_state_steps [OF own b d]
  show ?thesis
    by (simp add: do_pin_publish_def Let_def sg d steps send split: sum.split option.split)
qed

lemma do_pin_publish_run:
  assumes own: "owns B s" and ia: "ia \<in> pi_addr ` set (k_users s)" and b: "built s s4 a pin sa l"
    and dma: "\<forall>l. map sg_pg (snd (ev_dma_map ev l)) = map sg_pg l"
  shows "\<exists>r t. do_pin_publish ev c ia imagic n pin s4 = Ok r t \<and> owns B t \<and>
     (r = Inr () \<longleftrightarrow> pin_accepted ev c l (k_umem s4)) \<and>
     (case r of Inl e \<Rightarrow> pin_failed s t {#a#} | Inr u \<Rightarrow> pin_done ev c ia imagic pin a sa l s t)"
proof -
  let ?p = "published ev pin sa l" and ?s = "linked_state ev ia pin sa l s4"
  note linked = linked_state_owns [OF assms]
  have err: "\<exists>t. do_pin_error (Some ?p) None n e (?s\<lparr>k_umem := m\<rparr>) = Ok (Inl e) t \<and> owns B t \<and>
      pin_failed s t {#a#}" for e m
    using unlink_published [OF assms, of m] by (auto simp: do_pin_error_def pin_failed_def)
  have umem: "?s\<lparr>k_umem := k_umem ?s\<rparr> = ?s" by simp
  have dmalen: "length (snd (ev_dma_map ev l)) = num_sg_ents ?p"
    using b dma by (metis built_def length_map published_def pinning.select_convs(2)
        pinning.surjective pinning.update_convs(3,4))
  obtain r m where send: "pinner_send_physlist ev c ?p ?s = Ok r (?s\<lparr>k_umem := m\<rparr>)"
    and acc: "r = Inr () \<longleftrightarrow> list_accepted ev c (k_umem s4)"
    and user: "r = Inr () \<longrightarrow> um_counts m (physlist_ptr c) = Some (of_nat (num_sg_ents ?p)) \<and>
        (\<exists>rest. um_entries m (physlist_ptr c + entries_offset) =
           Some (map entry_of (snd (ev_dma_map ev l)) @ rest)) \<and>
        um_handles m = um_handles (k_umem ?s)"
    using send_physlist_run [of ?p sa "snd (ev_dma_map ev l)" ev c ?s] dmalen
    by (auto simp: published_def linked_state_def)
  note run = do_pin_publish_eq [OF own b send, of imagic n, unfolded Let_def]
  consider e where "fst (ev_dma_map ev l) = Inl e" | k e where "fst (ev_dma_map ev l) = Inr k" "r = Inl e"
    | k where "fst (ev_dma_map ev l) = Inr k" "r = Inr ()" by (cases "fst (ev_dma_map ev l)"; cases r) auto
  then show ?thesis
  proof cases
    case (1 e)
    with err [of e "k_umem ?s"] show ?thesis by (auto simp: run pin_accepted_def)
  next
    case (2 k e)
    with err [of e m] acc show ?thesis by (auto simp: run pin_accepted_def)
  next
    case (3 k)
    show ?thesis
    proof (cases "handle_ptr c \<in> dom (um_handles m)")
      case False
      with 3 err [of EAGAIN m] user show ?thesis
        by (auto simp: run copy_handle_to_user_def pin_accepted_def linked_state_def)
    next
      case True
      define m' where "m' = m\<lparr>um_handles := (um_handles m)(handle_ptr c \<mapsto>
          \<lparr>user_magic = imagic, pin_magic = ev_magic ev\<rparr>)\<rparr>"
      have "do_pin_publish ev c ia imagic n pin s4 = Ok (Inr ()) (?s\<lparr>k_umem := m'\<rparr>)"
        using True by (simp add: run 3 copy_handle_to_user_def m'_def)
      moreover have "pin_done ev c ia imagic pin a sa l s (?s\<lparr>k_umem := m'\<rparr>)"
        using user 3 b by (simp add: pin_done_def m'_def linked_state_def built_def published_def)
      moreover have "pin_accepted ev c l (k_umem s4)"
        using True acc user 3 by (auto simp: pin_accepted_def linked_state_def)
      ultimately show ?thesis using linked(1) by simp
    qed
  qed
qed

section \<open>The pin command as a whole\<close>

definition new_pinning :: "kptr \<Rightarrow> nat \<Rightarrow> kptr \<Rightarrow> scatterlist list \<Rightarrow> pinning" where
  "new_pinning b n sa l = \<lparr>p_addr = b, num_sg_ents = n, sglist = Some (sa, l), p_magic = 0\<rparr>"

definition pin_sglist :: "pin_env \<Rightarrow> pinner_cmd \<Rightarrow> page list \<Rightarrow> scatterlist list" where
  "pin_sglist ev c pgs =
     fill_sglist (ev_page_to_phys ev) pgs (nat (num_pages_of (usr_buf c) (usr_buf_sz c)))
       (usr_buf c - page_start (usr_buf c)) (usr_buf_sz c)"

lemma pin_sglist_eq:
  "pin_sglist ev c pgs =
     map (sg_spec (ev_page_to_phys ev) pgs (unat (usr_buf c) mod 4096) (unat (usr_buf_sz c)))
       [0..<nat (num_pages_of (usr_buf c) (usr_buf_sz c))]"
proof -
  have "unat (usr_buf c - page_start (usr_buf c)) < 4096" by (rule page_offset_less)
  then show ?thesis
    by (simp add: pin_sglist_def fill_sglist_eq num_pages_of_eq unat_first_offset)
qed

lemma pin_sglist_pages:
  assumes "int (length pgs) = num_pages_of (usr_buf c) (usr_buf_sz c)"
  shows "map sg_pg (pin_sglist ev c pgs) = pgs"
proof -
  have "nat (num_pages_of (usr_buf c) (usr_buf_sz c)) = length pgs"
    using assms by linarith
  then show ?thesis
    by (simp add: pin_sglist_eq comp_def sg_spec_def map_nth)
qed

lemma length_pin_sglist [simp]:
  "length (pin_sglist ev c pgs) = nat (num_pages_of (usr_buf c) (usr_buf_sz c))"
  by (simp add: pin_sglist_def)

text \<open>The command has built its pinning when all it asks for is there.\<close>

lemma pin_built:
  assumes good: "good_size c" and len: "int (length pgs) = num_pages_of (usr_buf c) (usr_buf_sz c)"
    and env: "env_ok ev c s" "ev_arr ev = Some a" "ev_pin ev = Some b" "ev_sgl ev = Some sa"
  shows "built s (kalloc (Some sa) (kalloc (Some b) (get_pages pgs (kalloc (Some a) s)))) a
    (new_pinning b (length pgs) sa (pin_sglist ev c pgs)) sa (pin_sglist ev c pgs)"
proof -
  have n: "nat (num_pages_of (usr_buf c) (usr_buf_sz c)) = length pgs" using len by linarith
  from env have "a \<noteq> b" "a \<noteq> sa" "b \<noteq> sa" "b \<notin># k_live s" "sa \<notin># k_live s"
    by (auto simp: env_ok_def new_addrs_def split: option.splits)
  moreover have "pgs \<noteq> []" "length pgs \<le> 1024"
    using good n by (auto simp: good_size_def PINNER_MAX_PAGES_def)
  ultimately show ?thesis
    using n pin_sglist_pages [OF len]
    by (simp add: built_def new_pinning_def kalloc_def get_pages_def del: mset_map)
qed

lemma do_pin_publishes:
  assumes good: "good_size c" and arr: "ev_arr ev = Some a" and gup: "ev_gup ev = Inr pgs"
    and len: "int (length pgs) = num_pages_of (usr_buf c) (usr_buf_sz c)"
    and b: "ev_pin ev = Some b" and sa: "ev_sgl ev = Some sa"
    and own: "owns B s" and info: "find_info ia s = Some info" and env: "env_ok ev c s"
  shows "\<exists>r t. pinner_do_pin ev c ia s = Ok r t \<and> owns B t \<and>
     (r = Inr () \<longleftrightarrow> pin_accepted ev c (pin_sglist ev c pgs) (k_umem s)) \<and>
     (case r of Inl e \<Rightarrow> pin_failed s t {#a#}
      | Inr u \<Rightarrow> pin_done ev c ia (pi_magic info)
          (new_pinning b (length pgs) sa (pin_sglist ev c pgs)) a sa (pin_sglist ev c pgs) s t)"
proof -
  let ?n = "num_pages_of (usr_buf c) (usr_buf_sz c)"
  let ?l = "pin_sglist ev c pgs"
  let ?s4 = "kalloc (Some sa) (kalloc (Some b) (get_pages pgs (kalloc (Some a) s)))"
  let ?pin = "new_pinning b (length pgs) sa ?l"
  have n: "nat ?n = length pgs" using len by linarith
  have built: "built s ?s4 a ?pin sa ?l" by (rule pin_built [OF good len env arr b sa])
  have "pinner_do_pin ev c ia s = do_pin_publish ev c ia (pi_magic info) ?n ?pin ?s4"
    using good info
    by (simp add: pinner_do_pin_def Let_def good_size_def arr gup len b sa
        pinner_alloc_and_fill_sglist_def new_pinning_def pin_sglist_def n find_info_def kalloc_def
        get_pages_def flip: len)
  moreover have "ia \<in> pi_addr ` set (k_users s)"
    using find_info_SomeD [OF info] by auto
  moreover have "\<forall>l. map sg_pg (snd (ev_dma_map ev l)) = map sg_pg l"
    using env by (simp add: env_ok_def)
  ultimately show ?thesis
    using do_pin_publish_run [OF own _ built] by (simp add: kalloc_def get_pages_def)
qed

text \<open>
  Every pin command, whatever the kernel answers: it faults, or it keeps the invariant and
  either fails with the lists and the references as they were or links one pinning.
\<close>

definition pin_post ::
    "page multiset \<Rightarrow> pin_env \<Rightarrow> pinner_cmd \<Rightarrow> kptr \<Rightarrow> proc_info \<Rightarrow> kstate \<Rightarrow> rc \<Rightarrow> kstate \<Rightarrow> bool" where
  "pin_post B ev c ia info s r t \<longleftrightarrow>
     owns B t \<and>
     (case r of
        Inl e \<Rightarrow> \<exists>leak. pin_failed s t leak \<and> size leak \<le> 1 \<and> set_mset leak \<subseteq> set (new_addrs ev)
      | Inr u \<Rightarrow> \<exists>a b sa pgs. ev_arr ev = Some a \<and> ev_gup ev = Inr pgs \<and> ev_pin ev = Some b \<and>
          ev_sgl ev = Some sa \<and> int (length pgs) = num_pages_of (usr_buf c) (usr_buf_sz c) \<and>
          pin_done ev c ia (pi_magic info)
            (new_pinning b (length pgs) sa (pin_sglist ev c pgs)) a sa (pin_sglist ev c pgs) s t)"

lemma pin_post_same: "owns B s \<Longrightarrow> pin_post B ev c ia info s (Inl e) s"
  by (auto simp: pin_post_def pin_failed_def intro: exI [of _ "{#}"])

lemma do_pin_run:
  assumes own: "owns B s" and info: "find_info ia s = Some info" and env: "env_ok ev c s"
  shows "(\<exists>r t. pinner_do_pin ev c ia s = Ok r t \<and> pin_post B ev c ia info s r t) \<or>
         (faulty (pinner_do_pin ev c ia s) \<and> \<not> env_complete ev c)"
proof (cases "good_size c \<and> ev_arr ev \<noteq> None")
  case False
  then show ?thesis
    using pin_post_same [OF own] do_pin_bad_size do_pin_no_array by blast
next
  case True
  then obtain a where good: "good_size c" and arr: "ev_arr ev = Some a" by auto
  show ?thesis
  proof (cases "ev_gup ev")
    case (Inl e)
    then show ?thesis by (simp add: do_pin_no_pages [OF good arr] env_complete_def)
  next
    case gup: (Inr pgs)
    consider "int (length pgs) < num_pages_of (usr_buf c) (usr_buf_sz c)"
      | "int (length pgs) = num_pages_of (usr_buf c) (usr_buf_sz c)"
      using env gup unfolding env_ok_def by (meson order_le_less)
    then show ?thesis
    proof cases
      case 1
      then show ?thesis
        using do_pin_short_pages [OF good arr gup 1] gup by (simp add: env_complete_def)
    next
      case len: 2
      show ?thesis
      proof (cases "ev_pin ev")
        case None
        then show ?thesis
          using do_pin_no_pinning [OF good arr gup len] pin_post_same [OF own] by blast
      next
        case b: (Some b)
        show ?thesis
        proof (cases "ev_sgl ev")
          case None
          have "b \<notin># k_live s" using env b by (simp add: env_ok_def new_addrs_def)
          from do_pin_no_sglist [OF good arr gup len b None not_live_not_linked [OF own this]]
          show ?thesis by (simp add: env_complete_def None)
        next
          case sa: (Some sa)
          from do_pin_publishes [OF good arr gup len b sa own info env] obtain r t where
            "pinner_do_pin ev c ia s = Ok r t" "owns B t" and
            post: "case r of Inl e \<Rightarrow> pin_failed s t {#a#}
               | Inr u \<Rightarrow> pin_done ev c ia (pi_magic info)
                   (new_pinning b (length pgs) sa (pin_sglist ev c pgs)) a sa (pin_sglist ev c pgs) s t"
            by blast
          moreover from this have "pin_post B ev c ia info s r t"
            using arr gup len b sa by (cases r) (auto simp: pin_post_def new_addrs_def intro: exI [of _ "{#a#}"])
          ultimately show ?thesis by blast
        qed
      qed
    qed
  qed
qed

text \<open>The command once the pages are there: no pinning, no scatterlist, or both.\<close>

lemma pin_outcomes_pages:
  assumes own: "owns B s" and info: "find_info ia s = Some info" and env: "env_ok ev c s"
    and good: "good_size c" and arr: "ev_arr ev = Some a" and gup: "ev_gup ev = Inr pgs"
    and len: "int (length pgs) = num_pages_of (usr_buf c) (usr_buf_sz c)"
  shows "case (ev_pin ev, ev_sgl ev) of
      (None, _) \<Rightarrow> pinner_do_pin ev c ia s = Ok (Inl ENOMEM) s
    | (Some b, None) \<Rightarrow> pinner_do_pin ev c ia s = Fault NullDeref
    | (Some b, Some sa) \<Rightarrow> (\<exists>r t. pinner_do_pin ev c ia s = Ok r t \<and>
        (r = Inr () \<longleftrightarrow> pin_accepted ev c (pin_sglist ev c pgs) (k_umem s)) \<and>
        (case r of
           Inl e \<Rightarrow> k_users t = k_users s \<and> k_refs t = k_refs s \<and> k_live t = add_mset a (k_live s)
         | Inr u \<Rightarrow> k_refs t = k_refs s + mset pgs \<and> k_live t = k_live s + {#a, b, sa#}))"
proof (cases "ev_pin ev")
  case None
  then show ?thesis using do_pin_no_pinning [OF good arr gup len None] by simp
next
  case pin: (Some b)
  then have fresh: "b \<notin># k_live s" using env by (simp add: env_ok_def new_addrs_def)
  show ?thesis
  proof (cases "ev_sgl ev")
    case None
    then show ?thesis
      using pin do_pin_no_sglist [OF good arr gup len pin None not_live_not_linked [OF own fresh]] by simp
  next
    case (Some sa)
    then obtain r t where "pinner_do_pin ev c ia s = Ok r t"
      "r = Inr () \<longleftrightarrow> pin_accepted ev c (pin_sglist ev c pgs) (k_umem s)"
      "case r of Inl e \<Rightarrow> pin_failed s t {#a#}
       | Inr u \<Rightarrow> pin_done ev c ia (pi_magic info)
          (new_pinning b (length pgs) sa (pin_sglist ev c pgs)) a sa (pin_sglist ev c pgs) s t"
      using do_pin_publishes [OF good arr gup len pin Some own info env] by blast
    then show ?thesis
      using pin Some pin_sglist_pages [OF len]
      by (cases r) (auto simp: pin_failed_def pin_done_def new_pinning_def simp flip: mset_map)
  qed
qed

end
