(* ===== verification/PinnerSteps.thy ===== *)
theory PinnerSteps
  imports PinnerPin
begin

text \<open>
  The pinner as a state machine: the file operations as steps between kernel states, each
  under the documented behaviour of the kernel calls it makes, and the lemmas that carry the
  invariant over every operation.
\<close>

section \<open>Unpin and flush\<close>

lemma find_pinning_in:
  assumes "find_info ia s = Some info" and "find_pinning m info = Some p"
  shows "p \<in># user_pins (k_users s)"
proof -
  from assms(2) have "p \<in> set (pinning_list info)"
    by (auto simp: find_pinning_def find_Some_iff)
  with find_info_SomeD [OF assms(1)] show ?thesis
    by (auto simp: user_pins_def)
qed

lemma without_pinning_simps [simp]:
  "k_private (without_pinning p s) = k_private s"
  "map pi_addr (k_users (without_pinning p s)) = map pi_addr (k_users s)"
  "k_umem (without_pinning p s) = k_umem s"
  by (simp_all add: without_pinning_def)

lemma do_unpin_run:
  assumes own: "owns B s" and info: "find_info ia s = Some info"
  shows "\<exists>r t. pinner_do_unpin c ia s = Ok r t \<and> owns B t \<and> k_private t = k_private s \<and>
     map pi_addr (k_users t) = map pi_addr (k_users s) \<and>
     (case r of
        Inl e \<Rightarrow> t = s
      | Inr u \<Rightarrow> \<exists>h p. um_handles (k_umem s) (handle_ptr c) = Some h \<and> user_magic h = pi_magic info \<and>
          find_pinning (pin_magic h) info = Some p \<and> t = without_pinning p s)"
proof -
  have free: "pinner_free_pinning p s = Ok () (without_pinning p s) \<and> owns B (without_pinning p s)"
    if "find_pinning m info = Some p" for m p
    using owns_free [OF own find_pinning_in [OF info that]] by simp
  show ?thesis
    using own info
    by (cases "um_handles (k_umem s) (handle_ptr c)")
       (auto simp: pinner_do_unpin_def free split: option.split)
qed

lemma do_flush_run:
  assumes "find_info ia s = Some info"
  shows "\<exists>r evs. pinner_do_flush c ia s = Ok r (s\<lparr>k_dma := k_dma s @ evs\<rparr>)"
proof -
  have id: "s\<lparr>k_dma := k_dma s\<rparr> = s" by simp
  show ?thesis
    using assms id
    by (auto simp: pinner_do_flush_def Let_def dma_event_add_def split: option.split
        intro: exI [of _ "[]"])
qed

lemma owns_dma [simp]: "owns B (s\<lparr>k_dma := d\<rparr>) = owns B s"
  by (simp add: owns_def)

lemma inv_user_mem [simp]: "pinner_inv B (s\<lparr>k_umem := m\<rparr>) = pinner_inv B s"
  by (simp add: pinner_inv_def)

lemma pinner_inv_same:
  assumes "pinner_inv B s" and "owns B t" and "k_private t = k_private s"
    and "map pi_addr (k_users t) = map pi_addr (k_users s)"
  shows "pinner_inv B t"
proof -
  have "pi_addr ` set (k_users t) = pi_addr ` set (k_users s)"
    using assms(4) by (metis list.set_map)
  with assms show ?thesis by (simp add: pinner_inv_def)
qed

section \<open>write\<close>

lemma listed_info:
  assumes "ia \<in> pi_addr ` set (k_users s)"
  shows "\<exists>info. find_info ia s = Some info"
proof -
  from assms have "\<exists>i \<in> set (k_users s). pi_addr i = ia" by auto
  then show ?thesis by (auto simp: find_info_def find_None_iff not_None_eq [symmetric])
qed

lemma private_info:
  assumes "pinner_inv B s" and "k_private s f = Some ia"
  shows "\<exists>info. find_info ia s = Some info"
proof (rule listed_info)
  from assms show "ia \<in> pi_addr ` set (k_users s)"
    unfolding pinner_inv_def by (metis ranI)
qed

definition write_env_ok :: "pin_env \<Rightarrow> u64 \<Rightarrow> kstate \<Rightarrow> bool" where
  "write_env_ok ev buf s \<longleftrightarrow> (\<forall>c. um_cmds (k_umem s) buf = Some c \<and> cmd c = PINNER_PIN \<longrightarrow> env_ok ev c s)"

definition write_env_complete :: "pin_env \<Rightarrow> u64 \<Rightarrow> kstate \<Rightarrow> bool" where
  "write_env_complete ev buf s \<longleftrightarrow> (\<forall>c. um_cmds (k_umem s) buf = Some c \<and> cmd c = PINNER_PIN \<longrightarrow> env_complete ev c)"

lemma write_run:
  assumes inv: "pinner_inv B s" and f: "k_private s f = Some ia" and env: "write_env_ok ev buf s"
  shows "(\<exists>r t. pinner_write ev f buf sz s = Ok r t \<and> pinner_inv B t \<and> k_private t = k_private s \<and>
            map pi_addr (k_users t) = map pi_addr (k_users s)) \<or>
         (faulty (pinner_write ev f buf sz s) \<and> \<not> write_env_complete ev buf s)"
proof -
  obtain info where info: "find_info ia s = Some info"
    using private_info [OF inv f] by blast
  have own: "owns B s" using inv by (simp add: pinner_inv_def)
  have pin: "(\<exists>r t. pinner_do_pin ev c ia s = Ok r t \<and> pinner_inv B t \<and> k_private t = k_private s \<and>
            map pi_addr (k_users t) = map pi_addr (k_users s)) \<or>
         (faulty (pinner_do_pin ev c ia s) \<and> \<not> write_env_complete ev buf s)"
    if c: "um_cmds (k_umem s) buf = Some c" "cmd c = PINNER_PIN" for c
  proof -
    from env c have "env_ok ev c s" by (simp add: write_env_ok_def)
    note run = do_pin_run [OF own info this]
    have "k_private t = k_private s \<and> map pi_addr (k_users t) = map pi_addr (k_users s)"
      if "pin_post B ev c ia info s r t" for r t
      using that by (cases r) (auto simp: pin_post_def pin_failed_def pin_done_def)
    moreover have "owns B t" if "pin_post B ev c ia info s r t" for r t
      using that by (simp add: pin_post_def)
    ultimately show ?thesis
      using run c pinner_inv_same [OF inv] unfolding write_env_complete_def by meson
  qed
  have unpin: "\<exists>r t. pinner_do_unpin c ia s = Ok r t \<and> pinner_inv B t \<and> k_private t = k_private s \<and>
            map pi_addr (k_users t) = map pi_addr (k_users s)" for c
    using do_unpin_run [OF own info, of c] pinner_inv_same [OF inv] by meson
  have flush: "\<exists>r t. pinner_do_flush c ia s = Ok r t \<and> pinner_inv B t \<and> k_private t = k_private s \<and>
            map pi_addr (k_users t) = map pi_addr (k_users s)" for c
    using do_flush_run [OF info, of c] own
    by (force intro: pinner_inv_same [OF inv])
  show ?thesis
    using inv f pin unpin flush by (simp add: pinner_write_def split: option.split)
qed

section \<open>open, release, exit\<close>

lemma open_run:
  assumes inv: "pinner_inv B s" and f: "k_private s f = None"
    and fresh: "\<forall>x. a = Some x \<longrightarrow> x \<notin># k_live s"
  shows "\<exists>r t. pinner_open a magic f s = Ok r t \<and> pinner_inv B t"
proof (cases a)
  case None
  with inv show ?thesis by (simp add: pinner_open_def)
next
  case (Some x)
  let ?info = "\<lparr>pi_addr = x, pinning_list = [], pi_magic = magic\<rparr>"
  have x: "x \<notin># k_live s" using fresh Some by simp
  have own: "owns B s" using inv by (simp add: pinner_inv_def)
  have "x \<notin># user_addrs (k_users s)" by (rule not_live_not_owned [OF own x])
  moreover from this have "x \<notin> pi_addr ` set (k_users s)"
    by (auto simp: user_addrs_def)
  then have "x \<notin> ran (k_private s)"
    using inv by (auto simp: pinner_inv_def ran_def)
  then have "inj_on ((k_private s)(f \<mapsto> x)) (dom ((k_private s)(f \<mapsto> x)))"
    using inv f by (auto simp: pinner_inv_def inj_on_def ran_def)
  moreover have "user_addrs (?info # k_users s) = add_mset x (user_addrs (k_users s))"
    by (simp add: user_addrs_def)
  ultimately show ?thesis
    using Some inv f
    by (auto simp: pinner_open_def kalloc_def pinner_inv_def owns_def ran_map_upd)
qed

lemma ran_empty_map: "ran m = {} \<Longrightarrow> m = Map.empty"
  by (metis empty_iff not_None_eq ranI ext)

lemma ran_upd_None:
  assumes "inj_on m (dom m)" and "m f = Some a"
  shows "ran (m(f := None)) = ran m - {a}"
proof
  show "ran (m(f := None)) \<subseteq> ran m - {a}"
  proof
    fix x assume "x \<in> ran (m(f := None))"
    then obtain g where g: "g \<noteq> f" "m g = Some x" by (auto simp: ran_def split: if_splits)
    with assms have "x \<noteq> a" unfolding inj_on_def by (metis domI)
    with g show "x \<in> ran m - {a}" by (auto intro: ranI)
  qed
  show "ran m - {a} \<subseteq> ran (m(f := None))"
  proof
    fix x assume "x \<in> ran m - {a}"
    then obtain g where "m g = Some x" "x \<noteq> a" by (auto simp: ran_def)
    with assms(2) have "(m(f := None)) g = Some x" by auto
    then show "x \<in> ran (m(f := None))" by (rule ranI)
  qed
qed

lemma release_run:
  assumes inv: "pinner_inv B s" and f: "k_private s f = Some ia"
  shows "\<exists>info t. find_info ia s = Some info \<and> pinner_release f s = Ok (Inr ()) t \<and>
     pinner_inv B (t\<lparr>k_private := (k_private t)(f := None)\<rparr>) \<and>
     map pi_addr (k_users t) = filter (\<lambda>a. a \<noteq> ia) (map pi_addr (k_users s)) \<and>
     user_pins (k_users t) = user_pins (k_users s) - mset (pinning_list info) \<and>
     k_live t = k_live s - addrs_of (mset (pinning_list info)) - {#ia#}"
proof -
  obtain info where info: "find_info ia s = Some info"
    using private_info [OF inv f] by blast
  have own: "owns B s" using inv by (simp add: pinner_inv_def)
  from owns_free_proc_info [OF own info] obtain t where
    t: "pinner_free_proc_info ia s = Ok () t" "owns B t"
       "map pi_addr (k_users t) = filter (\<lambda>a. a \<noteq> ia) (map pi_addr (k_users s))"
       "user_pins (k_users t) = user_pins (k_users s) - mset (pinning_list info)"
       "k_live t = k_live s - addrs_of (mset (pinning_list info)) - {#ia#}"
       "k_private t = k_private s"
    by blast
  have users: "pi_addr ` set (k_users t) = pi_addr ` set (k_users s) - {ia}"
    using arg_cong [OF t(3), of set] by auto
  have inj: "inj_on (k_private s) (dom (k_private s))" and ran: "ran (k_private s) = pi_addr ` set (k_users s)"
    using inv by (simp_all add: pinner_inv_def)
  have "ran ((k_private s)(f := None)) = ran (k_private s) - {ia}"
    by (rule ran_upd_None [OF inj f])
  then have other: "ran ((k_private s)(f := None)) = pi_addr ` set (k_users t)"
    by (simp add: users ran)
  have "inj_on ((k_private s)(f := None)) (dom ((k_private s)(f := None)))"
    using inv by (auto simp: pinner_inv_def inj_on_def split: if_splits)
  then have "pinner_inv B (t\<lparr>k_private := (k_private t)(f := None)\<rparr>)"
    using t(2,6) other by (simp add: pinner_inv_def owns_def)
  with info t(1,3,4,5) f show ?thesis
    by (auto simp: pinner_release_def)
qed

lemma free_all_users_run:
  "owns B s \<Longrightarrow> \<exists>t. free_all_users s = Ok () t \<and> owns B t \<and> k_users t = []"
proof (induction s rule: free_all_users.induct)
  case (1 s)
  show ?case
  proof (cases "k_users s")
    case Nil
    with "1.prems" show ?thesis by (simp add: free_all_users.simps [of s])
  next
    case (Cons i us)
    then have "find_info (pi_addr i) s = Some i" by (simp add: find_info_def)
    from owns_free_proc_info [OF "1.prems" this] obtain t where
      free: "pinner_free_proc_info (pi_addr i) s = Ok () t" and own: "owns B t"
      by blast
    from "1.IH" [OF Cons free own] free Cons show ?thesis
      by (auto simp: free_all_users.simps [of s])
  qed
qed

section \<open>Steps and reachable states\<close>

inductive pinner_step :: "kstate \<Rightarrow> kstate \<Rightarrow> bool" where
  opened: "k_private s f = None \<Longrightarrow> (\<forall>x. a = Some x \<longrightarrow> x \<notin># k_live s) \<Longrightarrow>
     pinner_open a magic f s = Ok r t \<Longrightarrow> pinner_step s t"
| written: "k_private s f \<noteq> None \<Longrightarrow> write_env_ok ev buf s \<Longrightarrow>
     pinner_write ev f buf sz s = Ok r t \<Longrightarrow> pinner_step s t"
| released: "k_private s f \<noteq> None \<Longrightarrow> pinner_release f s = Ok r t \<Longrightarrow>
     pinner_step s (t\<lparr>k_private := (k_private t)(f := None)\<rparr>)"
| user_store: "pinner_step s (s\<lparr>k_umem := m\<rparr>)"

text \<open>The module is loaded with no open file, while others hold the page references \<open>B\<close>.\<close>

definition loaded :: "page multiset \<Rightarrow> kstate \<Rightarrow> bool" where
  "loaded B s \<longleftrightarrow> k_users s = [] \<and> k_private s = Map.empty \<and> k_refs s = B"

inductive reachable :: "page multiset \<Rightarrow> kstate \<Rightarrow> bool" for B where
  start: "loaded B s \<Longrightarrow> reachable B s"
| step: "reachable B s \<Longrightarrow> pinner_step s t \<Longrightarrow> reachable B t"

lemma loaded_inv: "loaded B s \<Longrightarrow> pinner_inv B s"
  by (simp add: loaded_def pinner_inv_def owns_def user_addrs_def)

lemma step_inv: "pinner_step s t \<Longrightarrow> pinner_inv B s \<Longrightarrow> pinner_inv B t"
proof (induction rule: pinner_step.induct)
  case (opened s f a magic r t)
  from open_run [OF opened.prems opened.hyps(1,2), of magic] opened.hyps(3)
  show ?case by auto
next
  case (written s f ev buf sz r t)
  then obtain ia where "k_private s f = Some ia" by auto
  from write_run [OF written.prems this written.hyps(2), of sz] written.hyps(3)
  show ?case by auto
next
  case (released s f r t)
  then obtain ia where "k_private s f = Some ia" by auto
  from release_run [OF released.prems this] released.hyps(2)
  show ?case by auto
next
  case (user_store s m)
  then show ?case by simp
qed

lemma reachable_inv: "reachable B s \<Longrightarrow> pinner_inv B s"
  by (induction rule: reachable.induct) (auto intro: loaded_inv step_inv)

section \<open>A successful pin, and undoing it\<close>

lemma write_pin_success:
  assumes inv: "pinner_inv B s" and f: "k_private s f = Some ia"
    and c: "um_cmds (k_umem s) buf = Some c" "cmd c = PINNER_PIN" and env: "env_ok ev c s"
    and ok: "pinner_write ev f buf sz s = Ok (Inr ()) t"
  obtains info a b sa pgs where "find_info ia s = Some info" and "ev_arr ev = Some a"
    and "ev_gup ev = Inr pgs" and "int (length pgs) = num_pages_of (usr_buf c) (usr_buf_sz c)"
    and "owns B t" and "b \<notin># k_live s"
    and "pin_done ev c ia (pi_magic info)
           (new_pinning b (length pgs) sa (pin_sglist ev c pgs)) a sa (pin_sglist ev c pgs) s t"
proof -
  obtain info where info: "find_info ia s = Some info"
    using private_info [OF inv f] by blast
  have own: "owns B s" using inv by (simp add: pinner_inv_def)
  have run: "pinner_do_pin ev c ia s = Ok (Inr ()) t"
    using ok f c by (simp add: pinner_write_def split: if_splits)
  from do_pin_run [OF own info env] run have "pin_post B ev c ia info s (Inr ()) t" by auto
  then obtain a b sa pgs where post: "ev_arr ev = Some a" "ev_gup ev = Inr pgs"
    "int (length pgs) = num_pages_of (usr_buf c) (usr_buf_sz c)" "owns B t" "ev_pin ev = Some b"
    "pin_done ev c ia (pi_magic info)
       (new_pinning b (length pgs) sa (pin_sglist ev c pgs)) a sa (pin_sglist ev c pgs) s t"
    by (auto simp: pin_post_def)
  have "b \<notin># k_live s" using env post(5) by (simp add: env_ok_def new_addrs_def)
  with that info post show ?thesis by blast
qed

lemma find_info_link:
  assumes "find_info ia s = Some info"
  shows "find (\<lambda>i. pi_addr i = ia) (link_pinning ia p (k_users s)) =
     Some (info\<lparr>pinning_list := p # pinning_list info\<rparr>)"
proof -
  have "find (\<lambda>i. pi_addr i = ia) us = Some info \<Longrightarrow>
      find (\<lambda>i. pi_addr i = ia) (link_pinning ia p us) =
      Some (info\<lparr>pinning_list := p # pinning_list info\<rparr>)" for us
    by (induction us) (auto simp: link_pinning_def split: if_splits)
  with assms show ?thesis by (simp add: find_info_def)
qed

text \<open>Unpinning with the handle that the pin command wrote removes that pinning.\<close>

lemma unpin_after_pin:
  assumes info: "find_info ia s = Some info" and own: "owns B t"
    and len: "int (length pgs) = num_pages_of (usr_buf c) (usr_buf_sz c)"
    and dma: "\<forall>l. map sg_pg (snd (ev_dma_map ev l)) = map sg_pg l"
    and fresh: "b \<notin> p_addr ` set (concat (map pinning_list (k_users s)))"
    and pin: "pin_done ev c ia (pi_magic info)
           (new_pinning b (length pgs) sa (pin_sglist ev c pgs)) a sa (pin_sglist ev c pgs) s t"
    and h: "handle_ptr c' = handle_ptr c"
  shows "\<exists>u. pinner_do_unpin c' ia t = Ok (Inr ()) u \<and> owns B u \<and> k_users u = k_users s \<and>
     k_refs u = k_refs s \<and> k_live u = add_mset a (k_live s)"
proof -
  let ?l = "pin_sglist ev c pgs"
  let ?p = "published ev (new_pinning b (length pgs) sa ?l) sa ?l"
  let ?info = "info\<lparr>pinning_list := ?p # pinning_list info\<rparr>"
  have t_info: "find_info ia t = Some ?info"
    using find_info_link [OF info] pin by (simp add: pin_done_def find_info_def)
  have found: "find_pinning (ev_magic ev) ?info = Some ?p"
    by (simp add: find_pinning_def published_def)
  have p: "?p \<in># user_pins (k_users t)" by (rule find_pinning_in [OF t_info found])
  note free = owns_free [OF own p]
  have addr: "p_addr ?p = b" by (simp add: published_def new_pinning_def)
  have users: "k_users (without_pinning ?p t) = k_users s"
    using del_link [of ?p "k_users s" ia] fresh pin
    by (simp add: without_pinning_def pin_done_def addr)
  have "length (snd (ev_dma_map ev ?l)) = length pgs"
    using dma len by (metis length_map length_pin_sglist nat_int)
  then have "pin_pages ?p = mset (map sg_pg ?l)"
    using dma by (simp add: pin_pages_def published_def new_pinning_def del: mset_map)
  then have refs: "k_refs (without_pinning ?p t) = k_refs s"
    using pin by (simp add: without_pinning_def pin_done_def)
  have live: "k_live (without_pinning ?p t) = add_mset a (k_live s)"
    using pin by (simp add: without_pinning_def pin_done_def pin_addrs_def published_def
        new_pinning_def add_mset_commute)
  have "pinner_do_unpin c' ia t = Ok (Inr ()) (without_pinning ?p t)"
    using pin h found free(1) t_info by (simp add: pinner_do_unpin_def pin_done_def)
  with users refs live free(2) show ?thesis by blast
qed

text \<open>The pinnings of two processes have different addresses.\<close>

lemma pinning_elsewhere:
  assumes own: "owns B s" and info: "find_info ia s = Some info" and p: "p \<in> set (pinning_list info)"
    and j: "j \<in> set (k_users s)" "pi_addr j \<noteq> ia" and q: "q \<in> set (pinning_list j)"
  shows "p_addr q \<noteq> p_addr p"
proof
  assume eq: "p_addr q = p_addr p"
  obtain xs ys where us: "k_users s = xs @ j # ys" using j(1) by (meson split_list)
  have "info \<in> set xs \<union> set ys"
    using find_info_SomeD [OF info] us j(2) by auto
  with p have "p \<in># user_pins (xs @ ys)"
    by (auto simp: user_pins_def)
  then have "p_addr p \<in># addrs_of (user_pins (xs @ ys))" by (rule p_addr_in_addrs_of)
  moreover have "p_addr p \<in># addrs_of (mset (pinning_list j))"
    using p_addr_in_addrs_of [of q "mset (pinning_list j)"] q eq by simp
  moreover have "uniq (addrs_of (mset (pinning_list j)) + addrs_of (user_pins (xs @ ys)))"
  proof -
    have "user_pins (k_users s) = mset (pinning_list j) + user_pins (xs @ ys)"
      by (simp add: us user_pins_def)
    with own show ?thesis
      by (auto simp: owns_def user_addrs_def addrs_of_plus dest: uniq_plusD)
  qed
  ultimately show False by (auto dest: uniq_plus_disjoint)
qed

text \<open>Nothing that one process writes changes the proc_info of another.\<close>

lemma write_isolated:
  assumes inv: "pinner_inv B s" and f: "k_private s f = Some ia" and env: "write_env_ok ev buf s"
    and ok: "pinner_write ev f buf sz s = Ok r t" and j: "j \<in> set (k_users s)" "pi_addr j \<noteq> ia"
  shows "j \<in> set (k_users t)"
proof -
  obtain info where info: "find_info ia s = Some info"
    using private_info [OF inv f] by blast
  have own: "owns B s" using inv by (simp add: pinner_inv_def)
  have pin: "j \<in> set (k_users t)"
    if "um_cmds (k_umem s) buf = Some c" and "cmd c = PINNER_PIN" and "pinner_do_pin ev c ia s = Ok r t" for c
  proof -
    from env that(1,2) have "env_ok ev c s" by (simp add: write_env_ok_def)
    from do_pin_run [OF own info this] that(3) have "pin_post B ev c ia info s r t" by auto
    with j show ?thesis
      by (cases r) (force simp: pin_post_def pin_failed_def pin_done_def link_pinning_def)+
  qed
  have unpin: "j \<in> set (k_users t)" if run: "pinner_do_unpin c ia s = Ok r t" for c
  proof (cases r)
    case (Inl e)
    with do_unpin_run [OF own info, of c] run j show ?thesis by auto
  next
    case (Inr u)
    with do_unpin_run [OF own info, of c] run obtain m p where
      p: "find_pinning m info = Some p" and t: "t = without_pinning p s" by auto
    have "p_addr q \<noteq> p_addr p" if "q \<in> set (pinning_list j)" for q
      using pinning_elsewhere [OF own info _ j that, of p] p
      by (auto simp: find_pinning_def find_Some_iff)
    then have "filter (\<lambda>q. p_addr q \<noteq> p_addr p) (pinning_list j) = pinning_list j"
      by (simp add: filter_id_conv)
    then show ?thesis
      using j(1) by (force simp: t without_pinning_def del_pinning_def)
  qed
  have flush: "j \<in> set (k_users t)" if "pinner_do_flush c ia s = Ok r t" for c
    using do_flush_run [OF info, of c] that j(1) by auto
  show ?thesis
    using ok f j(1) pin unpin flush
    by (auto simp: pinner_write_def split: if_splits option.splits)
qed

end
