(* ===== verification/UserSG.thy ===== *)
theory UserSG
  imports PinnerPin
begin

text \<open>
  The user side of the pinner, how_to_use_marcos_drivers/axidma/user_example.c: the lookup
  of a physical address in the list the driver reports, and the scatter-gather descriptors
  that are written from it.
\<close>

section \<open>Virtual to physical\<close>

text \<open>The loop over the entries; an address that no entry holds gives the null address.\<close>

fun virt_to_phys_loop :: "u32 \<Rightarrow> physlist_entry list \<Rightarrow> u64" where
  "virt_to_phys_loop offset [] = 0"
| "virt_to_phys_loop offset (e # es) =
     (if pe_len e \<le> offset then virt_to_phys_loop (offset - pe_len e) es
      else pe_addr e + ucast offset)"

definition virt_to_phys :: "u64 \<Rightarrow> u64 \<Rightarrow> physlist_entry list \<Rightarrow> u64" where
  "virt_to_phys p base plist = virt_to_phys_loop (ucast (p - base)) plist"

lemma virt_to_phys_loop_skip:
  assumes "sum_list (map (\<lambda>e. unat (pe_len e)) xs) \<le> unat offset"
  shows "virt_to_phys_loop offset (xs @ ys) =
     virt_to_phys_loop (offset - of_nat (sum_list (map (\<lambda>e. unat (pe_len e)) xs))) ys"
  using assms
proof (induction xs arbitrary: offset)
  case (Cons x xs)
  then have le: "pe_len x \<le> offset" by (simp add: word_le_nat_alt)
  then have "unat (offset - pe_len x) = unat offset - unat (pe_len x)" by (rule unat_sub)
  with Cons.prems have "sum_list (map (\<lambda>e. unat (pe_len e)) xs) \<le> unat (offset - pe_len x)"
    by simp
  from Cons.IH [OF this] le show ?case by (simp add: algebra_simps)
qed simp

lemma virt_to_phys_loop_hit:
  assumes "k < length es"
    and "sum_list (map (\<lambda>e. unat (pe_len e)) (take k es)) = s"
    and "s \<le> unat offset" and "unat offset < s + unat (pe_len (es ! k))"
  shows "virt_to_phys_loop offset es = pe_addr (es ! k) + of_nat (unat offset - s)"
proof -
  have split: "es = take k es @ es ! k # drop (Suc k) es"
    using assms(1) by (rule id_take_nth_drop)
  have s_le: "of_nat s \<le> offset"
    using assms(3) by (metis le_unat_uoi word_le_nat_alt)
  have "unat (of_nat s :: u32) = s"
    using assms(3) unat_lt_u32 [of offset] by (simp add: unsigned_of_nat take_bit_nat_eq_self)
  with s_le have u: "unat (offset - of_nat s) = unat offset - s"
    by (simp add: unat_sub)
  have "virt_to_phys_loop offset es = virt_to_phys_loop (offset - of_nat s) (es ! k # drop (Suc k) es)"
    by (subst split, subst virt_to_phys_loop_skip) (simp_all add: assms(2,3))
  moreover have "\<not> pe_len (es ! k) \<le> offset - of_nat s"
    using assms(3,4) by (simp add: word_le_nat_alt u)
  moreover have "(ucast (offset - of_nat s) :: u64) = of_nat (unat offset - s)"
    by (simp flip: u)
  ultimately show ?thesis by simp
qed

text \<open>The lookup on the entries of a pinned buffer finds the page and the offset in it.\<close>

lemma unat_seg_len: "unat (of_nat (seg_len off sz i) :: u32) = seg_len off sz i"
proof -
  have "seg_len off sz i < 2 ^ 32" using seg_len_le [of off sz i] by simp
  then show ?thesis by (simp add: unsigned_of_nat take_bit_nat_eq_self)
qed

lemma virt_to_phys_entries:
  fixes z :: u32
  assumes off: "off < 4096" and n: "n = (off + sz + 4095) div 4096" and z: "unat z < sz"
    and es: "length es = n" "\<And>i. i < n \<Longrightarrow> pe_len (es ! i) = of_nat (seg_len off sz i)"
    and k: "k = (off + unat z) div 4096"
  shows "virt_to_phys_loop z es =
     pe_addr (es ! k) + of_nat (if k = 0 then unat z else (off + unat z) mod 4096)"
proof -
  define s where "s = (if k = 0 then 0 else 4096 * k - off)"
  have lo: "4096 * k \<le> off + unat z" and hi: "off + unat z < 4096 * (k + 1)"
    unfolding k by simp_all
  have kn: "k < n" unfolding n k using z by simp
  have len: "unat (pe_len (es ! i)) = seg_len off sz i" if "i < n" for i
    using that by (simp add: es(2) unat_seg_len)
  have "map (\<lambda>e. unat (pe_len e)) (take k es) = map (seg_len off sz) [0..<k]"
    using kn by (intro nth_equalityI) (simp_all add: es(1) len)
  then have "sum_list (map (\<lambda>e. unat (pe_len e)) (take k es)) = (\<Sum>i<k. seg_len off sz i)"
    by (simp add: interv_sum_list_conv_sum_set_nat lessThan_atLeast0)
  also have "\<dots> = s"
    using lo z by (simp add: seg_len_sum [OF off] s_def)
  finally have sum: "sum_list (map (\<lambda>e. unat (pe_len e)) (take k es)) = s" .
  have s_le: "s \<le> unat z" using lo by (auto simp: s_def)
  have "seg_len off sz k = min (off + sz) (4096 * (k + 1)) - (s + off)"
    using off by (cases "k = 0") (auto simp: seg_len_def s_def)
  then have "unat z < s + unat (pe_len (es ! k))"
    unfolding len [OF kn] using hi z s_le by auto
  with virt_to_phys_loop_hit [of k es s z] kn sum s_le es(1)
  have hit: "virt_to_phys_loop z es = pe_addr (es ! k) + of_nat (unat z - s)"
    by simp
  have "unat z - s = (if k = 0 then unat z else (off + unat z) mod 4096)"
    using lo hi off by (auto simp: s_def k minus_mult_div_eq_mod [symmetric])
  then show ?thesis by (simp only: hit)
qed

text \<open>
  dma_map_sg is documented to fill the DMA fields of the entries. It leaves page, offset and
  length of every entry as they are.
\<close>

definition sg_segment :: "scatterlist \<Rightarrow> page \<times> u32 \<times> u32" where
  "sg_segment g = (sg_pg g, sg_offset g, sg_length g)"

definition keeps_segments :: "pin_env \<Rightarrow> bool" where
  "keeps_segments ev \<longleftrightarrow> (\<forall>l. map sg_segment (snd (ev_dma_map ev l)) = map sg_segment l)"

definition mapped_sglist :: "pin_env \<Rightarrow> pinner_cmd \<Rightarrow> page list \<Rightarrow> scatterlist list" where
  "mapped_sglist ev c pgs = snd (ev_dma_map ev (pin_sglist ev c pgs))"

lemma length_mapped_sglist:
  "keeps_segments ev \<Longrightarrow>
     length (mapped_sglist ev c pgs) = nat (num_pages_of (usr_buf c) (usr_buf_sz c))"
  by (metis keeps_segments_def length_map length_pin_sglist mapped_sglist_def)

lemma mapped_sglist_nth:
  assumes "keeps_segments ev" and "i < nat (num_pages_of (usr_buf c) (usr_buf_sz c))"
  shows "sg_pg (mapped_sglist ev c pgs ! i) = pgs ! i"
    and "sg_offset (mapped_sglist ev c pgs ! i) =
           (if i = 0 then of_nat (unat (usr_buf c) mod 4096) else 0)"
    and "sg_length (mapped_sglist ev c pgs ! i) =
           of_nat (seg_len (unat (usr_buf c) mod 4096) (unat (usr_buf_sz c)) i)"
proof -
  have "sg_segment (mapped_sglist ev c pgs ! i) = map sg_segment (mapped_sglist ev c pgs) ! i"
    using assms by (simp add: length_mapped_sglist)
  also have "\<dots> = sg_segment (pin_sglist ev c pgs ! i)"
    using assms by (simp add: mapped_sglist_def keeps_segments_def)
  finally have "sg_segment (mapped_sglist ev c pgs ! i) = sg_segment (pin_sglist ev c pgs ! i)" .
  then show "sg_pg (mapped_sglist ev c pgs ! i) = pgs ! i"
    and "sg_offset (mapped_sglist ev c pgs ! i) =
           (if i = 0 then of_nat (unat (usr_buf c) mod 4096) else 0)"
    and "sg_length (mapped_sglist ev c pgs ! i) =
           of_nat (seg_len (unat (usr_buf c) mod 4096) (unat (usr_buf_sz c)) i)"
    using assms(2) by (simp_all add: sg_segment_def pin_sglist_eq sg_spec_def)
qed

lemma virt_to_phys_pinned:
  assumes v: "unat v < unat (usr_buf_sz c)" and "keeps_segments ev"
    and k: "k = (unat (usr_buf c) mod 4096 + unat v) div 4096"
  shows "virt_to_phys (usr_buf c + v) (usr_buf c) (map entry_of (mapped_sglist ev c pgs)) =
     sg_dma_address (mapped_sglist ev c pgs ! k) +
     of_nat ((unat (usr_buf c) mod 4096 + unat v) mod 4096)"
    and "k < nat (num_pages_of (usr_buf c) (usr_buf_sz c))"
proof -
  let ?off = "unat (usr_buf c) mod 4096" and ?n = "nat (num_pages_of (usr_buf c) (usr_buf_sz c))"
  have v32: "unat (ucast v :: u32) = unat v"
    using v unat_lt_u32 [of "usr_buf_sz c"] by (simp add: unsigned_ucast_eq take_bit_nat_eq_self)
  have n: "?n = (?off + unat (usr_buf_sz c) + 4095) div 4096" by (simp add: num_pages_of_eq)
  show kn: "k < ?n" unfolding n k using v by simp
  have "virt_to_phys (usr_buf c + v) (usr_buf c) (map entry_of (mapped_sglist ev c pgs)) =
      pe_addr (map entry_of (mapped_sglist ev c pgs) ! k) +
      of_nat (if k = 0 then unat v else (?off + unat v) mod 4096)"
    unfolding virt_to_phys_def
    using virt_to_phys_entries [of ?off ?n "unat (usr_buf_sz c)" "ucast v"
        "map entry_of (mapped_sglist ev c pgs)" k] assms n
    by (simp add: v32 length_mapped_sglist entry_of_def mapped_sglist_nth)
  also have "\<dots> = sg_dma_address (mapped_sglist ev c pgs ! k) + of_nat ((?off + unat v) mod 4096)"
  proof (cases "k = 0")
    case True
    then have "(?off + unat v) mod 4096 = ?off + unat v" using k by simp
    moreover have "(ucast (of_nat ?off :: u32) :: u64) = of_nat ?off"
      by (intro ucast_of_nat_32_64) (simp add: le_less_trans [OF less_imp_le [OF mod_less_divisor]])
    ultimately show ?thesis
      using True kn assms(2) by (simp add: entry_of_def length_mapped_sglist mapped_sglist_nth)
  next
    case False
    with kn assms(2) show ?thesis
      by (simp add: entry_of_def length_mapped_sglist mapped_sglist_nth)
  qed
  finally show "virt_to_phys (usr_buf c + v) (usr_buf c) (map entry_of (mapped_sglist ev c pgs)) =
     sg_dma_address (mapped_sglist ev c pgs ! k) + of_nat ((?off + unat v) mod 4096)" .
qed

end
