(* ===== verification/PinnerDemo.thy ===== *)
theory PinnerDemo
  imports PinnerSteps UserSG
begin

text \<open>
  A concrete run of the pinner that the witnesses use: file 0 is opened, a buffer of 5000
  bytes at address 0x1010 (two pages) is pinned. Every step is evaluated on the model.
\<close>

definition demo_pin :: pinner_cmd where
  "demo_pin = \<lparr>cmd = 1, usr_buf = 0x1010, usr_buf_sz = 5000, handle_ptr = 0x100, physlist_ptr = 0x200\<rparr>"

definition demo_unpin :: pinner_cmd where
  "demo_unpin = \<lparr>cmd = 2, usr_buf = 0, usr_buf_sz = 0, handle_ptr = 0x100, physlist_ptr = 0\<rparr>"

definition demo_env :: pin_env where
  "demo_env = \<lparr>ev_arr = Some 2, ev_gup = Inr [7, 9], ev_pin = Some 3, ev_sgl = Some 4,
     ev_ents = Some 5, ev_magic = 77, ev_dma_map = (\<lambda>l. (Inr (length l), l)),
     ev_page_to_phys = (\<lambda>p. of_nat p * 4096)\<rparr>"

definition demo_umem :: user_mem where
  "demo_umem = \<lparr>um_cmds = [0x10 \<mapsto> demo_pin, 0x20 \<mapsto> demo_unpin],
     um_handles = [0x100 \<mapsto> \<lparr>user_magic = 0, pin_magic = 0\<rparr>],
     um_counts = [0x200 \<mapsto> 0], um_entries = [0x208 \<mapsto> []]\<rparr>"

definition demo_loaded :: kstate where
  "demo_loaded = \<lparr>k_users = [], k_private = Map.empty, k_live = {#}, k_refs = {#}, k_dma = [],
     k_umem = demo_umem, k_registered = True, k_device = True\<rparr>"

definition demo_opened :: kstate where
  "demo_opened = demo_loaded\<lparr>k_users := [\<lparr>pi_addr = 1, pinning_list = [], pi_magic = 5\<rparr>],
     k_private := [0 \<mapsto> 1], k_live := {#1#}\<rparr>"

definition demo_sglist :: "scatterlist list" where
  "demo_sglist =
     [\<lparr>sg_pg = 7, sg_offset = 16, sg_length = 4080, sg_dma_address = 28672\<rparr>,
      \<lparr>sg_pg = 9, sg_offset = 0, sg_length = 920, sg_dma_address = 36864\<rparr>]"

definition demo_pinned :: kstate where
  "demo_pinned = demo_opened\<lparr>
     k_users := [\<lparr>pi_addr = 1, pinning_list =
        [\<lparr>p_addr = 3, num_sg_ents = 2, sglist = Some (4, demo_sglist), p_magic = 77\<rparr>],
        pi_magic = 5\<rparr>],
     k_live := {#1, 2, 3, 4#}, k_refs := {#7, 9#}, k_dma := [DmaMap 4 2],
     k_umem := demo_umem\<lparr>um_handles := [0x100 \<mapsto> \<lparr>user_magic = 5, pin_magic = 77\<rparr>],
        um_counts := [0x200 \<mapsto> 2],
        um_entries := [0x208 \<mapsto> [\<lparr>pe_addr = 28688, pe_len = 4080\<rparr>, \<lparr>pe_addr = 36864, pe_len = 920\<rparr>]]\<rparr>\<rparr>"

lemmas demo_defs = demo_pin_def demo_unpin_def demo_env_def demo_umem_def demo_loaded_def
  demo_opened_def demo_pinned_def demo_sglist_def

lemma demo_num_pages: "num_pages_of 0x1010 5000 = 2"
  by (simp add: num_pages_of_eq)

lemma demo_start: "page_start 0x1010 = 0x1000"
  by (simp add: page_start_def page_simps)

lemma demo_fill:
  "fill_sglist (\<lambda>p. of_nat p * 4096) [7, 9] 2 16 5000 = demo_sglist"
  by (simp add: fill_sglist_eq demo_sglist_def sg_spec_def seg_len_def upt_rec)

lemma demo_open: "pinner_open (Some 1) 5 0 demo_loaded = Ok (Inr ()) demo_opened"
  by (simp add: pinner_open_def demo_defs kalloc_def)

lemma demo_write: "pinner_write demo_env 0 0x10 40 demo_opened = Ok (Inr ()) demo_pinned"
proof -
  have "pinner_do_pin demo_env demo_pin 1 demo_opened = Ok (Inr ()) demo_pinned"
    by (simp add: pinner_do_pin_def demo_pin_def demo_env_def demo_num_pages demo_start
        PINNER_MAX_PAGES_def pinner_alloc_and_fill_sglist_def demo_fill find_info_def
        demo_opened_def demo_loaded_def kalloc_def get_pages_def do_pin_publish_def
        list_add_pinning_def upd_info_def dma_event_add_def set_pinning_sglist_def
        pinner_send_physlist_def Let_def copy_count_to_user_def copy_entries_to_user_def
        copy_handle_to_user_def kfree_def demo_umem_def demo_sglist_def entry_of_def
        entries_offset_def demo_pinned_def)
  moreover have "um_cmds (k_umem demo_opened) 0x10 = Some demo_pin"
    and "k_private demo_opened 0 = Some 1" and "cmd demo_pin = PINNER_PIN"
    by (simp_all add: demo_opened_def demo_loaded_def demo_umem_def demo_pin_def PINNER_PIN_def)
  ultimately show ?thesis by (simp add: pinner_write_def sizeof_pinner_cmd_def)
qed

lemma demo_env_ok:
  "um_cmds (k_umem s) buf = Some demo_pin \<Longrightarrow> 2 \<notin># k_live s \<Longrightarrow> 3 \<notin># k_live s \<Longrightarrow>
     4 \<notin># k_live s \<Longrightarrow> 5 \<notin># k_live s \<Longrightarrow> write_env_ok demo_env buf s"
  by (simp add: write_env_ok_def env_ok_def demo_env_def new_addrs_def demo_pin_def demo_num_pages)

lemma demo_reach_opened: "reachable {#} demo_opened"
proof -
  have "reachable {#} demo_loaded"
    by (rule reachable.start) (simp add: loaded_def demo_loaded_def)
  moreover have "pinner_step demo_loaded demo_opened"
    by (rule opened [OF _ _ demo_open]) (simp_all add: demo_loaded_def)
  ultimately show ?thesis by (rule reachable.step)
qed

lemma demo_opened_env: "write_env_ok demo_env 0x10 demo_opened"
  by (rule demo_env_ok) (simp_all add: demo_opened_def demo_loaded_def demo_umem_def)

lemma demo_reach_pinned: "reachable {#} demo_pinned"
proof -
  have "pinner_step demo_opened demo_pinned"
    by (rule written [OF _ demo_opened_env demo_write]) (simp add: demo_opened_def)
  with demo_reach_opened show ?thesis by (rule reachable.step)
qed

end
