(* ===== verification/PinnerRace.thy ===== *)
theory PinnerRace
  imports PinnerSteps
begin

text \<open>
  Two threads of one process that unpin or flush at the same time. The file's list of pinnings
  has no lock: between the search of \<open>pinner_do_unpin\<close> or \<open>pinner_do_flush\<close> and the use of the
  pinning that was found another thread can run. Here these are two steps of a thread, in an
  order that a schedule gives.
\<close>

section \<open>The two halves of a command\<close>

text \<open>The search is the same code in both functions.\<close>

definition unpin_find :: "pinner_cmd \<Rightarrow> kptr \<Rightarrow> kstate \<Rightarrow> (errno + pinning, kstate) outcome" where
  "unpin_find c ia s =
     (case um_handles (k_umem s) (handle_ptr c) of
        None \<Rightarrow> Ok (Inl EAGAIN) s
      | Some h \<Rightarrow>
         (case find_info ia s of
            None \<Rightarrow> Fault UseAfterFree
          | Some info \<Rightarrow>
             if user_magic h \<noteq> pi_magic info then Ok (Inl EINVAL) s
             else (case find_pinning (pin_magic h) info of
                     None \<Rightarrow> Ok (Inl EINVAL) s | Some p \<Rightarrow> Ok (Inr p) s)))"

text \<open>
  The rest of a flush reads the pinning that was found. It has been freed when it is on no
  list any more.
\<close>

definition flush_found :: "pinner_cmd \<Rightarrow> pinning \<Rightarrow> kstate \<Rightarrow> (unit, kstate) outcome" where
  "flush_found c p s =
     (if p \<notin># user_pins (k_users s) then Fault UseAfterFree
      else
        let sg = map_option fst (sglist p);
            s1 = (if usr_buf_sz c AND 1 = 0 then dma_event_add (SyncForCpu sg (num_sg_ents p)) s else s)
        in Ok () (if usr_buf_sz c AND 2 = 0 then dma_event_add (SyncForDevice sg (num_sg_ents p)) s1 else s1))"

datatype pin_thread = Calling pinner_cmd | Holding pinner_cmd pinning | Returned rc

fun pin_turn :: "kptr \<Rightarrow> pin_thread \<Rightarrow> kstate \<Rightarrow> (pin_thread, kstate) outcome" where
  "pin_turn ia (Calling c) s =
     obind (unpin_find c ia s) (\<lambda>r t. Ok (case r of Inl e \<Rightarrow> Returned (Inl e) | Inr p \<Rightarrow> Holding c p) t)"
| "pin_turn ia (Holding c p) s =
     obind (if cmd c = PINNER_FLUSH then flush_found c p s else pinner_free_pinning p s)
       (\<lambda>_ t. Ok (Returned (Inr ())) t)"
| "pin_turn ia (Returned r) s = Ok (Returned r) s"

text \<open>The whole command of a thread.\<close>

definition pin_call :: "pinner_cmd \<Rightarrow> kptr \<Rightarrow> kstate \<Rightarrow> (rc, kstate) outcome" where
  "pin_call c ia s = (if cmd c = PINNER_FLUSH then pinner_do_flush c ia s else pinner_do_unpin c ia s)"

text \<open>A schedule says for each turn whether it is the first thread's.\<close>

fun run_schedule :: "kptr \<Rightarrow> bool list \<Rightarrow> pin_thread \<times> pin_thread \<Rightarrow> kstate \<Rightarrow>
    (pin_thread \<times> pin_thread, kstate) outcome" where
  "run_schedule ia [] (a, b) s = Ok (a, b) s"
| "run_schedule ia (True # sched) (a, b) s = obind (pin_turn ia a s) (\<lambda>a' t. run_schedule ia sched (a', b) t)"
| "run_schedule ia (False # sched) (a, b) s = obind (pin_turn ia b s) (\<lambda>b' t. run_schedule ia sched (a, b') t)"

section \<open>One thread after the other\<close>

lemma unpin_find_same: "unpin_find c ia s = Ok r t \<Longrightarrow> t = s"
  by (auto simp: unpin_find_def split: option.splits if_splits)

lemma unpin_find_pinning:
  assumes "unpin_find c ia s = Ok (Inr p) t"
  shows "\<exists>info m. find_info ia s = Some info \<and> find_pinning m info = Some p"
  using assms by (auto simp: unpin_find_def split: option.splits if_splits)

lemma unpin_find_linked: "unpin_find c ia s = Ok (Inr p) t \<Longrightarrow> p \<in># user_pins (k_users s)"
  using unpin_find_pinning find_pinning_in by blast

text \<open>Both commands are their search and what they do with what it found.\<close>

lemma pin_call_halves:
  "pin_call c ia s = obind (unpin_find c ia s) (\<lambda>r t. case r of Inl e \<Rightarrow> Ok (Inl e) t
     | Inr p \<Rightarrow> obind (if cmd c = PINNER_FLUSH then flush_found c p t else pinner_free_pinning p t)
         (\<lambda>_ u. Ok (Inr ()) u))"
proof (cases "unpin_find c ia s")
  case (Ok r t)
  then show ?thesis
    using unpin_find_same [OF Ok] unpin_find_linked [of c ia s _ t]
    by (auto simp: pin_call_def unpin_find_def pinner_do_flush_def pinner_do_unpin_def flush_found_def
        Let_def split: option.splits if_splits)
qed (auto simp: pin_call_def unpin_find_def pinner_do_flush_def pinner_do_unpin_def
    split: option.splits if_splits)

lemma two_turns:
  "obind (pin_turn ia (Calling c) s) (pin_turn ia) = obind (pin_call c ia s) (\<lambda>r t. Ok (Returned r) t)"
  by (cases "unpin_find c ia s")
     (auto simp: pin_call_halves obind_assoc split: sum.split)

lemma sequential_schedule:
  "run_schedule ia [True, True, False, False] (Calling c, Calling d) s =
     obind (pin_call c ia s) (\<lambda>r t. obind (pin_call d ia t) (\<lambda>r' u. Ok (Returned r, Returned r') u))"
proof -
  have turns:
    "run_schedule ia (True # sched) (a, b) = (\<lambda>s. obind (pin_turn ia a s) (\<lambda>a'. run_schedule ia sched (a', b)))"
    "run_schedule ia (False # sched) (a, b) = (\<lambda>s. obind (pin_turn ia b s) (\<lambda>b'. run_schedule ia sched (a, b')))"
    "run_schedule ia [] (a, b) = Ok (a, b)" for sched a b
    by (simp_all add: fun_eq_iff)
  have "run_schedule ia [True, True, False, False] (a, b) s =
      obind (obind (pin_turn ia a s) (pin_turn ia))
        (\<lambda>a' t. obind (obind (pin_turn ia b t) (pin_turn ia)) (\<lambda>b' u. Ok (a', b') u))" for a b
    using turns by (simp add: obind_assoc)
  then have "run_schedule ia [True, True, False, False] (Calling c, Calling d) s =
      obind (obind (pin_call c ia s) (\<lambda>r t. Ok (Returned r) t))
        (\<lambda>a' t. obind (obind (pin_call d ia t) (\<lambda>r u. Ok (Returned r) u)) (\<lambda>b' u. Ok (a', b') u))"
    by (simp only: two_turns)
  then show ?thesis by (simp only: obind_assoc obind.simps)
qed

lemma pin_call_run:
  assumes "owns B s" and "find_info ia s = Some info"
  shows "\<exists>r t info'. pin_call c ia s = Ok r t \<and> owns B t \<and> find_info ia t = Some info'"
proof (cases "cmd c = PINNER_FLUSH")
  case True
  from do_flush_run [OF assms(2), of c] obtain r evs where
    "pinner_do_flush c ia s = Ok r (s\<lparr>k_dma := k_dma s @ evs\<rparr>)" by blast
  with True assms show ?thesis by (simp add: pin_call_def find_info_def)
next
  case False
  from do_unpin_run [OF assms, of c] obtain r t where
    c: "pinner_do_unpin c ia s = Ok r t" "owns B t" "map pi_addr (k_users t) = map pi_addr (k_users s)"
    by blast
  have "ia \<in> pi_addr ` set (k_users t)"
    using find_info_SomeD [OF assms(2)] arg_cong [OF c(3), of set] by auto
  from listed_info [OF this] False c show ?thesis by (auto simp: pin_call_def)
qed

lemma sequential_calls:
  assumes "owns B s" and "find_info ia s = Some info"
  shows "\<exists>r r' t. run_schedule ia [True, True, False, False] (Calling c, Calling d) s =
      Ok (Returned r, Returned r') t \<and> owns B t"
proof -
  from pin_call_run [OF assms, of c] obtain r t info' where
    c: "pin_call c ia s = Ok r t" "owns B t" "find_info ia t = Some info'" by blast
  from pin_call_run [OF c(2,3), of d] obtain r' u where "pin_call d ia t = Ok r' u" "owns B u" by blast
  with c show ?thesis by (simp only: sequential_schedule obind.simps) blast
qed

section \<open>Interleaved threads\<close>

text \<open>A pinning that is on no list cannot be freed: at the latest, list_del faults.\<close>

lemma free_unlinked_faults:
  assumes "p_addr p \<notin> p_addr ` set (concat (map pinning_list (k_users s)))"
  shows "faulty (pinner_free_pinning p s)"
proof (rule ccontr)
  assume "\<not> faulty (pinner_free_pinning p s)"
  then obtain u t where "pinner_free_pinning p s = Ok u t" by (auto simp: not_faulty_iff)
  then obtain v s3 w s4 where del: "list_del_pinning (p_addr p) s3 = Ok w s4"
    and users: "k_users s3 = k_users s"
    by (auto simp: pinner_free_pinning_def Let_def pinner_put_sglist_pages_def dma_event_add_def
        split: option.splits elim!: obind_Ok_E dest!: kfree_users put_sg_pages_users)
  from del have "p_addr p \<in> p_addr ` set (concat (map pinning_list (k_users s3)))"
    by (auto simp: list_del_pinning_def split: if_splits)
  with users assms show False by simp
qed

lemma freed_unlinked:
  "p_addr p \<notin> p_addr ` set (concat (map pinning_list (k_users (without_pinning p s))))"
  by (auto simp: without_pinning_def del_pinning_def)

lemma freed_not_listed: "p \<notin># user_pins (k_users (without_pinning p s))"
  using freed_unlinked [of p s] by (auto simp: user_pins_def)

lemma found_free:
  assumes "owns B s" and "unpin_find c ia s = Ok (Inr p) s"
  shows "pinner_free_pinning p s = Ok () (without_pinning p s)"
  by (rule owns_free(1) [OF assms(1) unpin_find_linked [OF assms(2)]])

lemma interleaved_unpins:
  assumes own: "owns B s" and c: "unpin_find c ia s = Ok (Inr p) s" and d: "unpin_find d ia s = Ok (Inr p) s"
    and "cmd c = PINNER_UNPIN" and "cmd d = PINNER_UNPIN"
  shows "faulty (run_schedule ia [True, False, True, False] (Calling c, Calling d) s)"
proof -
  obtain x where "pinner_free_pinning p (without_pinning p s) = Fault x"
    using free_unlinked_faults [OF freed_unlinked] by (auto simp: faulty_iff)
  with found_free [OF own c] assms show ?thesis by (simp add: PINNER_UNPIN_def PINNER_FLUSH_def)
qed

lemma flush_during_unpin:
  assumes own: "owns B s" and c: "unpin_find c ia s = Ok (Inr p) s" and d: "unpin_find d ia s = Ok (Inr p) s"
    and "cmd c = PINNER_FLUSH" and "cmd d = PINNER_UNPIN"
  shows "run_schedule ia [True, False, False, True] (Calling c, Calling d) s = Fault UseAfterFree"
  using found_free [OF own c] assms freed_not_listed [of p s]
  by (simp add: PINNER_UNPIN_def PINNER_FLUSH_def flush_found_def)

lemma flush_found_run:
  assumes "p \<in># user_pins (k_users s)"
  shows "\<exists>evs. flush_found c p s = Ok () (s\<lparr>k_dma := k_dma s @ evs\<rparr>)"
proof -
  have id: "s\<lparr>k_dma := k_dma s\<rparr> = s" by simp
  show ?thesis
    using assms id by (auto simp: flush_found_def Let_def dma_event_add_def intro: exI [of _ "[]"])
qed

text \<open>The other way round nothing is wrong: the flush ends before the pinning is freed.\<close>

lemma unpin_during_flush:
  assumes own: "owns B s" and c: "unpin_find c ia s = Ok (Inr p) s" and d: "unpin_find d ia s = Ok (Inr p) s"
    and cmds: "cmd c = PINNER_FLUSH" "cmd d = PINNER_UNPIN"
  shows "\<exists>t. run_schedule ia [False, True, True, False] (Calling c, Calling d) s =
      Ok (Returned (Inr ()), Returned (Inr ())) t \<and> owns B t"
proof -
  have p: "p \<in># user_pins (k_users s)" by (rule unpin_find_linked [OF c])
  from flush_found_run [OF this, of c] obtain evs where
    flush: "flush_found c p s = Ok () (s\<lparr>k_dma := k_dma s @ evs\<rparr>)" by blast
  have own': "owns B (s\<lparr>k_dma := k_dma s @ evs\<rparr>)" using own by simp
  from owns_free [OF own', of p] p show ?thesis
    using c d cmds flush by (simp add: PINNER_UNPIN_def PINNER_FLUSH_def)
qed

end
