(* ===== verification/UserDesc.thy ===== *)
theory UserDesc
  imports UserSG PinnerSteps
begin

text \<open>
  The rest of how_to_use_marcos_drivers/axidma/user_example.c: the helpers that write the
  pinner's commands, and the scatter-gather descriptors the DMA engine walks.
\<close>

section \<open>The helpers\<close>

text \<open>The command is built in the user's memory at \<open>cp\<close>, then written to the file.\<close>

definition put_cmd :: "u64 \<Rightarrow> pinner_cmd \<Rightarrow> kstate \<Rightarrow> kstate" where
  "put_cmd cp c s = s\<lparr>k_umem := (k_umem s)\<lparr>um_cmds := (um_cmds (k_umem s))(cp \<mapsto> c)\<rparr>\<rparr>"

definition write_cmd :: "pin_env \<Rightarrow> nat \<Rightarrow> u64 \<Rightarrow> pinner_cmd \<Rightarrow> kstate \<Rightarrow> (rc, kstate) outcome" where
  "write_cmd ev fd cp c s = pinner_write ev fd cp sizeof_pinner_cmd (put_cmd cp c s)"

definition pin_buf :: "pin_env \<Rightarrow> nat \<Rightarrow> u64 \<Rightarrow> u64 \<Rightarrow> u32 \<Rightarrow> u64 \<Rightarrow> u64 \<Rightarrow> kstate \<Rightarrow> (int, kstate) outcome" where
  "pin_buf ev fd cp buf buf_sz h p s =
     obind (write_cmd ev fd cp \<lparr>cmd = PINNER_PIN, usr_buf = buf, usr_buf_sz = buf_sz,
              handle_ptr = h, physlist_ptr = p\<rparr> s)
       (\<lambda>r t. Ok (case r of Inl e \<Rightarrow> - 1 | Inr u \<Rightarrow> 0) t)"

definition flush_buf_cache :: "pin_env \<Rightarrow> nat \<Rightarrow> u64 \<Rightarrow> u64 \<Rightarrow> kstate \<Rightarrow> (int, kstate) outcome" where
  "flush_buf_cache ev fd cp h s =
     obind (write_cmd ev fd cp \<lparr>cmd = PINNER_FLUSH, usr_buf = 0, usr_buf_sz = 0,
              handle_ptr = h, physlist_ptr = 0\<rparr> s)
       (\<lambda>r t. Ok (case r of Inl e \<Rightarrow> - 1 | Inr u \<Rightarrow> 0) t)"

text \<open>The success path has no return statement: its value is undefined (\<open>None\<close>).\<close>

definition unpin_buf :: "pin_env \<Rightarrow> nat \<Rightarrow> u64 \<Rightarrow> u64 \<Rightarrow> kstate \<Rightarrow> (int option, kstate) outcome" where
  "unpin_buf ev fd cp h s =
     obind (write_cmd ev fd cp \<lparr>cmd = PINNER_UNPIN, usr_buf = 0, usr_buf_sz = 0,
              handle_ptr = h, physlist_ptr = 0\<rparr> s)
       (\<lambda>r t. Ok (case r of Inl e \<Rightarrow> Some (- 1) | Inr u \<Rightarrow> None) t)"

section \<open>Descriptors\<close>

text \<open>The fields the program writes; \<open>sd_len\<close> has 26 bits.\<close>

record sg_entry =
  sd_next_lsb :: u32
  sd_next_msb :: u32
  sd_buffer_lsb :: u32
  sd_buffer_msb :: u32
  sd_sof :: bool
  sd_eof :: bool
  sd_len :: nat

text \<open>The descriptors of the buffer, by byte offset; the fields written end at byte 28.\<close>

type_synonym sg_mem = "nat \<rightharpoonup> sg_entry"

definition low_word :: "u64 \<Rightarrow> u32" where
  "low_word a = ucast (a AND 0xFFFFFFFF)"

definition high_word :: "u64 \<Rightarrow> u32" where
  "high_word a = ucast (drop_bit 32 a AND 0xFFFFFFFF)"

fun write_sg_loop :: "nat \<Rightarrow> u64 \<Rightarrow> physlist_entry list \<Rightarrow> physlist_entry list \<Rightarrow> nat \<Rightarrow> nat \<Rightarrow> sg_mem \<Rightarrow>
    (unit, sg_mem) outcome" where
  "write_sg_loop bytes base sg_plist plist 0 i m = Ok () m"
| "write_sg_loop bytes base sg_plist plist (Suc n) i m =
     (if bytes < 128 * i + 28 then Fault OutOfBounds
      else
        let next_phys = virt_to_phys (base + of_nat (128 * (i + 1))) base sg_plist;
            e = plist ! i in
        write_sg_loop bytes base sg_plist plist n (i + 1)
          (m(128 * i \<mapsto> \<lparr>sd_next_lsb = low_word next_phys, sd_next_msb = high_word next_phys,
             sd_buffer_lsb = low_word (pe_addr e), sd_buffer_msb = high_word (pe_addr e),
             sd_sof = (i = 0), sd_eof = (i = length plist - 1),
             sd_len = unat (take_bit 26 (pe_len e))\<rparr>)))"

text \<open>\<open>bytes\<close> is the size of the descriptor buffer at \<open>base\<close>.\<close>

definition write_physlist_sg :: "nat \<Rightarrow> u64 \<Rightarrow> physlist_entry list \<Rightarrow> physlist_entry list \<Rightarrow> sg_mem \<Rightarrow>
    (unit, sg_mem) outcome" where
  "write_physlist_sg bytes base sg_plist plist m =
     write_sg_loop bytes base sg_plist plist (length plist) 0 m"

section \<open>What the engine sees\<close>

definition of_words :: "u32 \<Rightarrow> u32 \<Rightarrow> u64" where
  "of_words msb lsb = push_bit 32 (ucast msb) OR ucast lsb"

text \<open>
  The engine starts at a physical address and follows the next pointers up to the
  descriptor with eof; the buffer's pages are contiguous from \<open>phys\<close> on.
\<close>

fun walk :: "sg_mem \<Rightarrow> u64 \<Rightarrow> nat \<Rightarrow> u64 \<Rightarrow> (u64 \<times> nat) list option" where
  "walk m phys 0 p = None"
| "walk m phys (Suc n) p =
     (case m (unat (p - phys)) of
        None \<Rightarrow> None
      | Some d \<Rightarrow>
          let e = (of_words (sd_buffer_msb d) (sd_buffer_lsb d), sd_len d) in
          if sd_eof d then Some [e]
          else map_option (\<lambda>es. e # es) (walk m phys n (of_words (sd_next_msb d) (sd_next_lsb d))))"

lemma of_words_split: "of_words (high_word a) (low_word a) = a"
proof (rule bit_word_eqI)
  fix n assume n: "n < LENGTH(64)"
  have m: "(0xFFFFFFFF :: u64) = mask 32" by (simp add: mask_eq_exp_minus_1)
  show "bit (of_words (high_word a) (low_word a)) n = bit a n"
    unfolding of_words_def high_word_def low_word_def m using n
    by (cases "n < 32") (auto simp: bit_simps)
qed

text \<open>With the descriptors in one contiguous block, offsets translate to offsets.\<close>

lemma virt_to_phys_block:
  assumes "k < unat len" and "unat len < 2 ^ 32"
  shows "virt_to_phys (base + of_nat k) base [\<lparr>pe_addr = A, pe_len = len\<rparr>] = A + of_nat k"
proof -
  have k: "k < 2 ^ 32" using assms by linarith
  have "(ucast (of_nat k :: u64) :: u32) = of_nat k" by (rule ucast_of_nat_64_32)
  moreover have "\<not> len \<le> (of_nat k :: u32)"
    using assms(1) k by (simp add: word_le_nat_alt unat_of_nat_u32)
  moreover have "(ucast (of_nat k :: u32) :: u64) = of_nat k" using k by (simp add: ucast_of_nat_32_64)
  ultimately show ?thesis by (simp add: virt_to_phys_def)
qed

definition desc_ok :: "u64 \<Rightarrow> physlist_entry list \<Rightarrow> nat \<Rightarrow> sg_entry \<Rightarrow> bool" where
  "desc_ok A plist i d \<longleftrightarrow>
     of_words (sd_buffer_msb d) (sd_buffer_lsb d) = pe_addr (plist ! i) \<and>
     sd_len d = unat (take_bit 26 (pe_len (plist ! i))) \<and>
     sd_sof d = (i = 0) \<and> sd_eof d = (i = length plist - 1) \<and>
     (i + 1 < length plist \<longrightarrow> of_words (sd_next_msb d) (sd_next_lsb d) = A + of_nat (128 * (i + 1)))"

lemma write_sg_loop_ok:
  assumes "128 * length plist \<le> bytes" and "bytes < 2 ^ 32" and "i + n = length plist"
    and "\<forall>j < i. \<exists>d. m (128 * j) = Some d \<and> desc_ok A plist j d"
  shows "\<exists>m'. write_sg_loop bytes base [\<lparr>pe_addr = A, pe_len = of_nat bytes\<rparr>] plist n i m = Ok () m' \<and>
     (\<forall>j < length plist. \<exists>d. m' (128 * j) = Some d \<and> desc_ok A plist j d)"
  using assms(3,4)
proof (induction n arbitrary: i m)
  case 0
  then show ?case by simp
next
  case (Suc n)
  let ?sg = "[\<lparr>pe_addr = A, pe_len = of_nat bytes\<rparr>] :: physlist_entry list"
  let ?next = "virt_to_phys (base + of_nat (128 * (i + 1))) base ?sg"
  let ?e = "plist ! i"
  let ?d = "\<lparr>sd_next_lsb = low_word ?next, sd_next_msb = high_word ?next,
     sd_buffer_lsb = low_word (pe_addr ?e), sd_buffer_msb = high_word (pe_addr ?e),
     sd_sof = (i = 0), sd_eof = (i = length plist - 1), sd_len = unat (take_bit 26 (pe_len ?e))\<rparr>"
  have fits: "\<not> bytes < 128 * i + 28" using assms(1) Suc.prems(1) by simp
  have ub: "unat (of_nat bytes :: u32) = bytes" using assms(2) by (simp add: unat_of_nat_u32)
  have "i + 1 < length plist \<Longrightarrow> ?next = A + of_nat (128 * (i + 1))"
    using assms(1,2) by (intro virt_to_phys_block) (simp_all add: ub)
  then have d: "desc_ok A plist i ?d" by (simp add: desc_ok_def of_words_split del: of_nat_mult of_nat_add)
  have "\<forall>j < i + 1. \<exists>d. (m(128 * i \<mapsto> ?d)) (128 * j) = Some d \<and> desc_ok A plist j d"
    using Suc.prems(2) d by (auto simp: less_Suc_eq)
  moreover have "i + 1 + n = length plist" using Suc.prems(1) by simp
  ultimately obtain m' where
    m': "write_sg_loop bytes base ?sg plist n (i + 1) (m(128 * i \<mapsto> ?d)) = Ok () m'"
    "\<forall>j < length plist. \<exists>d. m' (128 * j) = Some d \<and> desc_ok A plist j d"
    using Suc.IH by blast
  have step: "write_sg_loop bytes base ?sg plist (Suc n) i m =
      write_sg_loop bytes base ?sg plist n (i + 1) (m(128 * i \<mapsto> ?d))"
    using fits by (simp only: write_sg_loop.simps Let_def if_False)
  show ?case unfolding step using m' by (intro exI [of _ m'] conjI)
qed

lemma walk_from:
  assumes "\<forall>j < length plist. \<exists>d. m (128 * j) = Some d \<and> desc_ok A plist j d"
    and "128 * length plist < 2 ^ 32" and "i < length plist" and "length plist - i \<le> n"
  shows "walk m A n (A + of_nat (128 * i)) =
    Some (map (\<lambda>e. (pe_addr e, unat (take_bit 26 (pe_len e)))) (drop i plist))"
  using assms(3,4)
proof (induction n arbitrary: i)
  case (Suc n)
  obtain d where d: "m (128 * i) = Some d" "desc_ok A plist i d" using assms(1) Suc.prems(1) by blast
  have off: "unat (A + of_nat (128 * i) - A) = 128 * i"
    using assms(2) Suc.prems(1) by (simp add: unat_of_nat_u64 del: of_nat_mult)
  have dr: "drop i plist = plist ! i # drop (i + 1) plist"
    using Suc.prems(1) by (simp add: Cons_nth_drop_Suc)
  show ?case
  proof (cases "i = length plist - 1")
    case True
    then have "drop (i + 1) plist = []" by simp
    with True d show ?thesis unfolding dr walk.simps off by (simp add: desc_ok_def Let_def)
  next
    case False
    then have next_i: "i + 1 < length plist" using Suc.prems(1) by simp
    have "walk m A n (A + of_nat (128 * (i + 1))) =
        Some (map (\<lambda>e. (pe_addr e, unat (take_bit 26 (pe_len e)))) (drop (i + 1) plist))"
      using next_i Suc.prems(2) by (intro Suc.IH) auto
    with False next_i d show ?thesis
      unfolding dr walk.simps off by (simp add: desc_ok_def Let_def del: of_nat_mult of_nat_add)
  qed
qed simp

end
