(* ===== verification/PinnerSpec.thy ===== *)
theory PinnerSpec
  imports PinnerSteps
begin

text \<open>
  What the pinner promises its users, as an abstract specification: a table that gives each
  open file the magic number of its session and the list of its pinned buffers, each a magic
  number and a list of pages. The file operations of the driver refine the operations on the
  table.
\<close>

section \<open>The abstract table\<close>

type_synonym pin_table = "nat \<rightharpoonup> u32 \<times> (u32 \<times> page list) list"

fun drop_magic :: "u32 \<Rightarrow> (u32 \<times> page list) list \<Rightarrow> (u32 \<times> page list) list" where
  "drop_magic m [] = []"
| "drop_magic m (b # bs) = (if fst b = m then bs else b # drop_magic m bs)"

definition spec_pin :: "nat \<Rightarrow> u32 \<Rightarrow> page list \<Rightarrow> pin_table \<Rightarrow> pin_table" where
  "spec_pin f m pgs T = (case T f of None \<Rightarrow> T | Some (u, bs) \<Rightarrow> T(f \<mapsto> (u, (m, pgs) # bs)))"

definition spec_unpin :: "nat \<Rightarrow> u32 \<Rightarrow> pin_table \<Rightarrow> pin_table" where
  "spec_unpin f m T = (case T f of None \<Rightarrow> T | Some (u, bs) \<Rightarrow> T(f \<mapsto> (u, drop_magic m bs)))"

section \<open>Operations of both levels\<close>

datatype pin_op =
  POpen "kptr option" u32 nat
| PWrite pin_env nat u64 u64
| PRelease nat
| PStore user_mem

fun run_op :: "pin_op \<Rightarrow> kstate \<Rightarrow> (rc, kstate) outcome" where
  "run_op (POpen a magic f) s = pinner_open a magic f s"
| "run_op (PWrite ev f buf sz) s = pinner_write ev f buf sz s"
| "run_op (PRelease f) s =
     obind (pinner_release f s) (\<lambda>r t. Ok r (t\<lparr>k_private := (k_private t)(f := None)\<rparr>))"
| "run_op (PStore m) s = Ok (Inr ()) (s\<lparr>k_umem := m\<rparr>)"

fun op_ok :: "pin_op \<Rightarrow> kstate \<Rightarrow> bool" where
  "op_ok (POpen a magic f) s \<longleftrightarrow> k_private s f = None \<and> (\<forall>x. a = Some x \<longrightarrow> x \<notin># k_live s)"
| "op_ok (PWrite ev f buf sz) s \<longleftrightarrow> k_private s f \<noteq> None \<and> write_env_ok ev buf s"
| "op_ok (PRelease f) s \<longleftrightarrow> k_private s f \<noteq> None"
| "op_ok (PStore m) s \<longleftrightarrow> True"

text \<open>
  The effect on the table of an operation that returned \<open>r\<close>, in the user memory \<open>m\<close> it
  found: one that returned an error has none.
\<close>

definition spec_write :: "pin_env \<Rightarrow> nat \<Rightarrow> pinner_cmd \<Rightarrow> user_mem \<Rightarrow> pin_table \<Rightarrow> pin_table" where
  "spec_write ev f c m T =
     (if cmd c = PINNER_PIN then
        (case ev_gup ev of Inl e \<Rightarrow> T | Inr pgs \<Rightarrow> spec_pin f (ev_magic ev) pgs T)
      else if cmd c = PINNER_UNPIN then
        (case um_handles m (handle_ptr c) of None \<Rightarrow> T | Some h \<Rightarrow> spec_unpin f (pin_magic h) T)
      else T)"

fun spec_op :: "pin_op \<Rightarrow> user_mem \<Rightarrow> rc \<Rightarrow> pin_table \<Rightarrow> pin_table" where
  "spec_op x m (Inl e) T = T"
| "spec_op (POpen a magic f) m (Inr u) T = T(f \<mapsto> (magic, []))"
| "spec_op (PWrite ev f buf sz) m (Inr u) T =
     (case um_cmds m buf of None \<Rightarrow> T | Some c \<Rightarrow> spec_write ev f c m T)"
| "spec_op (PRelease f) m (Inr u) T = T(f := None)"
| "spec_op (PStore m') m (Inr u) T = T"

section \<open>The abstraction\<close>

definition pages_list :: "pinning \<Rightarrow> page list" where
  "pages_list p = (case sglist p of None \<Rightarrow> [] | Some (a, l) \<Rightarrow> map sg_pg (take (num_sg_ents p) l))"

abbreviation buffer_of :: "pinning \<Rightarrow> u32 \<times> page list" where
  "buffer_of p \<equiv> (p_magic p, pages_list p)"

definition session_of :: "proc_info \<Rightarrow> u32 \<times> (u32 \<times> page list) list" where
  "session_of i = (pi_magic i, map buffer_of (pinning_list i))"

definition table_of :: "kstate \<Rightarrow> pin_table" where
  "table_of s f =
     (case k_private s f of None \<Rightarrow> None | Some ia \<Rightarrow> map_option session_of (find_info ia s))"

lemma table_of_same: "k_users t = k_users s \<Longrightarrow> k_private t = k_private s \<Longrightarrow> table_of t = table_of s"
  by (rule ext) (simp add: table_of_def find_info_def split: option.split)

lemma table_of_loaded: "loaded B s \<Longrightarrow> table_of s = Map.empty"
  by (rule ext) (simp add: table_of_def loaded_def)

text \<open>A change of one proc_info changes the entry of its file only.\<close>

lemma table_of_upd:
  assumes "pinner_inv B s" and "k_private s f = Some ia" and "k_private t = k_private s"
    and "\<And>ja. ja \<noteq> ia \<Longrightarrow> find_info ja t = find_info ja s" and "find_info ia t = Some i"
  shows "table_of t = (table_of s)(f \<mapsto> session_of i)"
proof
  fix g
  have "ja \<noteq> ia" if "g \<noteq> f" "k_private s g = Some ja" for ja
    using assms(1,2) that by (auto simp: pinner_inv_def inj_on_def dom_def)
  then show "table_of t g = ((table_of s)(f \<mapsto> session_of i)) g"
    using assms(2-5) by (auto simp: table_of_def split: option.split)
qed

section \<open>What the operations do to the other processes\<close>

lemma find_info_del_other:
  assumes "owns B s" and "find_info ia s = Some info" and "p \<in> set (pinning_list info)" and "ja \<noteq> ia"
  shows "find_info ja (without_pinning p s) = find_info ja s"
proof (cases "find_info ja s")
  case (Some j)
  have "filter (\<lambda>q. p_addr q \<noteq> p_addr p) (pinning_list j) = pinning_list j"
    using pinning_elsewhere [OF assms(1-3), of j] find_info_SomeD [OF Some] assms(4)
    by (auto simp: filter_id_conv)
  then show ?thesis by (simp add: find_info_del Some)
qed (simp add: find_info_del)

lemma find_info_link_other:
  "ja \<noteq> ia \<Longrightarrow> find (\<lambda>i. pi_addr i = ja) (link_pinning ia p us) = find (\<lambda>i. pi_addr i = ja) us"
  by (induction us) (auto simp: link_pinning_def)

lemma free_pinnings_other:
  assumes "owns B s" and "find_info ia s = Some info" and "ja \<noteq> ia"
    and "pinner_free_pinnings ia s = Ok u t"
  shows "find_info ja t = find_info ja s"
  using assms
proof (induction "pinning_list info" arbitrary: s info)
  case Nil
  then show ?case by (auto simp: pinner_free_pinnings.simps [of ia s] split: list.splits)
next
  case (Cons p ps)
  from Cons.hyps(2) have ps: "pinning_list info = p # ps" by simp
  note head = head_pinning [OF Cons.prems(1,2) ps]
  note free = owns_free [OF Cons.prems(1) head(1)]
  have "pinner_free_pinnings ia (without_pinning p s) = Ok u t"
    using Cons.prems(2,4) free(1) by (simp add: pinner_free_pinnings.simps [of ia s] ps)
  from Cons.hyps(1) [OF _ free(2) head(2) Cons.prems(3) this]
  have "find_info ja t = find_info ja (without_pinning p s)" by simp
  also have "\<dots> = find_info ja s"
    by (rule find_info_del_other [OF Cons.prems(1,2) _ Cons.prems(3)]) (simp add: ps)
  finally show ?case .
qed

lemma free_proc_info_other:
  assumes "owns B s" and "find_info ia s = Some info" and "ja \<noteq> ia"
    and "pinner_free_proc_info ia s = Ok u t"
  shows "find_info ja t = find_info ja s"
proof -
  from assms(4) obtain v s' where free: "pinner_free_pinnings ia s = Ok v s'"
    and users: "k_users t = filter (\<lambda>i. pi_addr i \<noteq> ia) (k_users s')"
    by (auto simp: pinner_free_proc_info_def elim!: obind_Ok_E dest!: kfree_users)
  have skip: "find (\<lambda>i. pi_addr i = ja) (filter (\<lambda>i. pi_addr i \<noteq> ia) us) = find (\<lambda>i. pi_addr i = ja) us" for us
    using assms(3) by (induction us) auto
  have "find_info ja t = find_info ja s'"
    unfolding find_info_def users by (rule skip)
  with free_pinnings_other [OF assms(1-3) free] show ?thesis by simp
qed

section \<open>Each operation against the table\<close>

lemma open_refines:
  assumes inv: "pinner_inv B s" and f: "k_private s f = None" and fresh: "\<forall>x. a = Some x \<longrightarrow> x \<notin># k_live s"
    and run: "pinner_open a magic f s = Ok r t"
  shows "table_of t = spec_op (POpen a magic f) m r (table_of s)"
proof (cases a)
  case None
  with run show ?thesis by (auto simp: pinner_open_def)
next
  case (Some x)
  have own: "owns B s" using inv by (simp add: pinner_inv_def)
  have "x \<notin># user_addrs (k_users s)"
    using not_live_not_owned [OF own] fresh Some by simp
  then have "x \<notin> pi_addr ` set (k_users s)" by (auto simp: user_addrs_def)
  then have "x \<notin> ran (k_private s)" using inv by (simp add: pinner_inv_def)
  then have "k_private s g \<noteq> Some x" for g by (auto simp: ran_def)
  then show ?thesis
    using run Some f
    by (auto simp: pinner_open_def kalloc_def table_of_def fun_eq_iff find_info_def session_of_def
        split: option.split if_splits)
qed

lemma release_refines:
  assumes inv: "pinner_inv B s" and f: "k_private s f = Some ia" and run: "pinner_release f s = Ok r t"
  shows "table_of (t\<lparr>k_private := (k_private t)(f := None)\<rparr>) = spec_op (PRelease f) m r (table_of s)"
proof -
  obtain info where info: "find_info ia s = Some info" using private_info [OF inv f] by blast
  have own: "owns B s" using inv by (simp add: pinner_inv_def)
  from owns_free_proc_info [OF own info] obtain u where
    u: "pinner_free_proc_info ia s = Ok () u" "k_private u = k_private s" by blast
  then have t: "t = u" "r = Inr ()" using run f by (auto simp: pinner_release_def)
  have "ja \<noteq> ia" if "k_private s g = Some ja" "g \<noteq> f" for g ja
    using inv f that by (auto simp: pinner_inv_def inj_on_def dom_def)
  then have "find_info ja u = find_info ja s" if "k_private s g = Some ja" "g \<noteq> f" for g ja
    using free_proc_info_other [OF own info _ u(1)] that by blast
  then show ?thesis
    using t u(2) by (auto simp: table_of_def fun_eq_iff find_info_def split: option.split)
qed

text \<open>The search by magic and the removal by address take the same pinning off the list.\<close>

lemma drop_magic_find:
  assumes "find (\<lambda>q. m = p_magic q) ps = Some p" and "uniq (addrs_of (mset ps))"
  shows "map buffer_of (filter (\<lambda>q. p_addr q \<noteq> p_addr p) ps) = drop_magic m (map buffer_of ps)"
  using assms
proof (induction ps)
  case (Cons q ps)
  show ?case
  proof (cases "m = p_magic q")
    case True
    have "p_addr q \<notin># addrs_of (mset ps)"
      using Cons.prems(2) by (auto simp: pin_addrs_def)
    then have "\<forall>x \<in> set ps. p_addr x \<noteq> p_addr q"
      by (metis p_addr_in_addrs_of set_mset_mset)
    then have "filter (\<lambda>x. p_addr x \<noteq> p_addr q) ps = ps" by (simp add: filter_id_conv)
    then show ?thesis using True Cons.prems(1) by simp
  next
    case False
    then have p: "find (\<lambda>q. m = p_magic q) ps = Some p" using Cons.prems(1) by simp
    then have "p \<in># mset ps" by (auto simp: find_Some_iff)
    then have "p_addr p \<in># addrs_of (mset ps)" by (rule p_addr_in_addrs_of)
    then have "p_addr q \<noteq> p_addr p" using Cons.prems(2) by (auto simp: pin_addrs_def)
    then show ?thesis using Cons.IH [OF p] Cons.prems(2) False by (auto dest: uniq_plusD)
  qed
qed simp

lemma magic_found: "m \<in> fst ` set (map buffer_of ps) \<longleftrightarrow> (\<exists>p. find (\<lambda>q. m = p_magic q) ps = Some p)"
  by (induction ps) auto

lemma pin_refines:
  assumes inv: "pinner_inv B s" and f: "k_private s f = Some ia" and env: "env_ok ev c s"
    and c: "cmd c = PINNER_PIN" and run: "pinner_do_pin ev c ia s = Ok r t"
  shows "table_of t = (case r of Inl e \<Rightarrow> table_of s | Inr u \<Rightarrow> spec_write ev f c m (table_of s))"
proof -
  obtain info where info: "find_info ia s = Some info" using private_info [OF inv f] by blast
  have own: "owns B s" using inv by (simp add: pinner_inv_def)
  from do_pin_run [OF own info env] run have post: "pin_post B ev c ia info s r t" by auto
  show ?thesis
  proof (cases r)
    case (Inl e)
    with post have "table_of t = table_of s"
      by (intro table_of_same) (auto simp: pin_post_def pin_failed_def)
    with Inl show ?thesis by simp
  next
    case (Inr u)
    with post obtain a b sa pgs where gup: "ev_gup ev = Inr pgs"
      and len: "int (length pgs) = num_pages_of (usr_buf c) (usr_buf_sz c)"
      and pin: "pin_done ev c ia (pi_magic info)
            (new_pinning b (length pgs) sa (pin_sglist ev c pgs)) a sa (pin_sglist ev c pgs) s t"
      by (auto simp: pin_post_def)
    let ?l = "pin_sglist ev c pgs"
    let ?p = "published ev (new_pinning b (length pgs) sa ?l) sa ?l"
    have pages: "map sg_pg (snd (ev_dma_map ev ?l)) = pgs"
      using env pin_sglist_pages [OF len] by (simp add: env_ok_def)
    then have "length (snd (ev_dma_map ev ?l)) = length pgs" by (metis length_map)
    then have buf: "buffer_of ?p = (ev_magic ev, pgs)"
      using pages by (simp add: pages_list_def published_def new_pinning_def)
    have "table_of t = (table_of s)(f \<mapsto> session_of (info\<lparr>pinning_list := ?p # pinning_list info\<rparr>))"
    proof (rule table_of_upd [OF inv f])
      show "find_info ia t = Some (info\<lparr>pinning_list := ?p # pinning_list info\<rparr>)"
        using find_info_link [OF info] pin by (simp add: pin_done_def find_info_def)
      show "find_info ja t = find_info ja s" if "ja \<noteq> ia" for ja
        using find_info_link_other [OF that] pin by (simp add: pin_done_def find_info_def)
    qed (use pin in \<open>simp add: pin_done_def\<close>)
    then show ?thesis
      using Inr info f gup c buf by (simp add: spec_write_def spec_pin_def table_of_def session_of_def)
  qed
qed

lemma unpin_refines:
  assumes inv: "pinner_inv B s" and f: "k_private s f = Some ia"
    and c: "cmd c = PINNER_UNPIN" and run: "pinner_do_unpin c ia s = Ok r t"
  shows "table_of t = (case r of Inl e \<Rightarrow> table_of s
      | Inr u \<Rightarrow> spec_write ev f c (k_umem s) (table_of s))"
proof -
  obtain info where info: "find_info ia s = Some info" using private_info [OF inv f] by blast
  have own: "owns B s" using inv by (simp add: pinner_inv_def)
  show ?thesis
  proof (cases r)
    case (Inl e)
    with do_unpin_run [OF own info, of c] run show ?thesis by auto
  next
    case (Inr u)
    with do_unpin_run [OF own info, of c] run obtain h p where
      h: "um_handles (k_umem s) (handle_ptr c) = Some h" "find_pinning (pin_magic h) info = Some p"
        "t = without_pinning p s" by auto
    have p: "p \<in> set (pinning_list info)" using h(2) by (auto simp: find_pinning_def find_Some_iff)
    have "mset (pinning_list info) \<subseteq># user_pins (k_users s)"
      using find_info_SomeD [OF info] by (simp add: user_pins_in)
    then obtain N where N: "user_pins (k_users s) = mset (pinning_list info) + N"
      by (auto simp: subset_mset.le_iff_add)
    have "uniq (addrs_of (user_pins (k_users s)))"
      using own by (auto simp: owns_def user_addrs_def dest: uniq_plusD)
    then have "uniq (addrs_of (mset (pinning_list info)))"
      unfolding N addrs_of_plus by (rule uniq_plusD)
    note drop = drop_magic_find [OF h(2) [unfolded find_pinning_def] this]
    have "table_of t = (table_of s)(f \<mapsto> session_of (info\<lparr>pinning_list :=
        filter (\<lambda>q. p_addr q \<noteq> p_addr p) (pinning_list info)\<rparr>))"
      by (rule table_of_upd [OF inv f])
        (simp_all add: h(3) find_info_del_other [OF own info p], simp add: find_info_del info)
    then show ?thesis
      using Inr info f h(1) c drop
      by (simp add: spec_write_def spec_unpin_def table_of_def session_of_def PINNER_PIN_def PINNER_UNPIN_def)
  qed
qed

lemma write_refines:
  assumes inv: "pinner_inv B s" and f: "k_private s f = Some ia" and env: "write_env_ok ev buf s"
    and run: "pinner_write ev f buf sz s = Ok r t"
  shows "table_of t = spec_op (PWrite ev f buf sz) (k_umem s) r (table_of s)"
proof (cases "sz = sizeof_pinner_cmd \<and> um_cmds (k_umem s) buf \<noteq> None")
  case False
  with run have "t = s" "\<exists>e. r = Inl e" by (auto simp: pinner_write_def split: option.splits if_splits)
  then show ?thesis by auto
next
  case True
  then obtain c where c: "um_cmds (k_umem s) buf = Some c" "sz = sizeof_pinner_cmd" by auto
  consider "cmd c = PINNER_PIN" | "cmd c = PINNER_UNPIN"
    | "cmd c = PINNER_FLUSH" | "cmd c \<notin> {PINNER_PIN, PINNER_UNPIN, PINNER_FLUSH}" by blast
  then show ?thesis
  proof cases
    case 1
    have "env_ok ev c s" using env c(1) 1 by (simp add: write_env_ok_def)
    moreover have "pinner_do_pin ev c ia s = Ok r t" using run f c 1 by (simp add: pinner_write_def)
    ultimately show ?thesis using pin_refines [OF inv f _ 1, of ev r t "k_umem s"] c(1) by (cases r) simp_all
  next
    case 2
    have "pinner_do_unpin c ia s = Ok r t"
      using run f c 2 by (simp add: pinner_write_def PINNER_PIN_def PINNER_UNPIN_def)
    then show ?thesis using unpin_refines [OF inv f 2, of r t] c(1) by (cases r) simp_all
  next
    case 3
    obtain info where info: "find_info ia s = Some info" using private_info [OF inv f] by blast
    have "pinner_do_flush c ia s = Ok r t"
      using run f c 3 by (simp add: pinner_write_def PINNER_PIN_def PINNER_UNPIN_def PINNER_FLUSH_def)
    with do_flush_run [OF info, of c] have "table_of t = table_of s"
      by (auto intro: table_of_same)
    then show ?thesis
      using 3 c(1) by (cases r) (auto simp: spec_write_def PINNER_PIN_def PINNER_UNPIN_def PINNER_FLUSH_def)
  next
    case 4
    then have "t = s" "r = Inl ENOSYS" using run f c by (simp_all add: pinner_write_def)
    then show ?thesis by simp
  qed
qed

section \<open>Runs\<close>

text \<open>Both levels run the same operations. The log of the driver's run has, for each operation, the
  user memory it found and what it returned.\<close>

fun run_ops :: "pin_op list \<Rightarrow> kstate \<Rightarrow> ((user_mem \<times> rc) list, kstate) outcome" where
  "run_ops [] s = Ok [] s"
| "run_ops (x # xs) s =
     obind (run_op x s) (\<lambda>r t. obind (run_ops xs t) (\<lambda>lg u. Ok ((k_umem s, r) # lg) u))"

fun ops_ok :: "pin_op list \<Rightarrow> kstate \<Rightarrow> bool" where
  "ops_ok [] s \<longleftrightarrow> True"
| "ops_ok (x # xs) s \<longleftrightarrow> op_ok x s \<and> (case run_op x s of Ok r t \<Rightarrow> ops_ok xs t | Fault e \<Rightarrow> True)"

fun spec_ops :: "pin_op list \<Rightarrow> (user_mem \<times> rc) list \<Rightarrow> pin_table \<Rightarrow> pin_table" where
  "spec_ops (x # xs) ((m, r) # lg) T = spec_ops xs lg (spec_op x m r T)"
| "spec_ops xs lg T = T"

lemma op_refines:
  assumes inv: "pinner_inv B s" and ok: "op_ok x s" and run: "run_op x s = Ok r t"
  shows "table_of t = spec_op x (k_umem s) r (table_of s) \<and> pinner_step s t"
proof (cases x)
  case (POpen a magic f)
  with ok run have "pinner_step s t" by (auto intro: opened)
  with open_refines [OF inv, of f a magic r t "k_umem s"] POpen ok run show ?thesis by auto
next
  case (PWrite ev f buf sz)
  with ok obtain ia where ia: "k_private s f = Some ia" by auto
  from PWrite ok run have "pinner_step s t" by (auto intro: written)
  with write_refines [OF inv ia, of ev buf sz r t] PWrite ok run show ?thesis by auto
next
  case (PRelease f)
  with ok obtain ia where ia: "k_private s f = Some ia" by auto
  from PRelease run obtain u where u: "pinner_release f s = Ok r u"
    "t = u\<lparr>k_private := (k_private u)(f := None)\<rparr>" by (auto elim!: obind_Ok_E)
  with ia have "pinner_step s t" by (auto intro: released)
  with release_refines [OF inv ia u(1)] PRelease u(2) show ?thesis by auto
next
  case (PStore m)
  with run have "t = s\<lparr>k_umem := m\<rparr>" "r = Inr ()" by auto
  with PStore show ?thesis by (auto intro: user_store table_of_same)
qed

lemma ops_refine:
  assumes "reachable B s" and "ops_ok xs s" and "run_ops xs s = Ok lg t"
  shows "reachable B t \<and> table_of t = spec_ops xs lg (table_of s)"
  using assms
proof (induction xs arbitrary: s lg)
  case (Cons x xs)
  from Cons.prems(3) obtain r u lg' where u: "run_op x s = Ok r u" "run_ops xs u = Ok lg' t"
    "lg = (k_umem s, r) # lg'" by (auto elim!: obind_Ok_E)
  have x: "op_ok x s" "ops_ok xs u" using Cons.prems(2) u(1) by simp_all
  note one = op_refines [OF reachable_inv [OF Cons.prems(1)] x(1) u(1)]
  then have "reachable B u" using Cons.prems(1) by (auto intro: reachable.step)
  from Cons.IH [OF this x(2) u(2)] one show ?case by (simp add: u(3))
qed simp

section \<open>The pages of the table\<close>

definition session_pages :: "u32 \<times> (u32 \<times> page list) list \<Rightarrow> page multiset" where
  "session_pages se = mset (concat (map snd (snd se)))"

definition table_pages :: "pin_table \<Rightarrow> page multiset" where
  "table_pages T = (\<Sum>f \<in> dom T. session_pages (the (T f)))"

lemma pages_of_session: "pages_of (mset (pinning_list i)) = session_pages (session_of i)"
proof -
  have "pages_of (mset ps) = mset (concat (map pages_list ps))" for ps
    by (induction ps) (auto simp: pin_pages_def pages_list_def split: option.split)
  then show ?thesis by (simp add: session_pages_def session_of_def comp_def)
qed

lemma pages_of_users: "pages_of (user_pins us) = (\<Sum>i \<leftarrow> us. session_pages (session_of i))"
  by (induction us) (simp_all add: pages_of_plus pages_of_session)

lemma find_addr:
  "uniq (mset (map pi_addr us)) \<Longrightarrow> i \<in> set us \<Longrightarrow> find (\<lambda>j. pi_addr j = pi_addr i) us = Some i"
  by (induction us) auto

lemma uniq_distinct: "uniq (mset xs) \<Longrightarrow> distinct xs"
  by (induction xs) auto

lemma inj_on_the: "inj_on m (dom m) \<Longrightarrow> inj_on (\<lambda>f. the (m f)) (dom m)"
proof (rule inj_onI)
  fix f g assume inj: "inj_on m (dom m)" and dom: "f \<in> dom m" "g \<in> dom m" and eq: "the (m f) = the (m g)"
  then have "m f = m g" by auto
  then show "f = g" using inj dom by (auto dest: inj_onD)
qed

lemma table_pages_of:
  assumes inv: "pinner_inv B s"
  shows "table_pages (table_of s) = pages_of (user_pins (k_users s))"
proof -
  let ?us = "k_users s" and ?g = "\<lambda>a. session_pages (session_of (the (find_info a s)))"
  have "uniq (mset (map pi_addr ?us))"
    using inv by (auto simp: pinner_inv_def owns_def user_addrs_def dest: uniq_plusD)
  then have find: "find_info (pi_addr i) s = Some i" if "i \<in> set ?us" for i
    using find_addr [OF _ that] by (simp add: find_info_def)
  have dist: "distinct (map pi_addr ?us)" by (rule uniq_distinct) fact
  have "pages_of (user_pins ?us) = (\<Sum>i \<in> set ?us. ?g (pi_addr i))"
    using dist find by (simp add: pages_of_users distinct_map sum_list_distinct_conv_sum_set)
  also have "\<dots> = (\<Sum>a \<in> pi_addr ` set ?us. ?g a)"
    using dist by (simp add: distinct_map sum.reindex)
  also have "pi_addr ` set ?us = (\<lambda>f. the (k_private s f)) ` dom (k_private s)"
    using inv by (force simp: pinner_inv_def ran_def dom_def image_iff)
  also have "(\<Sum>a \<in> (\<lambda>f. the (k_private s f)) ` dom (k_private s). ?g a) =
      (\<Sum>f \<in> dom (k_private s). ?g (the (k_private s f)))"
  proof (rule sum.reindex [unfolded comp_def])
    show "inj_on (\<lambda>f. the (k_private s f)) (dom (k_private s))"
      by (rule inj_on_the) (use inv in \<open>simp add: pinner_inv_def\<close>)
  qed
  also have "\<dots> = (\<Sum>f \<in> dom (table_of s). session_pages (the (table_of s f)))"
  proof (rule sum.cong)
    have "\<exists>i. find_info ia s = Some i" if "k_private s f = Some ia" for f ia
      by (rule private_info [OF inv that])
    then show "dom (k_private s) = dom (table_of s)"
      by (fastforce simp: table_of_def session_of_def split: option.splits)
    show "?g (the (k_private s f)) = session_pages (the (table_of s f))" if "f \<in> dom (table_of s)" for f
      using that by (auto simp: table_of_def split: option.splits)
  qed
  finally show ?thesis by (simp add: table_pages_def)
qed

section \<open>Closing every file\<close>

lemma close_files:
  assumes "reachable B s" and "distinct fs" and "set fs = dom (k_private s)"
  shows "\<exists>lg t. run_ops (map PRelease fs) s = Ok lg t \<and> snd ` set lg \<subseteq> {Inr ()} \<and>
     reachable B t \<and> k_private t = Map.empty"
  using assms
proof (induction fs arbitrary: s)
  case (Cons f fs)
  have "f \<in> dom (k_private s)" using Cons.prems(3) by (metis list.set_intros(1))
  then obtain ia where ia: "k_private s f = Some ia" by auto
  from release_run [OF reachable_inv [OF Cons.prems(1)] ia] obtain t where
    t: "pinner_release f s = Ok (Inr ()) t" by blast
  have priv: "k_private t = k_private s"
  proof -
    have "pinner_free_proc_info ia s = Ok () t"
      using t ia by (auto simp: pinner_release_def elim!: obind_Ok_E)
    moreover obtain info where "find_info ia s = Some info"
      using private_info [OF reachable_inv [OF Cons.prems(1)] ia] by blast
    ultimately show ?thesis
      using owns_free_proc_info [of B s ia] reachable_inv [OF Cons.prems(1)] by (auto simp: pinner_inv_def)
  qed
  let ?t = "t\<lparr>k_private := (k_private t)(f := None)\<rparr>"
  have "reachable B ?t"
    by (rule reachable.step [OF Cons.prems(1) released [OF _ t]]) (simp add: ia)
  moreover have "distinct fs" using Cons.prems(2) by simp
  moreover have "set fs = dom (k_private ?t)"
    using Cons.prems(2) unfolding priv by (simp flip: Cons.prems(3))
  ultimately have "\<exists>lg u. run_ops (map PRelease fs) ?t = Ok lg u \<and> snd ` set lg \<subseteq> {Inr ()} \<and>
      reachable B u \<and> k_private u = Map.empty" by (rule Cons.IH)
  with t show ?case by auto
qed auto

end
