(* ===== verification/PinDevice.thy ===== *)
theory PinDevice
  imports UserDesc PinnerSpec
begin

text \<open>
  What a user program relies on when it issues commands through an open pinner file, as an
  interface: the commands as they are written to the file, their effect on the abstract table,
  and the user memory they write. The driver's model provides it.
\<close>

section \<open>Which user memory a command writes\<close>

lemma put_page_umem: "put_page pg s = Ok u t \<Longrightarrow> k_umem t = k_umem s"
  by (auto simp: put_page_Ok)

lemma kfree_umem: "kfree a s = Ok u t \<Longrightarrow> k_umem t = k_umem s"
  by (auto simp: kfree_Ok split: option.splits)

lemma put_sg_pages_umem: "put_sg_pages l n s = Ok u t \<Longrightarrow> k_umem t = k_umem s"
  by (induction l n s arbitrary: u t rule: put_sg_pages.induct)
     (auto elim!: obind_Ok_E dest: put_page_umem)

lemma put_page_list_umem: "put_page_list l n s = Ok u t \<Longrightarrow> k_umem t = k_umem s"
  by (induction l n s arbitrary: u t rule: put_page_list.induct)
     (auto elim!: obind_Ok_E dest: put_page_umem)

lemma list_del_umem: "list_del_pinning a s = Ok u t \<Longrightarrow> k_umem t = k_umem s"
  by (auto simp: list_del_pinning_def split: if_splits)

lemmas umem_dests = put_page_umem kfree_umem put_sg_pages_umem put_page_list_umem list_del_umem

lemma free_pinning_umem: "pinner_free_pinning p s = Ok u t \<Longrightarrow> k_umem t = k_umem s"
  by (auto simp: pinner_free_pinning_def Let_def pinner_put_sglist_pages_def dma_event_add_def
      split: option.splits elim!: obind_Ok_E dest!: umem_dests)

lemma do_pin_error_umem: "do_pin_error pin p n e s = Ok r t \<Longrightarrow> k_umem t = k_umem s"
  by (auto simp: do_pin_error_def split: option.splits elim!: obind_Ok_E
      dest!: umem_dests free_pinning_umem)

definition umem_frame :: "pinner_cmd \<Rightarrow> user_mem \<Rightarrow> user_mem \<Rightarrow> bool" where
  "umem_frame c m m' \<longleftrightarrow>
     (\<forall>a. a \<noteq> handle_ptr c \<longrightarrow> um_handles m' a = um_handles m a) \<and>
     (\<forall>a. a \<noteq> physlist_ptr c \<longrightarrow> um_counts m' a = um_counts m a) \<and>
     (\<forall>a. a \<noteq> physlist_ptr c + entries_offset \<longrightarrow> um_entries m' a = um_entries m a)"

lemma umem_frame_refl [simp]: "umem_frame c m m"
  by (simp add: umem_frame_def)

lemma send_physlist_frame:
  assumes "pinner_send_physlist ev c p s = Ok r t"
  shows "umem_frame c (k_umem s) (k_umem t) \<and> um_handles (k_umem t) = um_handles (k_umem s)"
  using assms
  by (auto simp: umem_frame_def pinner_send_physlist_def Let_def kalloc_def copy_count_to_user_def
      copy_entries_to_user_def split: option.splits if_splits elim!: obind_Ok_E dest!: kfree_umem)

lemma do_pin_publish_frame:
  assumes "do_pin_publish ev c ia mg n pin s = Ok r t"
  shows "umem_frame c (k_umem s) (k_umem t)"
  using assms
  by (auto simp: do_pin_publish_def Let_def list_add_pinning_def upd_info_def dma_event_add_def
      set_pinning_sglist_def copy_handle_to_user_def umem_frame_def
      split: option.splits prod.splits sum.splits if_splits elim!: obind_Ok_E
      dest!: do_pin_error_umem send_physlist_frame)

lemma do_pin_frame:
  assumes "pinner_do_pin ev c ia s = Ok r t"
  shows "umem_frame c (k_umem s) (k_umem t)"
  using assms
  by (auto simp: pinner_do_pin_def Let_def kalloc_def get_pages_def pinner_alloc_and_fill_sglist_def
      split: option.splits prod.splits sum.splits if_splits
      dest!: do_pin_error_umem dest: do_pin_publish_frame)

lemma write_frame:
  assumes "pinner_write ev f buf sz s = Ok r t" and "um_cmds (k_umem s) buf = Some c"
  shows "umem_frame c (k_umem s) (k_umem t)"
  using assms
  by (auto simp: pinner_write_def pinner_do_unpin_def pinner_do_flush_def dma_event_add_def Let_def
      split: option.splits if_splits elim!: obind_Ok_E dest!: free_pinning_umem intro: do_pin_frame)

lemma put_cmd_simps [simp]:
  "k_private (put_cmd cp c s) = k_private s" "k_users (put_cmd cp c s) = k_users s"
  "k_live (put_cmd cp c s) = k_live s" "pinner_inv B (put_cmd cp c s) = pinner_inv B s"
  "um_cmds (k_umem (put_cmd cp c s)) cp = Some c"
  "um_handles (k_umem (put_cmd cp c s)) = um_handles (k_umem s)"
  by (simp_all add: put_cmd_def)

lemma table_of_put_cmd [simp]: "table_of (put_cmd cp c s) = table_of s"
  by (rule table_of_same) simp_all


section \<open>The interface\<close>

text \<open>
  What a successful pin left in the user's list: the number of entries, and the entries of the
  scatterlist as the DMA mapping left it.
\<close>

definition reported :: "pin_env \<Rightarrow> pinner_cmd \<Rightarrow> page list \<Rightarrow> user_mem \<Rightarrow> bool" where
  "reported ev c pgs m \<longleftrightarrow>
     int (length pgs) = num_pages_of (usr_buf c) (usr_buf_sz c) \<and> length pgs \<le> 1024 \<and>
     um_counts m (physlist_ptr c) = Some (of_nat (length pgs)) \<and>
     (\<exists>rest. um_entries m (physlist_ptr c + entries_offset) =
        Some (map entry_of (snd (ev_dma_map ev (pin_sglist ev c pgs))) @ rest))"

text \<open>Nothing stands in the way of a pin: its size is allowed, and everything it asks for is there.\<close>

definition served :: "pin_env \<Rightarrow> pinner_cmd \<Rightarrow> user_mem \<Rightarrow> bool" where
  "served ev c m \<longleftrightarrow> good_size c \<and> ev_arr ev \<noteq> None \<and> ev_pin ev \<noteq> None \<and> ev_sgl ev \<noteq> None \<and>
     (\<forall>l. \<exists>k. fst (ev_dma_map ev l) = Inr k) \<and> list_accepted ev c m \<and> handle_ptr c \<in> dom (um_handles m)"

locale pin_device =
  fixes ok :: "'s \<Rightarrow> bool"
    and tab :: "'s \<Rightarrow> pin_table"
    and mem :: "'s \<Rightarrow> user_mem"
    and fits :: "pin_env \<Rightarrow> pinner_cmd \<Rightarrow> 's \<Rightarrow> bool"
    and issue :: "pin_env \<Rightarrow> nat \<Rightarrow> pinner_cmd \<Rightarrow> 's \<Rightarrow> (rc, 's) outcome"
  assumes command: "ok s \<Longrightarrow> tab s f = Some se \<Longrightarrow> cmd c = PINNER_PIN \<longrightarrow> fits ev c s \<Longrightarrow>
      \<exists>r t. issue ev f c s = Ok r t \<and> ok t \<and> umem_frame c (mem s) (mem t) \<and> tab t f \<noteq> None \<and>
        (tab t)(f := None) = (tab s)(f := None) \<and> (r \<noteq> Inr () \<longrightarrow> tab t = tab s)"
    and pinned: "ok s \<Longrightarrow> tab s f = Some (u, bs) \<Longrightarrow> cmd c = PINNER_PIN \<Longrightarrow> fits ev c s \<Longrightarrow>
      issue ev f c s = Ok (Inr ()) t \<Longrightarrow>
      \<exists>pgs. ev_gup ev = Inr pgs \<and> tab t f = Some (u, (ev_magic ev, pgs) # bs) \<and> reported ev c pgs (mem t) \<and>
        um_handles (mem t) (handle_ptr c) = Some \<lparr>user_magic = u, pin_magic = ev_magic ev\<rparr>"
    and accepted: "ok s \<Longrightarrow> tab s f = Some se \<Longrightarrow> cmd c = PINNER_PIN \<Longrightarrow> fits ev c s \<Longrightarrow>
      issue ev f c s = Ok r t \<Longrightarrow> served ev c (mem s) \<Longrightarrow> r = Inr ()"
    and named: "ok s \<Longrightarrow> tab s f = Some (u, bs) \<Longrightarrow> cmd c = PINNER_FLUSH \<or> cmd c = PINNER_UNPIN \<Longrightarrow>
      um_handles (mem s) (handle_ptr c) = Some \<lparr>user_magic = u, pin_magic = m\<rparr> \<Longrightarrow> m \<in> fst ` set bs \<Longrightarrow>
      \<exists>t. issue ev f c s = Ok (Inr ()) t \<and> mem t = (mem s)\<lparr>um_cmds := um_cmds (mem t)\<rparr> \<and>
        tab t f = Some (u, if cmd c = PINNER_UNPIN then drop_magic m bs else bs)"
    and fits_kept: "ok s \<Longrightarrow> tab s f = Some se \<Longrightarrow> cmd c = PINNER_PIN \<Longrightarrow> fits ev c s \<Longrightarrow> fits ev' c' s \<Longrightarrow>
      set (new_addrs ev) \<inter> set (new_addrs ev') = {} \<Longrightarrow> issue ev f c s = Ok r t \<Longrightarrow> fits ev' c' t"
begin

text \<open>Two buffers pinned one after the other: both handles and both lists are there.\<close>

lemma two_pins:
  assumes s: "ok s" "tab s f = Some (u, bs)" and c: "cmd c = PINNER_PIN" "cmd c' = PINNER_PIN"
    and env: "fits ev c s" "fits ev' c' s" "set (new_addrs ev) \<inter> set (new_addrs ev') = {}"
    and apart: "handle_ptr c \<noteq> handle_ptr c'" "physlist_ptr c \<noteq> physlist_ptr c'"
    and run: "issue ev f c s = Ok (Inr ()) s1" "issue ev' f c' s1 = Ok (Inr ()) t"
  shows "\<exists>pgs pgs'. ev_gup ev = Inr pgs \<and> ev_gup ev' = Inr pgs' \<and> ok t \<and>
    tab t f = Some (u, (ev_magic ev', pgs') # (ev_magic ev, pgs) # bs) \<and>
    reported ev c pgs (mem t) \<and> reported ev' c' pgs' (mem t) \<and>
    um_handles (mem t) (handle_ptr c) = Some \<lparr>user_magic = u, pin_magic = ev_magic ev\<rparr> \<and>
    um_handles (mem t) (handle_ptr c') = Some \<lparr>user_magic = u, pin_magic = ev_magic ev'\<rparr>"
proof -
  have ok1: "ok s1" using command [of s f _ c ev] s env(1) run(1) by fastforce
  from pinned [OF s c(1) env(1) run(1)] obtain pgs where
    p: "ev_gup ev = Inr pgs" "tab s1 f = Some (u, (ev_magic ev, pgs) # bs)" "reported ev c pgs (mem s1)"
      "um_handles (mem s1) (handle_ptr c) = Some \<lparr>user_magic = u, pin_magic = ev_magic ev\<rparr>" by blast
  have fits1: "fits ev' c' s1" by (rule fits_kept [OF s c(1) env run(1)])
  from pinned [OF ok1 p(2) c(2) fits1 run(2)] obtain pgs' where
    q: "ev_gup ev' = Inr pgs'" "tab t f = Some (u, (ev_magic ev', pgs') # (ev_magic ev, pgs) # bs)"
      "reported ev' c' pgs' (mem t)"
      "um_handles (mem t) (handle_ptr c') = Some \<lparr>user_magic = u, pin_magic = ev_magic ev'\<rparr>" by blast
  from command [OF ok1 p(2), of c' ev'] fits1 run(2) have fr: "ok t" "umem_frame c' (mem s1) (mem t)" by auto
  then have "reported ev c pgs (mem t)"
    using p(3) apart by (simp add: reported_def umem_frame_def)
  moreover have "um_handles (mem t) (handle_ptr c) = um_handles (mem s1) (handle_ptr c)"
    using fr(2) apart by (simp add: umem_frame_def)
  ultimately show ?thesis using p q fr by auto
qed

lemma flushes:
  assumes s: "ok s" "tab s f = Some (u, bs)" and c: "cmd c = PINNER_FLUSH"
    and h: "um_handles (mem s) (handle_ptr c) = Some \<lparr>user_magic = u, pin_magic = m\<rparr>" "m \<in> fst ` set bs"
  shows "\<exists>t. issue ev f c s = Ok (Inr ()) t \<and> ok t \<and> tab t = tab s \<and>
    mem t = (mem s)\<lparr>um_cmds := um_cmds (mem t)\<rparr>"
proof -
  from named [OF s _ h, of ev] c obtain t where
    t: "issue ev f c s = Ok (Inr ()) t" "mem t = (mem s)\<lparr>um_cmds := um_cmds (mem t)\<rparr>" "tab t f = Some (u, bs)"
    by (auto simp: PINNER_FLUSH_def PINNER_UNPIN_def)
  from command [OF s, of c ev] c t(1) have o: "ok t" "(tab t)(f := None) = (tab s)(f := None)"
    by (auto simp: PINNER_FLUSH_def PINNER_PIN_def)
  have "tab t g = tab s g" for g
    using fun_cong [OF o(2), of g] s(2) t(3) by (cases "g = f") simp_all
  with t o show ?thesis by blast
qed

text \<open>Both can be unpinned, whatever the magic numbers are.\<close>

lemma two_unpins:
  assumes s: "ok s" "tab s f = Some (u, (m', pgs') # (m, pgs) # bs)"
    and c: "cmd c = PINNER_UNPIN" "cmd c' = PINNER_UNPIN"
    and h: "um_handles (mem s) (handle_ptr c) = Some \<lparr>user_magic = u, pin_magic = m\<rparr>"
      "um_handles (mem s) (handle_ptr c') = Some \<lparr>user_magic = u, pin_magic = m'\<rparr>"
  shows "\<exists>s1 t. issue ev f c s = Ok (Inr ()) s1 \<and> issue ev' f c' s1 = Ok (Inr ()) t \<and> ok s1 \<and> ok t \<and>
    tab s1 f \<noteq> None \<and> (tab s1)(f := None) = (tab s)(f := None) \<and>
    tab t f = Some (u, bs) \<and> (tab t)(f := None) = (tab s)(f := None)"
proof -
  from named [OF s(1,2) _ h(1), of ev] c(1) obtain s1 where
    s1: "issue ev f c s = Ok (Inr ()) s1" "mem s1 = (mem s)\<lparr>um_cmds := um_cmds (mem s1)\<rparr>"
      "tab s1 f = Some (u, drop_magic m ((m', pgs') # (m, pgs) # bs))" by auto
  from command [OF s, of c ev] c(1) s1(1) have ok1: "ok s1" "(tab s1)(f := None) = (tab s)(f := None)"
    by (auto simp: PINNER_UNPIN_def PINNER_PIN_def)
  have "um_handles (mem s1) = um_handles (mem s)" by (subst s1(2)) simp
  then have "um_handles (mem s1) (handle_ptr c') = Some \<lparr>user_magic = u, pin_magic = m'\<rparr>" using h(2) by simp
  moreover have "m' \<in> fst ` set (drop_magic m ((m', pgs') # (m, pgs) # bs))" by (cases "m' = m") simp_all
  ultimately obtain t where
    t: "issue ev' f c' s1 = Ok (Inr ()) t"
      "tab t f = Some (u, drop_magic m' (drop_magic m ((m', pgs') # (m, pgs) # bs)))"
    using named [OF ok1(1) s1(3), of c' m' ev'] c(2) by (auto simp del: drop_magic.simps)
  from command [OF ok1(1) s1(3), of c' ev'] c(2) t(1) have "ok t" "(tab t)(f := None) = (tab s1)(f := None)"
    by (auto simp: PINNER_UNPIN_def PINNER_PIN_def)
  moreover have "tab t f = Some (u, bs)" using t(2) by (auto split: if_splits)
  ultimately show ?thesis using s1(1,3) t(1) ok1 by (metis option.discI)
qed

end

section \<open>The driver provides it\<close>

definition pin_fits :: "pin_env \<Rightarrow> pinner_cmd \<Rightarrow> kstate \<Rightarrow> bool" where
  "pin_fits ev c s \<longleftrightarrow> env_ok ev c s \<and> env_complete ev c"

lemma table_of_private:
  assumes "table_of s f = Some se"
  obtains ia info where "k_private s f = Some ia" and "find_info ia s = Some info" and "se = session_of info"
  using assms by (auto simp: table_of_def split: option.splits)

lemma put_cmd_env:
  assumes "cmd c = PINNER_PIN \<longrightarrow> pin_fits ev c s"
  shows "write_env_ok ev cp (put_cmd cp c s)" and "write_env_complete ev cp (put_cmd cp c s)"
  using assms by (auto simp: write_env_ok_def write_env_complete_def pin_fits_def env_ok_def)

lemma write_cmd_frame: "write_cmd ev f cp c s = Ok r t \<Longrightarrow> umem_frame c (k_umem s) (k_umem t)"
  using write_frame [of ev f cp sizeof_pinner_cmd "put_cmd cp c s" r t c]
  by (simp add: write_cmd_def put_cmd_def umem_frame_def)

lemma spec_op_write_other:
  "(spec_op (PWrite ev f buf sz) m r T)(f := None) = T(f := None)"
  by (cases r) (auto simp: spec_write_def spec_pin_def spec_unpin_def split: option.split sum.split)

lemma write_cmd_runs:
  assumes s: "pinner_inv B s" "table_of s f = Some se" and env: "cmd c = PINNER_PIN \<longrightarrow> pin_fits ev c s"
  shows "\<exists>r t. write_cmd ev f cp c s = Ok r t \<and> pinner_inv B t \<and> umem_frame c (k_umem s) (k_umem t) \<and>
    table_of t f \<noteq> None \<and> (table_of t)(f := None) = (table_of s)(f := None) \<and>
    (r \<noteq> Inr () \<longrightarrow> table_of t = table_of s)"
proof -
  obtain ia info where f: "k_private s f = Some ia" by (rule table_of_private [OF s(2)])
  let ?s = "put_cmd cp c s"
  have inv: "pinner_inv B ?s" and f': "k_private ?s f = Some ia" using s(1) f by simp_all
  from write_run [OF inv f' put_cmd_env(1) [OF env], of sizeof_pinner_cmd] put_cmd_env(2) [OF env]
  obtain r t where t: "pinner_write ev f cp sizeof_pinner_cmd ?s = Ok r t" "pinner_inv B t"
    "k_private t = k_private ?s" by blast
  have run: "write_cmd ev f cp c s = Ok r t" using t(1) by (simp add: write_cmd_def)
  have tab: "table_of t = spec_op (PWrite ev f cp sizeof_pinner_cmd) (k_umem ?s) r (table_of s)"
    using write_refines [OF inv f' put_cmd_env(1) [OF env] t(1)] by simp
  have "table_of t f \<noteq> None"
    using private_info [OF t(2), of f ia] t(3) f by (auto simp: table_of_def)
  moreover have "r \<noteq> Inr () \<longrightarrow> table_of t = table_of s" using tab by (cases r) simp_all
  ultimately show ?thesis
    using run t(2) write_cmd_frame [OF run] spec_op_write_other [of ev f cp sizeof_pinner_cmd "k_umem ?s" r "table_of s"]
    by (simp add: tab)
qed

lemma put_cmd_magic: "find_info ia (put_cmd cp c s) = find_info ia s"
  by (simp add: find_info_def)

lemma write_cmd_pinned:
  assumes s: "pinner_inv B s" "table_of s f = Some (u, bs)" and c: "cmd c = PINNER_PIN"
    and env: "pin_fits ev c s" and run: "write_cmd ev f cp c s = Ok (Inr ()) t"
  shows "\<exists>pgs. ev_gup ev = Inr pgs \<and> table_of t f = Some (u, (ev_magic ev, pgs) # bs) \<and>
    reported ev c pgs (k_umem t) \<and>
    um_handles (k_umem t) (handle_ptr c) = Some \<lparr>user_magic = u, pin_magic = ev_magic ev\<rparr>"
proof -
  obtain ia info where f: "k_private s f = Some ia" "find_info ia s = Some info" "(u, bs) = session_of info"
    by (rule table_of_private [OF s(2)])
  let ?s = "put_cmd cp c s"
  have w: "pinner_write ev f cp sizeof_pinner_cmd ?s = Ok (Inr ()) t" using run by (simp add: write_cmd_def)
  have inv: "pinner_inv B ?s" and f': "k_private ?s f = Some ia" and cmds: "um_cmds (k_umem ?s) cp = Some c"
    and env': "env_ok ev c ?s"
    using s(1) f(1) env by (simp_all add: pin_fits_def env_ok_def)
  obtain info' a b sa pgs where p: "find_info ia ?s = Some info'" "ev_gup ev = Inr pgs"
    "int (length pgs) = num_pages_of (usr_buf c) (usr_buf_sz c)"
    "pin_done ev c ia (pi_magic info')
       (new_pinning b (length pgs) sa (pin_sglist ev c pgs)) a sa (pin_sglist ev c pgs) ?s t"
    by (rule write_pin_success [OF inv f' cmds c env' w])
  have info: "info' = info" using p(1) f(2) by (simp add: put_cmd_magic)
  have "pinner_do_pin ev c ia ?s = Ok (Inr ()) t"
    using w f' cmds c by (simp add: pinner_write_def)
  then have "num_pages_of (usr_buf c) (usr_buf_sz c) \<le> 1024"
    using do_pin_bad_size [of c ev ia ?s] by (fastforce simp: good_size_def PINNER_MAX_PAGES_def)
  moreover have "table_of t = spec_op (PWrite ev f cp sizeof_pinner_cmd) (k_umem ?s) (Inr ()) (table_of s)"
    using write_refines [OF inv f' put_cmd_env(1) w] env by simp
  then have "table_of t f = Some (u, (ev_magic ev, pgs) # bs)"
    using c p(2) s(2) cmds by (simp add: spec_write_def spec_pin_def)
  moreover have "pi_magic info = u" using f(3) by (simp add: session_of_def)
  ultimately show ?thesis
    using p(2-4) by (simp add: pin_done_def reported_def info new_pinning_def)
qed

lemma write_cmd_accepted:
  assumes s: "pinner_inv B s" "table_of s f = Some se" and c: "cmd c = PINNER_PIN" and env: "pin_fits ev c s"
    and run: "write_cmd ev f cp c s = Ok r t" and srv: "served ev c (k_umem s)"
  shows "r = Inr ()"
proof -
  obtain ia info where f: "k_private s f = Some ia" "find_info ia s = Some info" by (rule table_of_private [OF s(2)])
  let ?s = "put_cmd cp c s"
  have inv: "pinner_inv B ?s" and info: "find_info ia ?s = Some info" and env': "env_ok ev c ?s"
    using s(1) f(2) env by (simp_all add: put_cmd_magic pin_fits_def env_ok_def)
  then have own: "owns B ?s" by (simp add: pinner_inv_def)
  obtain pgs where gup: "ev_gup ev = Inr pgs" "int (length pgs) = num_pages_of (usr_buf c) (usr_buf_sz c)"
    using env by (auto simp: pin_fits_def env_complete_def)
  obtain a b sa where srv': "good_size c" "ev_arr ev = Some a" "ev_pin ev = Some b" "ev_sgl ev = Some sa"
    using srv by (auto simp: served_def)
  have "pinner_do_pin ev c ia ?s = Ok r t"
    using run f(1) c by (simp add: write_cmd_def pinner_write_def)
  moreover have "pin_accepted ev c l (k_umem ?s)" for l
    using srv by (simp add: served_def pin_accepted_def list_accepted_def put_cmd_def)
  ultimately show ?thesis
    using do_pin_publishes [OF srv'(1,2) gup srv'(3,4) own info env'] by auto
qed

lemma write_cmd_named:
  assumes s: "pinner_inv B s" "table_of s f = Some (u, bs)"
    and c: "cmd c = PINNER_FLUSH \<or> cmd c = PINNER_UNPIN"
    and h: "um_handles (k_umem s) (handle_ptr c) = Some \<lparr>user_magic = u, pin_magic = m\<rparr>" "m \<in> fst ` set bs"
  shows "\<exists>t. write_cmd ev f cp c s = Ok (Inr ()) t \<and> k_umem t = (k_umem s)\<lparr>um_cmds := um_cmds (k_umem t)\<rparr> \<and>
    table_of t f = Some (u, if cmd c = PINNER_UNPIN then drop_magic m bs else bs)"
proof -
  obtain ia info where f: "k_private s f = Some ia" "find_info ia s = Some info" "(u, bs) = session_of info"
    by (rule table_of_private [OF s(2)])
  let ?s = "put_cmd cp c s"
  have inv: "pinner_inv B ?s" and f': "k_private ?s f = Some ia" and info: "find_info ia ?s = Some info"
    using s(1) f(1,2) by (simp_all add: put_cmd_magic)
  have own: "owns B ?s" using inv by (simp add: pinner_inv_def)
  have magic: "pi_magic info = u" "bs = map buffer_of (pinning_list info)" using f(3) by (simp_all add: session_of_def)
  then obtain p where p: "find_pinning m info = Some p" using h(2) magic_found by (auto simp: find_pinning_def)
  have free: "pinner_free_pinning p ?s = Ok () (without_pinning p ?s)"
    by (rule owns_free(1) [OF own find_pinning_in [OF info p]])
  have "\<exists>t. pinner_write ev f cp sizeof_pinner_cmd ?s = Ok (Inr ()) t \<and> k_umem t = k_umem ?s"
    using c f' h(1) info magic(1) p free
    by (auto simp: pinner_write_def pinner_do_flush_def pinner_do_unpin_def dma_event_add_def Let_def
        PINNER_PIN_def PINNER_UNPIN_def PINNER_FLUSH_def without_pinning_def)
  then obtain t where t: "pinner_write ev f cp sizeof_pinner_cmd ?s = Ok (Inr ()) t" "k_umem t = k_umem ?s" by blast
  have "write_env_ok ev cp ?s" by (rule put_cmd_env(1)) (use c in \<open>auto simp: PINNER_PIN_def PINNER_UNPIN_def PINNER_FLUSH_def\<close>)
  from write_refines [OF inv f' this t(1)] have
    "table_of t f = Some (u, if cmd c = PINNER_UNPIN then drop_magic m bs else bs)"
    using c s(2) h(1) by (auto simp: spec_write_def spec_unpin_def PINNER_PIN_def PINNER_UNPIN_def PINNER_FLUSH_def)
  then show ?thesis using t by (auto simp: write_cmd_def put_cmd_def)
qed

lemma pin_fits_kept:
  assumes s: "pinner_inv B s" "table_of s f = Some se" and c: "cmd c = PINNER_PIN" and env: "pin_fits ev c s"
    and other: "pin_fits ev' c' s" "set (new_addrs ev) \<inter> set (new_addrs ev') = {}"
    and run: "write_cmd ev f cp c s = Ok r t"
  shows "pin_fits ev' c' t"
proof -
  obtain ia info where f: "k_private s f = Some ia" "find_info ia s = Some info" by (rule table_of_private [OF s(2)])
  let ?s = "put_cmd cp c s"
  have inv: "pinner_inv B ?s" and info: "find_info ia ?s = Some info" and env': "env_ok ev c ?s"
    using s(1) f(2) env by (simp_all add: put_cmd_magic pin_fits_def env_ok_def)
  then have own: "owns B ?s" by (simp add: pinner_inv_def)
  have "pinner_do_pin ev c ia ?s = Ok r t"
    using run f(1) c by (simp add: write_cmd_def pinner_write_def)
  with do_pin_run [OF own info env'] have "pin_post B ev c ia info ?s r t" by auto
  then have "set_mset (k_live t) \<subseteq> set_mset (k_live s) \<union> set (new_addrs ev)"
    by (cases r) (auto simp: pin_post_def pin_failed_def pin_done_def new_pinning_def new_addrs_def)
  with other show ?thesis by (auto simp: pin_fits_def env_ok_def)
qed

interpretation pinner: pin_device "pinner_inv B" table_of k_umem pin_fits "\<lambda>ev f c. write_cmd ev f cp c" for B cp
  by unfold_locales (rule write_cmd_runs write_cmd_pinned write_cmd_accepted write_cmd_named pin_fits_kept; assumption)+

section \<open>Opening and closing a file\<close>

lemma open_session:
  assumes inv: "pinner_inv B s" and f: "k_private s f = None" and x: "x \<notin># k_live s"
  shows "\<exists>t. pinner_open (Some x) magic f s = Ok (Inr ()) t \<and> pinner_inv B t \<and>
    table_of t = (table_of s)(f \<mapsto> (magic, [])) \<and> k_private t f = Some x \<and>
    k_live t = add_mset x (k_live s) \<and> k_umem t = k_umem s"
proof -
  define t where "t = s\<lparr>k_live := add_mset x (k_live s),
      k_users := \<lparr>pi_addr = x, pinning_list = [], pi_magic = magic\<rparr> # k_users s, k_private := (k_private s)(f \<mapsto> x)\<rparr>"
  have run: "pinner_open (Some x) magic f s = Ok (Inr ()) t"
    by (simp add: pinner_open_def kalloc_def t_def)
  have fresh: "\<forall>y. Some x = Some y \<longrightarrow> y \<notin># k_live s" using x by simp
  from open_run [OF inv f fresh, of magic] open_refines [OF inv f fresh run] run
  show ?thesis by (auto simp: t_def)
qed

lemma close_session:
  assumes inv: "pinner_inv B s" and f: "table_of s f \<noteq> None"
  shows "\<exists>t. run_op (PRelease f) s = Ok (Inr ()) t \<and> pinner_inv B t \<and> table_of t = (table_of s)(f := None)"
proof -
  obtain ia where ia: "k_private s f = Some ia" using f by (auto simp: table_of_def split: option.splits)
  from release_run [OF inv ia] obtain t where
    t: "pinner_release f s = Ok (Inr ()) t" "pinner_inv B (t\<lparr>k_private := (k_private t)(f := None)\<rparr>)" by blast
  with release_refines [OF inv ia t(1)] show ?thesis by simp
qed

text \<open>The references the driver holds are determined by the table.\<close>

lemma same_table_refs:
  assumes "pinner_inv B s" and "pinner_inv B t" and "table_of t = table_of s"
  shows "k_refs t = k_refs s"
proof -
  have "k_refs s = B + table_pages (table_of s)" "k_refs t = B + table_pages (table_of t)"
    using assms(1,2) table_pages_of [OF assms(1)] table_pages_of [OF assms(2)]
    by (simp_all add: pinner_inv_def owns_def)
  with assms(3) show ?thesis by simp
qed

end
