(* ===== verification/PinnerThreads.thy ===== *)
theory PinnerThreads
  imports PinnerRace PinDevice
begin

text \<open>
  Any number of threads that write commands to one file at the same time. Each command takes
  two turns, with the other threads' turns in between: unpin and flush search the list and then
  use what they found (theory PinnerRace); pin links the pinning and then reports it to the
  user, or frees it again. Threads that name different pinnings do not disturb each other. A turn
  is one step, and so is each list operation in it; theory PinnerListRace takes one apart.
\<close>

section \<open>The pin command in two turns\<close>

text \<open>From list_add to the DMA mapping.\<close>

definition pin_link :: "pin_env \<Rightarrow> kptr \<Rightarrow> int \<Rightarrow> pinning \<Rightarrow> kstate \<Rightarrow> (rc + pinning, kstate) outcome" where
  "pin_link ev ia num_pages pin s =
     (let pin1 = pin\<lparr>p_magic := ev_magic ev\<rparr>;
          s1 = list_add_pinning pin1 ia s
      in case sglist pin1 of
           None \<Rightarrow> Fault NullDeref
         | Some (sa, sgl) \<Rightarrow>
            (let (ret, sgl') = ev_dma_map ev sgl;
                 pin2 = pin1\<lparr>sglist := Some (sa, sgl')\<rparr>;
                 s2 = set_pinning_sglist (p_addr pin) sgl'
                        (dma_event_add (DmaMap sa (num_sg_ents pin)) s1)
             in case ret of
                  Inl e \<Rightarrow> obind (do_pin_error (Some pin2) None num_pages e s2) (\<lambda>r t. Ok (Inl r) t)
                | Inr k \<Rightarrow> Ok (Inr pin2) s2))"

text \<open>The first turn: from the checks of the command to the DMA mapping.\<close>

definition pin_begin :: "pin_env \<Rightarrow> pinner_cmd \<Rightarrow> kptr \<Rightarrow> kstate \<Rightarrow> (rc + pinning, kstate) outcome" where
  "pin_begin ev c ia s =
     (let off = usr_buf c - page_start (usr_buf c);
          num_pages = num_pages_of (usr_buf c) (usr_buf_sz c);
          fail = (\<lambda>pin p e s. obind (do_pin_error pin p num_pages e s) (\<lambda>r t. Ok (Inl r) t))
      in if num_pages > PINNER_MAX_PAGES then fail None None EINVAL s
         else if num_pages \<le> 0 then fail None None EINVAL s
         else
          (case ev_arr ev of
             None \<Rightarrow> fail None None ENOMEM s
           | Some a \<Rightarrow>
              (let s1 = kalloc (Some a) s in
               case ev_gup ev of
                 Inl e \<Rightarrow> fail None (Some (a, [])) EAGAIN s1
               | Inr pgs \<Rightarrow>
                  (let s2 = get_pages pgs s1 in
                   if int (length pgs) \<noteq> num_pages then fail None (Some (a, pgs)) EAGAIN s2
                   else
                    (case ev_pin ev of
                       None \<Rightarrow> fail None (Some (a, pgs)) ENOMEM s2
                     | Some b \<Rightarrow>
                        (let pin0 = \<lparr>p_addr = b, num_sg_ents = nat num_pages, sglist = None,
                                     p_magic = 0\<rparr>;
                             (ret, pin1, s4) = pinner_alloc_and_fill_sglist ev (Some pgs) num_pages
                               pin0 off (usr_buf_sz c) (kalloc (Some b) s2)
                         in case ret of
                              Inl e \<Rightarrow> fail (Some pin1) (Some (a, pgs)) e s4
                            | Inr _ \<Rightarrow>
                               (case find_info ia s4 of
                                  None \<Rightarrow> Fault UseAfterFree
                                | Some info \<Rightarrow> pin_link ev ia num_pages pin1 s4)))))))"

text \<open>
  The second turn: the list of addresses and the handle are written to the user. The pinning
  has been freed when it is on no list any more.
\<close>

definition pin_report :: "pin_env \<Rightarrow> pinner_cmd \<Rightarrow> kptr \<Rightarrow> pinning \<Rightarrow> kstate \<Rightarrow> (rc, kstate) outcome" where
  "pin_report ev c ia p s =
     (if p \<notin># user_pins (k_users s) then Fault UseAfterFree
      else
       (let num_pages = num_pages_of (usr_buf c) (usr_buf_sz c) in
        case find_info ia s of
          None \<Rightarrow> Fault UseAfterFree
        | Some info \<Rightarrow>
            obind (pinner_send_physlist ev c p s) (\<lambda>r s1.
              case r of
                Inl e \<Rightarrow> do_pin_error (Some p) None num_pages e s1
              | Inr _ \<Rightarrow>
                 (case copy_handle_to_user (handle_ptr c)
                         \<lparr>user_magic = pi_magic info, pin_magic = p_magic p\<rparr> (k_umem s1) of
                    None \<Rightarrow> do_pin_error (Some p) None num_pages EAGAIN s1
                  | Some m \<Rightarrow> Ok (Inr ()) (s1\<lparr>k_umem := m\<rparr>)))))"

text \<open>The two turns, one after the other, are the command.\<close>

lemma pin_linked_there:
  assumes "find_info ia s = Some info" and "sglist pin = Some (sa, l)"
  shows "pin\<lparr>p_magic := m, sglist := Some (sa, l')\<rparr> \<in># user_pins (k_users (set_pinning_sglist (p_addr pin) l'
      (dma_event_add e (list_add_pinning (pin\<lparr>p_magic := m\<rparr>) ia s))))"
    and "\<exists>info'. find_info ia (set_pinning_sglist (p_addr pin) l'
      (dma_event_add e (list_add_pinning (pin\<lparr>p_magic := m\<rparr>) ia s))) = Some info' \<and> pi_magic info' = pi_magic info"
proof -
  let ?add = "\<lambda>i. if pi_addr i = ia then i\<lparr>pinning_list := pin\<lparr>p_magic := m\<rparr> # pinning_list i\<rparr> else i"
  let ?set = "\<lambda>i. i\<lparr>pinning_list := map (\<lambda>q. if p_addr q = p_addr pin
      then q\<lparr>sglist := map_option (\<lambda>(sa, l). (sa, l')) (sglist q)\<rparr> else q) (pinning_list i)\<rparr>"
  let ?t = "set_pinning_sglist (p_addr pin) l' (dma_event_add e (list_add_pinning (pin\<lparr>p_magic := m\<rparr>) ia s))"
  have users: "k_users ?t = map (\<lambda>i. ?set (?add i)) (k_users s)"
    by (simp add: set_pinning_sglist_def dma_event_add_def list_add_pinning_def upd_info_def comp_def)
  have "info \<in> set (k_users s)" "pi_addr info = ia" using find_info_SomeD [OF assms(1)] by auto
  moreover from this have "pin\<lparr>p_magic := m, sglist := Some (sa, l')\<rparr> \<in> set (pinning_list (?set (?add info)))"
    using assms(2) by simp
  ultimately show "pin\<lparr>p_magic := m, sglist := Some (sa, l')\<rparr> \<in># user_pins (k_users ?t)"
    unfolding users user_pins_def by fastforce
  have "find (\<lambda>i. pi_addr i = ia) us = Some info \<Longrightarrow>
      find (\<lambda>i. pi_addr i = ia) (map (\<lambda>i. ?set (?add i)) us) = Some (?set (?add info))" for us
    by (induction us) (auto split: if_splits)
  with assms(1) have "find_info ia ?t = Some (?set (?add info))" by (simp add: find_info_def users)
  then show "\<exists>info'. find_info ia ?t = Some info' \<and> pi_magic info' = pi_magic info"
    using \<open>pi_addr info = ia\<close> by simp
qed

lemma do_pin_error_some: "do_pin_error (Some q) x n e = do_pin_error (Some q) y k e"
  by (simp add: do_pin_error_def fun_eq_iff)

lemma obind_return [simp]: "obind m Ok = m"
  by (cases m) simp_all

lemma publish_two_turns:
  assumes "find_info ia s = Some info"
  shows "do_pin_publish ev c ia (pi_magic info) n pin s =
    obind (pin_link ev ia n pin s) (\<lambda>r t. case r of Inl x \<Rightarrow> Ok x t | Inr p \<Rightarrow> pin_report ev c ia p t)"
proof (cases "sglist pin")
  case None
  then show ?thesis by (simp add: do_pin_publish_def pin_link_def Let_def)
next
  case (Some q)
  then obtain sa l where sg: "sglist pin = Some (sa, l)" by (cases q) auto
  obtain ret l' where d: "ev_dma_map ev l = (ret, l')" by force
  let ?p = "pin\<lparr>p_magic := ev_magic ev, sglist := Some (sa, l')\<rparr>"
  let ?t = "set_pinning_sglist (p_addr pin) l' (dma_event_add (DmaMap sa (num_sg_ents pin))
      (list_add_pinning (pin\<lparr>p_magic := ev_magic ev\<rparr>) ia s))"
  from pin_linked_there [OF assms sg] obtain info' where
    "?p \<in># user_pins (k_users ?t)" "find_info ia ?t = Some info'" "pi_magic info' = pi_magic info" by blast
  then show ?thesis
    by (cases ret)
       (simp_all add: do_pin_publish_def pin_link_def pin_report_def sg d Let_def obind_assoc
         do_pin_error_some [of ?p None "num_pages_of (usr_buf c) (usr_buf_sz c)" _ None n]
         cong: sum.case_cong option.case_cong)
qed

lemma pin_two_turns:
  "pinner_do_pin ev c ia s =
     obind (pin_begin ev c ia s) (\<lambda>r t. case r of Inl x \<Rightarrow> Ok x t | Inr p \<Rightarrow> pin_report ev c ia p t)"
  by (simp add: pinner_do_pin_def pin_begin_def Let_def obind_assoc publish_two_turns
      split: option.split sum.split prod.split)

section \<open>What one turn does\<close>

text \<open>A pinning that is freed takes no other pinning off its list.\<close>

lemma free_keeps_others:
  assumes "owns B s" and "p \<in># user_pins (k_users s)" and "q \<in># user_pins (k_users s)" and "q \<noteq> p"
  shows "q \<in># user_pins (k_users (without_pinning p s))"
  using owns_free(3) [OF assms(1,2)] assms(3,4) by (simp add: in_diff_count)

lemma do_pin_error_umem': "obind (do_pin_error x p n e s) (\<lambda>r t. Ok (f r) t) = Ok r' t \<Longrightarrow> k_umem t = k_umem s"
  by (auto elim!: obind_Ok_E dest: do_pin_error_umem)

lemma pin_begin_umem: "pin_begin ev c ia s = Ok r t \<Longrightarrow> k_umem t = k_umem s"
  by (auto simp: pin_begin_def pin_link_def Let_def kalloc_def get_pages_def pinner_alloc_and_fill_sglist_def
      list_add_pinning_def upd_info_def dma_event_add_def set_pinning_sglist_def
      split: option.splits prod.splits sum.splits if_splits dest!: do_pin_error_umem')

text \<open>The first turn links a pinning that was built, or it fails as the whole command does.\<close>

lemma pin_begin_linked:
  assumes own: "owns B s" and info: "find_info ia s = Some info" and env: "pin_fits ev c s"
    and run: "pin_begin ev c ia s = Ok (Inr p) t"
  obtains a pin sa l s4 where "built s s4 a pin sa l" and "p = published ev pin sa l"
    and "t = linked_state ev ia pin sa l s4" and "{a, p_addr pin, sa} \<subseteq> set (new_addrs ev)"
    and "\<forall>l. map sg_pg (snd (ev_dma_map ev l)) = map sg_pg l"
proof -
  have ok: "env_ok ev c s" using env by (simp add: pin_fits_def)
  obtain pgs sa where gup: "ev_gup ev = Inr pgs" "int (length pgs) = num_pages_of (usr_buf c) (usr_buf_sz c)"
    "ev_sgl ev = Some sa" using env by (auto simp: pin_fits_def env_complete_def)
  obtain a b where ab: "ev_arr ev = Some a" "ev_pin ev = Some b" and good: "good_size c"
    using run gup by (auto simp: pin_begin_def Let_def good_size_def PINNER_MAX_PAGES_def
        split: option.splits if_splits elim!: obind_Ok_E)
  let ?l = "pin_sglist ev c pgs" and ?pin = "new_pinning b (length pgs) sa (pin_sglist ev c pgs)"
  let ?s4 = "kalloc (Some sa) (kalloc (Some b) (get_pages pgs (kalloc (Some a) s)))"
  note built = pin_built [OF good gup(2) ok ab gup(3)]
  obtain ret l' where d: "ev_dma_map ev ?l = (ret, l')" by force
  have "pin_begin ev c ia s = pin_link ev ia (num_pages_of (usr_buf c) (usr_buf_sz c)) ?pin ?s4"
    using good info
    by (simp add: pin_begin_def Let_def good_size_def ab gup pinner_alloc_and_fill_sglist_def
        new_pinning_def pin_sglist_def find_info_def kalloc_def get_pages_def flip: gup(2))
  with run have "pin_link ev ia (num_pages_of (usr_buf c) (usr_buf_sz c)) ?pin ?s4 = Ok (Inr p) t" by simp
  then have "p = published ev ?pin sa ?l" "t = linked_state ev ia ?pin sa ?l ?s4"
    using linked_state_steps(1) [OF own built d] linked_state_steps(2) [OF own built d, where ia = ia]
    by (auto simp: pin_link_def Let_def d new_pinning_def split: sum.splits elim!: obind_Ok_E)
  moreover have "\<forall>l. map sg_pg (snd (ev_dma_map ev l)) = map sg_pg l" using ok by (simp add: env_ok_def)
  ultimately show thesis
    using that [OF built] ab gup(3) by (simp add: new_pinning_def new_addrs_def)
qed

lemma pin_begin_links:
  assumes own: "owns B s" and info: "find_info ia s = Some info" and env: "pin_fits ev c s"
    and run: "pin_begin ev c ia s = Ok (Inr p) t"
  shows "owns B t \<and> map pi_addr (k_users t) = map pi_addr (k_users s) \<and>
    user_pins (k_users t) = add_mset p (user_pins (k_users s)) \<and> p_magic p = ev_magic ev"
proof -
  obtain a pin sa l s4 where b: "built s s4 a pin sa l" and p: "p = published ev pin sa l"
    and t: "t = linked_state ev ia pin sa l s4" and dma: "\<forall>l. map sg_pg (snd (ev_dma_map ev l)) = map sg_pg l"
    by (rule pin_begin_linked [OF assms])
  have "ia \<in> pi_addr ` set (k_users s)" using find_info_SomeD [OF info] by auto
  from linked_state_owns [OF own this b dma] b show ?thesis
    by (simp add: p t) (simp add: linked_state_def published_def built_def)
qed

text \<open>So the first turn does not fault, keeps what others hold, and leaves the user memory alone.\<close>

lemma pin_begin_run:
  assumes own: "owns B s" and info: "find_info ia s = Some info" and env: "pin_fits ev c s"
  shows "\<exists>r t. pin_begin ev c ia s = Ok r t \<and> owns B t \<and> map pi_addr (k_users t) = map pi_addr (k_users s) \<and>
    user_pins (k_users s) \<subseteq># user_pins (k_users t) \<and> k_umem t = k_umem s \<and>
    (\<forall>p. r = Inr p \<longrightarrow> p \<in># user_pins (k_users t) \<and> p_magic p = ev_magic ev)"
proof -
  from do_pin_run [OF own info, of ev c] env obtain x u where
    whole: "pinner_do_pin ev c ia s = Ok x u" "pin_post B ev c ia info s x u" by (auto simp: pin_fits_def)
  then obtain r t where run: "pin_begin ev c ia s = Ok r t"
    by (auto simp: pin_two_turns elim!: obind_Ok_E)
  show ?thesis
  proof (cases r)
    case (Inl y)
    then have "x = y" "u = t" using whole(1) run by (simp_all add: pin_two_turns)
    moreover have "y \<noteq> Inr ()"
      using run Inl by (auto simp: pin_begin_def pin_link_def Let_def do_pin_error_def
          split: option.splits prod.splits sum.splits if_splits elim!: obind_Ok_E)
    ultimately have "owns B t" "k_users t = k_users s"
      using whole(2) by (auto simp: pin_post_def pin_failed_def split: sum.splits)
    with run Inl pin_begin_umem [OF run] show ?thesis by simp
  next
    case (Inr p)
    with run pin_begin_links [OF own info env] pin_begin_umem [OF run] show ?thesis by auto
  qed
qed

text \<open>The second turn writes to the user's addresses only, and takes at most its own pinning off.\<close>

lemma pin_report_run:
  assumes own: "owns B s" and info: "find_info ia s = Some info" and p: "p \<in># user_pins (k_users s)"
  shows "\<exists>r t. pin_report ev c ia p s = Ok r t \<and> owns B t \<and> map pi_addr (k_users t) = map pi_addr (k_users s) \<and>
    umem_frame c (k_umem s) (k_umem t) \<and>
    (\<forall>q. q \<in># user_pins (k_users s) \<and> q \<noteq> p \<longrightarrow> q \<in># user_pins (k_users t))"
proof -
  have "wf_pinning p" using own p by (simp add: owns_def)
  then obtain sa l where "sglist p = Some (sa, l)" "length l = num_sg_ents p"
    by (auto simp: wf_pinning_def split: option.splits)
  from send_physlist_run [OF this, of ev c s] obtain r m where
    send: "pinner_send_physlist ev c p s = Ok r (s\<lparr>k_umem := m\<rparr>)" by blast
  have frame: "umem_frame c (k_umem s) m" using send_physlist_frame [OF send] by simp
  let ?s = "s\<lparr>k_umem := m\<rparr>"
  have own': "owns B ?s" and p': "p \<in># user_pins (k_users ?s)" using own p by simp_all
  note free = owns_free [OF own' p']
  have err: "do_pin_error (Some p) None n e ?s = Ok (Inl e) (without_pinning p ?s)" for n e
    by (simp add: do_pin_error_def free(1))
  show ?thesis
    using p info send frame own free_keeps_others [OF own' p'] free(2)
    by (auto simp: pin_report_def Let_def err copy_handle_to_user_def umem_frame_def split: sum.split option.split)
qed

section \<open>A pool of threads\<close>

datatype worker =
    Asking pinner_cmd
  | Found pinner_cmd pinning
  | Reporting pin_env pinner_cmd pinning
  | Finished rc

text \<open>A turn of a thread; \<open>ev\<close> is what the kernel answers if it begins a pin command in it.\<close>

fun worker_turn :: "pin_env \<Rightarrow> kptr \<Rightarrow> worker \<Rightarrow> kstate \<Rightarrow> (worker, kstate) outcome" where
  "worker_turn ev ia (Asking c) s =
     (if cmd c = PINNER_PIN
      then obind (pin_begin ev c ia s) (\<lambda>r t. Ok (case r of Inl x \<Rightarrow> Finished x | Inr p \<Rightarrow> Reporting ev c p) t)
      else if cmd c = PINNER_UNPIN \<or> cmd c = PINNER_FLUSH
      then obind (unpin_find c ia s) (\<lambda>r t. Ok (case r of Inl e \<Rightarrow> Finished (Inl e) | Inr p \<Rightarrow> Found c p) t)
      else Ok (Finished (Inl ENOSYS)) s)"
| "worker_turn ev ia (Found c p) s =
     obind (if cmd c = PINNER_FLUSH then flush_found c p s else pinner_free_pinning p s)
       (\<lambda>_ t. Ok (Finished (Inr ())) t)"
| "worker_turn ev ia (Reporting ev' c p) s = obind (pin_report ev' c ia p s) (\<lambda>r t. Ok (Finished r) t)"
| "worker_turn ev ia (Finished r) s = Ok (Finished r) s"

text \<open>The switch of \<open>pinner_write\<close>: what the two turns of a thread that runs alone amount to.\<close>

definition write_switch :: "pin_env \<Rightarrow> kptr \<Rightarrow> pinner_cmd \<Rightarrow> kstate \<Rightarrow> (rc, kstate) outcome" where
  "write_switch ev ia c s =
     (if cmd c = PINNER_PIN then pinner_do_pin ev c ia s
      else if cmd c = PINNER_UNPIN then pinner_do_unpin c ia s
      else if cmd c = PINNER_FLUSH then pinner_do_flush c ia s
      else Ok (Inl ENOSYS) s)"

lemma write_is_switch:
  "um_cmds (k_umem s) buf = Some c \<Longrightarrow> k_private s f = Some ia \<Longrightarrow>
     pinner_write ev f buf sizeof_pinner_cmd s = write_switch ev ia c s"
  by (simp add: pinner_write_def write_switch_def)

lemma worker_alone:
  "obind (worker_turn ev ia (Asking c) s) (worker_turn ev' ia) =
     obind (write_switch ev ia c s) (\<lambda>r t. Ok (Finished r) t)"
proof -
  have pin: "obind (case r of Inl x \<Rightarrow> Ok x t | Inr p \<Rightarrow> pin_report ev c ia p t) (\<lambda>r t. Ok (Finished r) t) =
      worker_turn ev' ia (case r of Inl x \<Rightarrow> Finished x | Inr p \<Rightarrow> Reporting ev c p) t" for r t
    by (cases r) simp_all
  have call: "pin_call c ia s = write_switch ev ia c s" if "cmd c = PINNER_UNPIN \<or> cmd c = PINNER_FLUSH"
    using that by (auto simp: pin_call_def write_switch_def PINNER_PIN_def PINNER_UNPIN_def PINNER_FLUSH_def)
  show ?thesis
  proof (cases "cmd c = PINNER_UNPIN \<or> cmd c = PINNER_FLUSH")
    case True
    have "obind (case r of Inl e \<Rightarrow> Ok (Inl e) t
         | Inr p \<Rightarrow> obind (if cmd c = PINNER_FLUSH then flush_found c p t else pinner_free_pinning p t)
             (\<lambda>_ u. Ok (Inr ()) u)) (\<lambda>r t. Ok (Finished r) t) =
        worker_turn ev' ia (case r of Inl e \<Rightarrow> Finished (Inl e) | Inr p \<Rightarrow> Found c p) t" for r t
      by (cases r) (simp_all add: obind_assoc)
    with True show ?thesis
      unfolding call [OF True, symmetric] pin_call_halves
      by (auto simp: obind_assoc PINNER_PIN_def PINNER_UNPIN_def PINNER_FLUSH_def)
  next
    case False
    then show ?thesis by (auto simp: write_switch_def pin_two_turns obind_assoc pin)
  qed
qed

text \<open>
  The magic number that a thread's command names: for unpin and flush that of its handle, later
  that of the pinning it works on. Whether the thread may free that pinning, and the user's
  handle that it reads or writes.
\<close>

fun named :: "worker \<Rightarrow> user_mem \<Rightarrow> u32 option" where
  "named (Asking c) m =
     (if cmd c = PINNER_UNPIN \<or> cmd c = PINNER_FLUSH then map_option pin_magic (um_handles m (handle_ptr c)) else None)"
| "named (Found c p) m = Some (p_magic p)"
| "named (Reporting ev c p) m = Some (p_magic p)"
| "named (Finished r) m = None"

fun may_free :: "worker \<Rightarrow> bool" where
  "may_free (Asking c) = (cmd c \<noteq> PINNER_FLUSH)"
| "may_free (Found c p) = (cmd c \<noteq> PINNER_FLUSH)"
| "may_free (Reporting ev c p) = True"
| "may_free (Finished r) = False"

fun reads_at :: "worker \<Rightarrow> u64 option" where
  "reads_at (Asking c) = (if cmd c = PINNER_UNPIN \<or> cmd c = PINNER_FLUSH then Some (handle_ptr c) else None)"
| "reads_at w = None"

fun writes_at :: "worker \<Rightarrow> u64 option" where
  "writes_at (Asking c) = (if cmd c = PINNER_PIN then Some (handle_ptr c) else None)"
| "writes_at (Reporting ev c p) = Some (handle_ptr c)"
| "writes_at w = None"

text \<open>
  No two threads name the same pinning, unless both only flush it, and no thread reads the
  handle that another one writes.
\<close>

definition undisturbed :: "worker \<Rightarrow> worker \<Rightarrow> user_mem \<Rightarrow> bool" where
  "undisturbed v w m \<longleftrightarrow>
     (\<forall>x. named v m = Some x \<and> named w m = Some x \<longrightarrow> \<not> may_free v) \<and>
     (\<forall>a. writes_at v = Some a \<longrightarrow> reads_at w \<noteq> Some a)"

definition apart :: "worker list \<Rightarrow> user_mem \<Rightarrow> bool" where
  "apart ws m \<longleftrightarrow> (\<forall>i < length ws. \<forall>j < length ws. i \<noteq> j \<longrightarrow> undisturbed (ws ! i) (ws ! j) m)"

text \<open>The answers to a pin that begins: documented, and a random magic number that no thread names.\<close>

definition fits_turn :: "pin_env \<Rightarrow> worker \<Rightarrow> worker list \<Rightarrow> kstate \<Rightarrow> bool" where
  "fits_turn ev w ws s \<longleftrightarrow>
     (\<forall>c. w = Asking c \<and> cmd c = PINNER_PIN \<longrightarrow>
        pin_fits ev c s \<and> (\<forall>v \<in> set ws. named v (k_umem s) \<noteq> Some (ev_magic ev)))"

inductive pool_step :: "kptr \<Rightarrow> worker list \<times> kstate \<Rightarrow> worker list \<times> kstate \<Rightarrow> bool" for ia where
  turn: "i < length ws \<Longrightarrow> fits_turn ev (ws ! i) ws s \<Longrightarrow> worker_turn ev ia (ws ! i) s = Ok w t \<Longrightarrow>
    pool_step ia (ws, s) (ws[i := w], t)"

inductive_cases pool_stepE: "pool_step ia (ws, s) (us, t)"

section \<open>What a thread guarantees to the others\<close>

definition holds :: "worker \<Rightarrow> kstate \<Rightarrow> bool" where
  "holds w s \<longleftrightarrow> (case w of Found c p \<Rightarrow> p \<in># user_pins (k_users s)
     | Reporting ev c p \<Rightarrow> p \<in># user_pins (k_users s) | _ \<Rightarrow> True)"

definition begins :: "pin_env \<Rightarrow> worker \<Rightarrow> u32 \<Rightarrow> bool" where
  "begins ev v x \<longleftrightarrow> (\<exists>c. v = Asking c \<and> cmd c = PINNER_PIN \<and> x = ev_magic ev)"

text \<open>
  A turn of \<open>v\<close> that ends as \<open>w\<close>: only the pinning it names leaves the lists, only the handle it
  writes changes, and it does not name, free, read or write anything new, but for the random
  magic number of a pin.
\<close>

definition guarantee :: "pin_env \<Rightarrow> worker \<Rightarrow> kstate \<Rightarrow> worker \<Rightarrow> kstate \<Rightarrow> bool" where
  "guarantee ev v s w t \<longleftrightarrow>
     (\<forall>q. q \<in># user_pins (k_users s) \<longrightarrow> q \<in># user_pins (k_users t) \<or> (may_free v \<and> named v (k_umem s) = Some (p_magic q))) \<and>
     (\<forall>a. um_handles (k_umem t) a \<noteq> um_handles (k_umem s) a \<longrightarrow> writes_at v = Some a) \<and>
     (\<forall>x. named w (k_umem t) = Some x \<longrightarrow> named v (k_umem s) = Some x \<or> begins ev v x) \<and>
     (may_free w \<longrightarrow> may_free v) \<and> (\<forall>a. writes_at w = Some a \<longrightarrow> writes_at v = Some a) \<and> reads_at w = None"

lemma unpin_find_run:
  assumes "find_info ia s = Some info"
  shows "\<exists>r. unpin_find c ia s = Ok r s \<and>
    (\<forall>p. r = Inr p \<longrightarrow> p \<in># user_pins (k_users s) \<and>
      (\<exists>h. um_handles (k_umem s) (handle_ptr c) = Some h \<and> p_magic p = pin_magic h))"
  using assms find_pinning_in [OF assms]
  by (auto simp: unpin_find_def find_pinning_def find_Some_iff split: option.split)

definition turn_ok :: "page multiset \<Rightarrow> pin_env \<Rightarrow> kptr \<Rightarrow> worker \<Rightarrow> kstate \<Rightarrow> bool" where
  "turn_ok B ev ia v s \<longleftrightarrow>
     (\<exists>w t. worker_turn ev ia v s = Ok w t \<and> owns B t \<and> map pi_addr (k_users t) = map pi_addr (k_users s) \<and>
        holds w t \<and> guarantee ev v s w t)"

lemma pin_turn_ok:
  assumes own: "owns B s" and info: "find_info ia s = Some info" and pin: "cmd c = PINNER_PIN" "pin_fits ev c s"
  shows "turn_ok B ev ia (Asking c) s"
proof -
  from pin_begin_run [OF own info pin(2)] obtain r t where
    "pin_begin ev c ia s = Ok r t" "owns B t" "map pi_addr (k_users t) = map pi_addr (k_users s)"
    "user_pins (k_users s) \<subseteq># user_pins (k_users t)" "k_umem t = k_umem s"
    "\<forall>p. r = Inr p \<longrightarrow> p \<in># user_pins (k_users t) \<and> p_magic p = ev_magic ev" by blast
  then show ?thesis
    using pin(1) by (cases r) (auto simp: turn_ok_def holds_def guarantee_def begins_def PINNER_PIN_def
        PINNER_FLUSH_def dest: mset_subset_eqD)
qed

lemma find_turn_ok:
  assumes own: "owns B s" and info: "find_info ia s = Some info" and c: "cmd c \<noteq> PINNER_PIN"
  shows "turn_ok B ev ia (Asking c) s"
proof -
  from unpin_find_run [OF info, of c] obtain r where
    "unpin_find c ia s = Ok r s" "\<forall>p. r = Inr p \<longrightarrow> p \<in># user_pins (k_users s) \<and>
      (\<exists>h. um_handles (k_umem s) (handle_ptr c) = Some h \<and> p_magic p = pin_magic h)" by blast
  then show ?thesis
    using c own by (cases r) (auto simp: turn_ok_def holds_def guarantee_def)
qed

lemma found_turn_ok:
  assumes own: "owns B s" and p: "p \<in># user_pins (k_users s)"
  shows "turn_ok B ev ia (Found c p) s"
proof (cases "cmd c = PINNER_FLUSH")
  case True
  from flush_found_run [OF p, of c] obtain evs where
    "flush_found c p s = Ok () (s\<lparr>k_dma := k_dma s @ evs\<rparr>)" by blast
  then show ?thesis using True own by (simp add: turn_ok_def holds_def guarantee_def)
next
  case False
  then show ?thesis
    using owns_free(1,2) [OF own p] free_keeps_others [OF own p]
    by (auto simp: turn_ok_def holds_def guarantee_def)
qed

lemma report_turn_ok:
  assumes own: "owns B s" and info: "find_info ia s = Some info" and p: "p \<in># user_pins (k_users s)"
  shows "turn_ok B ev ia (Reporting ev' c p) s"
proof -
  from pin_report_run [OF own info p, of ev' c] obtain r t where
    "pin_report ev' c ia p s = Ok r t" "owns B t" "map pi_addr (k_users t) = map pi_addr (k_users s)"
    and frame: "umem_frame c (k_umem s) (k_umem t)"
    and "\<forall>q. q \<in># user_pins (k_users s) \<and> q \<noteq> p \<longrightarrow> q \<in># user_pins (k_users t)" by blast
  moreover have "a = handle_ptr c" if "um_handles (k_umem t) a \<noteq> um_handles (k_umem s) a" for a
    using frame that by (auto simp: umem_frame_def)
  ultimately show ?thesis by (auto simp: turn_ok_def holds_def guarantee_def)
qed

lemma turn_guarantee:
  assumes own: "owns B s" and info: "find_info ia s = Some info" and v: "holds v s"
    and fits: "\<And>c. v = Asking c \<Longrightarrow> cmd c = PINNER_PIN \<Longrightarrow> pin_fits ev c s"
  shows "turn_ok B ev ia v s"
proof (cases v)
  case (Asking c)
  then show ?thesis
    using pin_turn_ok [OF own info] find_turn_ok [OF own info] fits by blast
next
  case (Found c p)
  then show ?thesis using found_turn_ok [OF own] v by (simp add: holds_def)
next
  case (Reporting ev' c p)
  then show ?thesis using report_turn_ok [OF own info] v by (simp add: holds_def)
next
  case (Finished r)
  then show ?thesis using own by (simp add: turn_ok_def holds_def guarantee_def)
qed

section \<open>The pool as a whole\<close>

definition pool_ok :: "page multiset \<Rightarrow> kptr \<Rightarrow> worker list \<Rightarrow> kstate \<Rightarrow> bool" where
  "pool_ok B ia ws s \<longleftrightarrow> owns B s \<and> ia \<in> pi_addr ` set (k_users s) \<and>
     (\<forall>w \<in> set ws. holds w s) \<and> apart ws (k_umem s)"

lemma named_frame:
  "(\<And>a. reads_at w = Some a \<Longrightarrow> um_handles m' a = um_handles m a) \<Longrightarrow> named w m' = named w m"
  by (cases w) auto

text \<open>What the others hold and name is as before the turn.\<close>

lemma guarantee_others:
  assumes g: "guarantee ev v s w t" and u: "undisturbed v u (k_umem s)"
  shows "named u (k_umem t) = named u (k_umem s)" and "holds u s \<Longrightarrow> holds u t"
proof -
  show "named u (k_umem t) = named u (k_umem s)"
    by (rule named_frame) (use g u in \<open>auto simp: guarantee_def undisturbed_def\<close>)
  show "holds u t" if "holds u s"
    using that g u by (cases u) (auto simp: holds_def guarantee_def undisturbed_def)
qed

lemma guarantee_undisturbed:
  assumes g: "guarantee ev v s w t" and u: "undisturbed v u (k_umem s)" "undisturbed u v (k_umem s)"
    and new: "\<forall>x. begins ev v x \<longrightarrow> named u (k_umem s) \<noteq> Some x"
  shows "undisturbed w u (k_umem t)" and "undisturbed u w (k_umem t)"
  using g u new unfolding undisturbed_def guarantee_others(1) [OF g u(1)]
  by (auto simp: guarantee_def)

lemma turn_keeps_pool:
  assumes pool: "pool_ok B ia ws s" and i: "i < length ws" and fits: "fits_turn ev (ws ! i) ws s"
  shows "\<exists>w t. worker_turn ev ia (ws ! i) s = Ok w t \<and> pool_ok B ia (ws[i := w]) t"
proof -
  note ok = pool [unfolded pool_ok_def]
  obtain info where info: "find_info ia s = Some info" using listed_info ok by blast
  obtain w t where run: "worker_turn ev ia (ws ! i) s = Ok w t" and own: "owns B t"
    and addrs: "map pi_addr (k_users t) = map pi_addr (k_users s)" and w: "holds w t"
    and g: "guarantee ev (ws ! i) s w t"
    using turn_guarantee [of B s ia info "ws ! i" ev] ok info i fits
    by (fastforce simp: fits_turn_def turn_ok_def)
  have others: "undisturbed (ws ! i) (ws ! j) (k_umem s)" "undisturbed (ws ! j) (ws ! i) (k_umem s)"
    "\<forall>x. begins ev (ws ! i) x \<longrightarrow> named (ws ! j) (k_umem s) \<noteq> Some x"
    if "j < length ws" "j \<noteq> i" for j
    using ok i fits that by (auto simp: apart_def fits_turn_def begins_def)
  have "undisturbed (ws[i := w] ! j) (ws[i := w] ! k) (k_umem t)" if "j < length ws" "k < length ws" "j \<noteq> k" for j k
  proof -
    have "undisturbed (ws ! j) (ws ! k) (k_umem t)" if "j \<noteq> i" "k \<noteq> i"
      using ok that \<open>j < length ws\<close> \<open>k < length ws\<close> \<open>j \<noteq> k\<close> guarantee_others(1) [OF g others(1)]
      by (simp add: apart_def undisturbed_def)
    then show ?thesis
      using that guarantee_undisturbed [OF g others(1) others(2) others(3)]
      by (cases "j = i"; cases "k = i") simp_all
  qed
  then have "apart (ws[i := w]) (k_umem t)" by (simp add: apart_def)
  moreover have "\<forall>u \<in> set (ws[i := w]). holds u t"
  proof -
    have "holds (ws[i := w] ! j) t" if "j < length ws" for j
      using ok w that guarantee_others(2) [OF g others(1) [OF that]] by (cases "j = i") simp_all
    then show ?thesis by (auto simp: in_set_conv_nth)
  qed
  moreover have "ia \<in> pi_addr ` set (k_users t)"
    using ok addrs by (metis list.set_map)
  ultimately show ?thesis using run own by (auto simp: pool_ok_def)
qed

lemma pool_step_ok:
  assumes "pool_step ia (ws, s) (us, t)" and "pool_ok B ia ws s"
  shows "pool_ok B ia us t"
  using assms(1)
proof (rule pool_stepE)
  fix i ev w
  assume "us = ws[i := w]" "i < length ws" "fits_turn ev (ws ! i) ws s" "worker_turn ev ia (ws ! i) s = Ok w t"
  with turn_keeps_pool [OF assms(2), of i ev] show "pool_ok B ia us t" by auto
qed

lemma pool_reach:
  "(pool_step ia)\<^sup>*\<^sup>* p q \<Longrightarrow> pool_ok B ia (fst p) (snd p) \<Longrightarrow> pool_ok B ia (fst q) (snd q)"
  by (induction rule: rtranclp_induct) (auto intro: pool_step_ok)

text \<open>Threads that have not begun hold nothing.\<close>

lemma pool_start:
  assumes "owns B s" and "find_info ia s = Some info" and "apart (map Asking cs) (k_umem s)"
  shows "pool_ok B ia (map Asking cs) s"
  using assms find_info_SomeD [OF assms(2)] by (auto simp: pool_ok_def holds_def)

end
