(* ===== verification/PinnerListRace.thy ===== *)
theory PinnerListRace
  imports PinnerThreads
begin

text \<open>
  Two pin commands on one file whose calls of list_add overlap. In the pool of threads an
  operation on the list is one step, but the driver takes no lock around it, and the kernel
  leaves that to the caller: list_add reads the entry after the head, and then links the new
  entry between the head and the entry it read. Here another thread links its own pinning in
  between.
\<close>

section \<open>The first turn of a pin, with list_add taken apart\<close>

text \<open>Up to get_random_bytes: the pinning is built, and no list was looked at.\<close>

definition pin_build :: "pin_env \<Rightarrow> pinner_cmd \<Rightarrow> kstate \<Rightarrow> (rc + pinning, kstate) outcome" where
  "pin_build ev c s =
     (let off = usr_buf c - page_start (usr_buf c);
          num_pages = num_pages_of (usr_buf c) (usr_buf_sz c);
          fail = (\<lambda>pin p e s. obind (do_pin_error pin p num_pages e s) (\<lambda>r t. Ok (Inl r) t))
      in if num_pages > PINNER_MAX_PAGES then fail None None EINVAL s
         else if num_pages \<le> 0 then fail None None EINVAL s
         else
          (case ev_arr ev of
             None \<Rightarrow> fail None None ENOMEM s
           | Some a \<Rightarrow>
              (let s1 = kalloc (Some a) s in
               case ev_gup ev of
                 Inl e \<Rightarrow> fail None (Some (a, [])) EAGAIN s1
               | Inr pgs \<Rightarrow>
                  (let s2 = get_pages pgs s1 in
                   if int (length pgs) \<noteq> num_pages then fail None (Some (a, pgs)) EAGAIN s2
                   else
                    (case ev_pin ev of
                       None \<Rightarrow> fail None (Some (a, pgs)) ENOMEM s2
                     | Some b \<Rightarrow>
                        (let pin0 = \<lparr>p_addr = b, num_sg_ents = nat num_pages, sglist = None,
                                     p_magic = 0\<rparr>;
                             (ret, pin1, s4) = pinner_alloc_and_fill_sglist ev (Some pgs) num_pages
                               pin0 off (usr_buf_sz c) (kalloc (Some b) s2)
                         in case ret of
                              Inl e \<Rightarrow> fail (Some pin1) (Some (a, pgs)) e s4
                            | Inr _ \<Rightarrow> Ok (Inr (pin1\<lparr>p_magic := ev_magic ev\<rparr>)) s4))))))"

text \<open>The two halves of list_add: what follows the head, and the links around the new entry.\<close>

definition list_head_next :: "kptr \<Rightarrow> kstate \<Rightarrow> (pinning list, kstate) outcome" where
  "list_head_next ia s =
     (case find_info ia s of None \<Rightarrow> Fault UseAfterFree | Some info \<Rightarrow> Ok (pinning_list info) s)"

definition list_add_between :: "pinning \<Rightarrow> pinning list \<Rightarrow> kptr \<Rightarrow> kstate \<Rightarrow> kstate" where
  "list_add_between q next ia = upd_info ia (\<lambda>i. i\<lparr>pinning_list := q # next\<rparr>)"

text \<open>From the second half of list_add to the DMA mapping.\<close>

definition pin_link_at ::
    "pin_env \<Rightarrow> kptr \<Rightarrow> int \<Rightarrow> pinning \<Rightarrow> pinning list \<Rightarrow> kstate \<Rightarrow> (rc + pinning, kstate) outcome" where
  "pin_link_at ev ia num_pages pin1 next s =
     (let s1 = list_add_between pin1 next ia s
      in case sglist pin1 of
           None \<Rightarrow> Fault NullDeref
         | Some (sa, sgl) \<Rightarrow>
            (let (ret, sgl') = ev_dma_map ev sgl;
                 pin2 = pin1\<lparr>sglist := Some (sa, sgl')\<rparr>;
                 s2 = set_pinning_sglist (p_addr pin1) sgl'
                        (dma_event_add (DmaMap sa (num_sg_ents pin1)) s1)
             in case ret of
                  Inl e \<Rightarrow> obind (do_pin_error (Some pin2) None num_pages e s2) (\<lambda>r t. Ok (Inl r) t)
                | Inr k \<Rightarrow> Ok (Inr pin2) s2))"

section \<open>Without another thread in between it is the first turn\<close>

lemma uniq_info:
  assumes "uniq (mset (map pi_addr (k_users s)))" and "find_info ia s = Some info"
    and "i \<in> set (k_users s)" and "pi_addr i = ia"
  shows "i = info"
proof -
  have "inj_on pi_addr (set (k_users s))"
    using uniq_distinct [OF assms(1)] by (simp add: distinct_map)
  with assms(3,4) find_info_SomeD [OF assms(2)] show ?thesis by (auto dest: inj_onD)
qed

lemma list_add_halves:
  assumes "uniq (mset (map pi_addr (k_users s)))" and "find_info ia s = Some info"
  shows "list_add_between q (pinning_list info) ia s = list_add_pinning q ia s"
  using uniq_info [OF assms] by (simp add: list_add_between_def list_add_pinning_def upd_info_def)

lemma pin_link_halves:
  assumes "uniq (mset (map pi_addr (k_users s)))" and "find_info ia s = Some info"
  shows "pin_link ev ia n pin s = pin_link_at ev ia n (pin\<lparr>p_magic := ev_magic ev\<rparr>) (pinning_list info) s"
  by (cases "sglist pin") (simp_all add: pin_link_def pin_link_at_def Let_def list_add_halves [OF assms])

lemma pin_begin_steps:
  assumes "uniq (mset (map pi_addr (k_users s)))" and "find_info ia s = Some info"
  shows "pin_begin ev c ia s =
    obind (pin_build ev c s) (\<lambda>r t. case r of Inl x \<Rightarrow> Ok (Inl x) t
      | Inr pin \<Rightarrow> obind (list_head_next ia t) (\<lambda>next u.
          pin_link_at ev ia (num_pages_of (usr_buf c) (usr_buf_sz c)) pin next u))"
proof -
  have at: "k_users t = k_users s \<Longrightarrow> find_info ia t = Some info \<and>
      pin_link ev ia n pin t = pin_link_at ev ia n (pin\<lparr>p_magic := ev_magic ev\<rparr>) (pinning_list info) t" for t n pin
    using pin_link_halves [of t ia info] assms by (simp add: find_info_def)
  show ?thesis
    unfolding pin_begin_def pin_build_def Let_def list_head_next_def
    by (auto simp: obind_assoc pinner_alloc_and_fill_sglist_def kalloc_def get_pages_def at
        intro!: obind_cong split: option.split sum.split)
qed

section \<open>With another thread in between\<close>

lemma pin_build_built:
  assumes env: "pin_fits ev c s" and run: "pin_build ev c s = Ok (Inr q) t"
  obtains a b sa pgs where "ev_gup ev = Inr pgs"
    and "built s t a (new_pinning b (length pgs) sa (pin_sglist ev c pgs)) sa (pin_sglist ev c pgs)"
    and "q = (new_pinning b (length pgs) sa (pin_sglist ev c pgs))\<lparr>p_magic := ev_magic ev\<rparr>"
proof -
  obtain pgs sa where gup: "ev_gup ev = Inr pgs" "int (length pgs) = num_pages_of (usr_buf c) (usr_buf_sz c)"
    "ev_sgl ev = Some sa" using env by (auto simp: pin_fits_def env_complete_def)
  obtain a b where ab: "ev_arr ev = Some a" "ev_pin ev = Some b" and good: "good_size c"
    using run gup by (auto simp: pin_build_def Let_def good_size_def PINNER_MAX_PAGES_def
        split: option.splits if_splits elim!: obind_Ok_E)
  let ?s4 = "kalloc (Some sa) (kalloc (Some b) (get_pages pgs (kalloc (Some a) s)))"
  have "pin_build ev c s =
      Ok (Inr ((new_pinning b (length pgs) sa (pin_sglist ev c pgs))\<lparr>p_magic := ev_magic ev\<rparr>)) ?s4"
    using good
    by (simp add: pin_build_def Let_def good_size_def ab gup pinner_alloc_and_fill_sglist_def
        new_pinning_def pin_sglist_def flip: gup(2))
  moreover have "built s ?s4 a (new_pinning b (length pgs) sa (pin_sglist ev c pgs)) sa (pin_sglist ev c pgs)"
    using env by (intro pin_built [OF good gup(2) _ ab gup(3)]) (simp add: pin_fits_def)
  ultimately show thesis using run gup(1) that by simp
qed

text \<open>A pinning that is built and not linked yet: its pages are held besides those of the lists.\<close>

lemma built_owns:
  assumes "owns B s" and "built s t a pin sa l"
  shows "owns (B + mset (map sg_pg l)) t"
  using assms subset_mset.order_trans [of "user_addrs (k_users s)" "k_live s" "k_live t"]
  by (simp add: owns_def built_def ac_simps del: mset_map)

lemma published_pages:
  assumes "built s t a pin sa l" and "\<forall>l. map sg_pg (snd (ev_dma_map ev l)) = map sg_pg l"
  shows "pin_pages (published ev pin sa l) = mset (map sg_pg l)"
proof -
  have "length (snd (ev_dma_map ev l)) = length l" using assms(2) by (metis length_map)
  with assms show ?thesis by (simp add: pin_pages_def published_def built_def del: mset_map)
qed

text \<open>The late thread overwrites the link of the thread in between.\<close>

lemma late_link:
  assumes "uniq (mset (map pi_addr us))" and "find (\<lambda>i. pi_addr i = ia) us = Some info"
  shows "map (\<lambda>i. if pi_addr i = ia then i\<lparr>pinning_list := q # pinning_list info\<rparr> else i) (link_pinning ia p us) =
    link_pinning ia q us"
proof -
  have "inj_on pi_addr (set us)" using uniq_distinct [OF assms(1)] by (simp add: distinct_map)
  then have "i = info" if "i \<in> set us" "pi_addr i = ia" for i
    using that assms(2) by (auto simp: find_Some_iff dest: inj_onD)
  then show ?thesis unfolding link_pinning_def map_map by (intro map_cong) auto
qed

lemma overlapping_adds:
  assumes own: "owns B s" and info: "find_info ia s = Some info"
    and late: "pin_fits evq cq s" "pin_build evq cq s = Ok (Inr q0) s1" "list_head_next ia s1 = Ok next s1"
    and between: "pin_fits evp cp s1" "pin_begin evp cp ia s1 = Ok (Inr p) t1"
    and link: "pin_link_at evq ia n q0 next t1 = Ok (Inr q) u"
  shows "user_pins (k_users u) = add_mset q (user_pins (k_users s))" and "p \<notin># user_pins (k_users u)"
    and "owns (B + pin_pages p) u" and "pin_pages p \<noteq> {#}"
proof -
  obtain a b sa pgs where bq: "built s s1 a (new_pinning b (length pgs) sa (pin_sglist evq cq pgs)) sa (pin_sglist evq cq pgs)"
    and q0: "q0 = (new_pinning b (length pgs) sa (pin_sglist evq cq pgs))\<lparr>p_magic := ev_magic evq\<rparr>"
    by (rule pin_build_built [OF late(1,2)])
  define pinq l where "pinq = new_pinning b (length pgs) sa (pin_sglist evq cq pgs)" and "l = pin_sglist evq cq pgs"
  note bq = bq [folded pinq_def l_def]
  have users1: "k_users s1 = k_users s" using bq by (simp add: built_def)
  then have info1: "find_info ia s1 = Some info" using info by (simp add: find_info_def)
  then have nx: "next = pinning_list info" using late(3) by (simp add: list_head_next_def)
  note own1 = built_owns [OF own bq]
  obtain a' pin' sa' l' s4' where bp: "built s1 s4' a' pin' sa' l'" and p: "p = published evp pin' sa' l'"
    and t1: "t1 = linked_state evp ia pin' sa' l' s4'" and new: "{a', p_addr pin', sa'} \<subseteq> set (new_addrs evp)"
    and dmap: "\<forall>l. map sg_pg (snd (ev_dma_map evp l)) = map sg_pg l"
    by (rule pin_begin_linked [OF own1 info1 between])
  have ia: "ia \<in> pi_addr ` set (k_users s)" using find_info_SomeD [OF info] by auto
  have pagesp: "pin_pages p = mset (map sg_pg l')" using published_pages [OF bp dmap] by (simp only: p)
  show "pin_pages p \<noteq> {#}" using bp by (auto simp: pagesp built_def)
  define s' where "s' = s\<lparr>k_refs := k_refs s + mset (map sg_pg l'), k_live := k_live s + {#a', p_addr pin', sa'#}\<rparr>"
  define t' where "t' = t1\<lparr>k_users := k_users s\<rparr>"
  have "a' \<notin># k_live s1 \<and> p_addr pin' \<notin># k_live s1 \<and> sa' \<notin># k_live s1"
    using between(1) new by (simp add: pin_fits_def env_ok_def)
  then have b': "built s' t' a pinq sa l"
    using bq bp by (auto simp: built_def s'_def t'_def t1 linked_state_def ac_simps simp del: mset_map)
  have "user_addrs (k_users s) \<subseteq># k_live s + {#a', p_addr pin', sa'#}"
    using own subset_mset.order_trans by (fastforce simp: owns_def)
  then have own': "owns (B + pin_pages p) s'"
    using own by (simp add: owns_def s'_def pagesp ac_simps del: mset_map)
  have dmaq: "\<forall>l. map sg_pg (snd (ev_dma_map evq l)) = map sg_pg l"
    using late(1) by (simp add: pin_fits_def env_ok_def)
  have uq: "uniq (mset (map pi_addr (k_users s)))"
    using own by (auto simp: owns_def user_addrs_def dest: uniq_plusD)
  have q0: "q0 = pinq\<lparr>p_magic := ev_magic evq\<rparr>" "sglist q0 = Some (sa, l)" "p_addr q0 = p_addr pinq"
    "num_sg_ents q0 = num_sg_ents pinq"
    using q0 by (simp_all add: pinq_def l_def new_pinning_def)
  have "k_users (list_add_between q0 next ia t1) = link_pinning ia q0 (k_users s)"
    using late_link [OF uq info [unfolded find_info_def], of q0 p] bp users1
    by (simp add: list_add_between_def upd_info_def t1 linked_state_def nx p built_def)
  then have add: "list_add_between q0 next ia t1 = list_add_pinning q0 ia t'"
    by (simp add: list_add_between_def list_add_pinning_def upd_info_def t'_def link_pinning_def)
  obtain ret l'' where d: "ev_dma_map evq l = (ret, l'')" by force
  have "pin_link_at evq ia n q0 next t1 =
      (case ret of Inl e \<Rightarrow> obind (do_pin_error (Some (q0\<lparr>sglist := Some (sa, l'')\<rparr>)) None n e
          (linked_state evq ia pinq sa l t')) (\<lambda>r t. Ok (Inl r) t)
       | Inr k \<Rightarrow> Ok (Inr (q0\<lparr>sglist := Some (sa, l'')\<rparr>)) (linked_state evq ia pinq sa l t'))"
    unfolding linked_state_steps(2) [OF own' b' d, where ia = ia, symmetric] q0(1) [symmetric]
    by (simp add: pin_link_at_def Let_def add q0(2-4) d)
  with link have "q = q0\<lparr>sglist := Some (sa, l'')\<rparr>" and u: "u = linked_state evq ia pinq sa l t'"
    by (auto split: sum.splits elim!: obind_Ok_E)
  then have q: "q = published evq pinq sa l"
    using linked_state_steps(1) [OF own' b' d] by (simp add: q0(1))
  have ia': "ia \<in> pi_addr ` set (k_users s')" using ia by (simp add: s'_def)
  note linked = linked_state_owns [OF own' ia' b' dmaq]
  show "owns (B + pin_pages p) u" using linked(1) by (simp only: u)
  show pins: "user_pins (k_users u) = add_mset q (user_pins (k_users s))"
    using linked(2) by (simp add: u q s'_def)
  have "p_addr pin' \<notin># k_live s1" using bp by (simp add: built_def)
  then have "p_addr pin' \<notin># k_live s" "p_addr pin' \<noteq> p_addr pinq" using bq by (auto simp: built_def)
  then have "p_addr p \<notin> p_addr ` set (concat (map pinning_list (k_users s)))" "p_addr p \<noteq> p_addr q"
    using not_live_not_linked [OF own, of "p_addr pin'"] by (simp_all add: p q published_def)
  then have "p \<notin># user_pins (k_users s)" "p \<noteq> q" by (auto simp: user_pins_def)
  then show "p \<notin># user_pins (k_users u)" by (simp add: pins)
qed

end
