(* ===== verification/PinnerCommentary.thy ===== *)
theory PinnerCommentary
  imports PinnerSpec
begin

text \<open>
  The annotated copy of the driver, drivers/pinner/commentary.c, translated function by function
  from its own text: its loops run over an index or a list as they are written, its pin command
  is one function. Then how its operations compare with those of pinner.c (theory Pinner).
  The kernel services are those of theory Kernel.
\<close>

section \<open>Releasing pages and pinnings\<close>

function comm_put_page_list :: "page list \<Rightarrow> nat \<Rightarrow> nat \<Rightarrow> kstate \<Rightarrow> (unit, kstate) outcome" where
  "comm_put_page_list p i num_pages s =
     (if i < num_pages
      then if i < length p
           then obind (put_page (p ! i) s) (\<lambda>_ t. comm_put_page_list p (i + 1) num_pages t)
           else Fault UninitRead
      else Ok () s)"
  by pat_completeness auto
termination
  by (relation "measure (\<lambda>(p, i, n, s). n - i)") auto

declare comm_put_page_list.simps [simp del]

function comm_put_sglist_loop :: "scatterlist list \<Rightarrow> nat \<Rightarrow> nat \<Rightarrow> kstate \<Rightarrow> (unit, kstate) outcome" where
  "comm_put_sglist_loop l i num_entries s =
     (if i < num_entries
      then if i < length l
           then obind (put_page (sg_pg (l ! i)) s) (\<lambda>_ t. comm_put_sglist_loop l (i + 1) num_entries t)
           else Fault OutOfBounds
      else Ok () s)"
  by pat_completeness auto
termination
  by (relation "measure (\<lambda>(l, i, n, s). n - i)") auto

declare comm_put_sglist_loop.simps [simp del]

definition comm_put_sglist_pages ::
    "(kptr \<times> scatterlist list) option \<Rightarrow> nat \<Rightarrow> kstate \<Rightarrow> (unit, kstate) outcome" where
  "comm_put_sglist_pages sgl num_entries s =
     (if sgl = None then Ok () s else comm_put_sglist_loop (snd (the sgl)) 0 num_entries s)"

definition comm_free_pinning :: "pinning \<Rightarrow> kstate \<Rightarrow> (unit, kstate) outcome" where
  "comm_free_pinning p s =
     obind (Ok () (dma_event_add (DmaUnmap (map_option fst (sglist p)) (num_sg_ents p)) s)) (\<lambda>_ s1.
     obind (comm_put_sglist_pages (sglist p) (num_sg_ents p) s1) (\<lambda>_ s2.
     obind (kfree (map_option fst (sglist p)) s2) (\<lambda>_ s3.
     obind (list_del_pinning (p_addr p) s3) (\<lambda>_ s4.
     kfree (Some (p_addr p)) s4))))"

lemma comm_put_page_list_eq: "comm_put_page_list p i n s = put_page_list (drop i p) (n - i) s"
proof (induction p i n s rule: comm_put_page_list.induct)
  case (1 p i n s)
  show ?case
  proof (cases "i < n \<and> i < length p")
    case True
    then have "drop i p = p ! i # drop (Suc i) p" "n - i = Suc (n - Suc i)"
      by (simp_all add: Cons_nth_drop_Suc Suc_diff_Suc)
    with 1 True show ?thesis
      by (cases "put_page (p ! i) s") (simp_all add: comm_put_page_list.simps [of p i])
  next
    case False
    then show ?thesis
      by (cases "n - i") (auto simp: comm_put_page_list.simps [of p i])
  qed
qed

lemma comm_put_sglist_loop_eq: "comm_put_sglist_loop l i n s = put_sg_pages (drop i l) (n - i) s"
proof (induction l i n s rule: comm_put_sglist_loop.induct)
  case (1 l i n s)
  show ?case
  proof (cases "i < n \<and> i < length l")
    case True
    then have "drop i l = l ! i # drop (Suc i) l" "n - i = Suc (n - Suc i)"
      by (simp_all add: Cons_nth_drop_Suc Suc_diff_Suc)
    with 1 True show ?thesis
      by (cases "put_page (sg_pg (l ! i)) s") (simp_all add: comm_put_sglist_loop.simps [of l i])
  next
    case False
    then show ?thesis
      by (cases "n - i") (auto simp: comm_put_sglist_loop.simps [of l i])
  qed
qed

lemma comm_free_pinning_eq: "comm_free_pinning p s = pinner_free_pinning p s"
  by (auto simp: comm_free_pinning_def pinner_free_pinning_def comm_put_sglist_pages_def
      pinner_put_sglist_pages_def comm_put_sglist_loop_eq Let_def split: option.split)

text \<open>The loop that frees the first pinning of the list until there is none.\<close>

function comm_free_pinnings :: "kptr \<Rightarrow> kstate \<Rightarrow> (unit, kstate) outcome" where
  "comm_free_pinnings ia s =
     (case find_info ia s of
        None \<Rightarrow> Fault UseAfterFree
      | Some info \<Rightarrow>
          if pinning_list info \<noteq> []
          then obind (comm_free_pinning (hd (pinning_list info)) s) (\<lambda>_ t. comm_free_pinnings ia t)
          else Ok () s)"
  by pat_completeness auto
termination
  by (relation "measure (\<lambda>(ia, s). num_pinnings s)")
     (auto simp: comm_free_pinning_eq dest: pinner_free_pinning_fewer)

declare comm_free_pinnings.simps [simp del]

lemma comm_free_pinnings_eq: "comm_free_pinnings ia s = pinner_free_pinnings ia s"
proof (induction ia s rule: comm_free_pinnings.induct)
  case (1 ia s)
  show ?case
  proof (cases "find_info ia s")
    case None
    then show ?thesis by (simp add: comm_free_pinnings.simps [of ia s] pinner_free_pinnings.simps [of ia s])
  next
    case (Some info)
    show ?thesis
    proof (cases "pinning_list info")
      case Nil
      with Some show ?thesis
        by (simp add: comm_free_pinnings.simps [of ia s] pinner_free_pinnings.simps [of ia s])
    next
      case (Cons p ps)
      with Some 1 [OF Some] show ?thesis
        by (cases "pinner_free_pinning p s")
           (simp_all add: comm_free_pinnings.simps [of ia s] pinner_free_pinnings.simps [of ia s]
             comm_free_pinning_eq)
    qed
  qed
qed

definition comm_free_proc_info :: "kptr \<Rightarrow> kstate \<Rightarrow> (unit, kstate) outcome" where
  "comm_free_proc_info ia s =
     obind (comm_free_pinnings ia s) (\<lambda>_ t.
       kfree (Some ia) (t\<lparr>k_users := filter (\<lambda>i. pi_addr i \<noteq> ia) (k_users t)\<rparr>))"

section \<open>Reporting a pinning and building the scatterlist\<close>

text \<open>The loop over the entries of the buffer that kzalloc returned.\<close>

function comm_fill_entries ::
    "scatterlist list \<Rightarrow> nat \<Rightarrow> nat \<Rightarrow> physlist_entry list \<Rightarrow> physlist_entry list" where
  "comm_fill_entries l i n entries =
     (if i < n
      then comm_fill_entries l (i + 1) n
        (entries[i := \<lparr>pe_addr = sg_dma_address (l ! i) + ucast (sg_offset (l ! i)),
                       pe_len = sg_length (l ! i)\<rparr>])
      else entries)"
  by pat_completeness auto
termination
  by (relation "measure (\<lambda>(l, i, n, es). n - i)") auto

declare comm_fill_entries.simps [simp del]

definition comm_send_physlist ::
    "pin_env \<Rightarrow> pinner_cmd \<Rightarrow> pinning \<Rightarrow> kstate \<Rightarrow> (rc, kstate) outcome" where
  "comm_send_physlist ev c p s =
     (let user_num_entries = physlist_ptr c;
          user_entries = physlist_ptr c + entries_offset;
          cleanup = (\<lambda>r x s. obind (kfree (Some x) s) (\<lambda>_ t. Ok r t))
      in case ev_ents ev of
           None \<Rightarrow> Ok (Inl ENOMEM) s
         | Some x \<Rightarrow>
            (let s1 = kalloc (Some x) s in
             case sglist p of
               None \<Rightarrow> Fault NullDeref
             | Some (sa, l) \<Rightarrow>
                if length l < num_sg_ents p then Fault OutOfBounds
                else
                 (let entries = comm_fill_entries l 0 (num_sg_ents p)
                        (replicate (num_sg_ents p) \<lparr>pe_addr = 0, pe_len = 0\<rparr>) in
                  case copy_count_to_user user_num_entries (of_nat (num_sg_ents p)) (k_umem s1) of
                    None \<Rightarrow> cleanup (Inl EAGAIN) x s1
                  | Some m \<Rightarrow>
                     (case copy_entries_to_user user_entries entries m of
                        None \<Rightarrow> cleanup (Inl EAGAIN) x (s1\<lparr>k_umem := m\<rparr>)
                      | Some m' \<Rightarrow> cleanup (Inr ()) x (s1\<lparr>k_umem := m'\<rparr>)))))"

lemma comm_fill_entries_eq:
  assumes "length es = n" and "n \<le> length l"
  shows "comm_fill_entries l i n es = take i es @ map entry_of (drop i (take n l))"
  using assms
proof (induction l i n es rule: comm_fill_entries.induct)
  case (1 l i n es)
  show ?case
  proof (cases "i < n")
    case True
    then have "i < length (take n l)" using 1 by simp
    from Cons_nth_drop_Suc [OF this] True have d: "drop i (take n l) = l ! i # drop (Suc i) (take n l)"
      by simp
    from 1 True show ?thesis
      by (simp add: comm_fill_entries.simps [of l i] d entry_of_def take_Suc_conv_app_nth)
  next
    case False
    with 1 show ?thesis by (simp add: comm_fill_entries.simps [of l i])
  qed
qed

lemma comm_send_physlist_eq: "comm_send_physlist ev c p s = pinner_send_physlist ev c p s"
  by (auto simp: comm_send_physlist_def pinner_send_physlist_def Let_def comm_fill_entries_eq
      split: option.split)

text \<open>The assignments to one entry of the scatterlist, and the loop over the middle pages.\<close>

definition comm_set_sg ::
    "(page \<Rightarrow> u64) \<Rightarrow> page list \<Rightarrow> nat \<Rightarrow> u64 \<Rightarrow> u64 \<Rightarrow> scatterlist list \<Rightarrow> scatterlist list" where
  "comm_set_sg phys page_arr i len off l =
     (let l1 = l[i := sg_set_page (l ! i) (page_arr ! i) len off]
      in l1[i := (l1 ! i)\<lparr>sg_dma_address := phys (page_arr ! i)\<rparr>])"

definition comm_alloc_and_fill_sglist ::
    "pin_env \<Rightarrow> page list option \<Rightarrow> int \<Rightarrow> pinning \<Rightarrow> u64 \<Rightarrow> u32 \<Rightarrow> kstate \<Rightarrow> rc \<times> pinning \<times> kstate" where
  "comm_alloc_and_fill_sglist ev page_arr num_pages p first_page_offset total_sz s =
     (if page_arr = None \<or> num_pages \<le> 0 then (Inl EINVAL, p, s)
      else
        let pages = the page_arr; n = nat num_pages; phys = ev_page_to_phys ev in
        case ev_sgl ev of
          None \<Rightarrow> (Inl ENOMEM, p\<lparr>sglist := None\<rparr>, s)
        | Some a \<Rightarrow>
            (let first_page_sz = (if ucast total_sz < PAGE_SIZE - first_page_offset then total_sz
                                  else ucast (PAGE_SIZE - first_page_offset));
                 l0 = replicate n zero_sg;
                 l1 = comm_set_sg phys pages 0 (ucast first_page_sz) first_page_offset l0;
                 l2 = fold (\<lambda>i. comm_set_sg phys pages i PAGE_SIZE 0) [1..<n - 1] l1;
                 l3 = (if 1 < n
                       then comm_set_sg phys pages (n - 1)
                         (ucast total_sz - (PAGE_SIZE - first_page_offset) - of_nat (n - 2) * PAGE_SIZE) 0 l2
                       else l2)
             in (Inr (), p\<lparr>sglist := Some (a, l3)\<rparr>, kalloc (Some a) s)))"

lemma comm_set_sg_eq: "i < length l \<Longrightarrow> comm_set_sg phys pgs i len off l = set_entry phys pgs i len off l"
  by (simp add: comm_set_sg_def set_entry_def Let_def)

lemma comm_middle_eq:
  "length l = n \<Longrightarrow> fold (\<lambda>i. comm_set_sg phys pgs i PAGE_SIZE 0) [i..<n - 1] l = fill_middle phys pgs n i l"
proof (induction phys pgs n i l rule: fill_middle.induct)
  case (1 phys pgs n i l)
  show ?case
  proof (cases "i + 1 < n")
    case True
    then have "[i..<n - 1] = i # [Suc i..<n - 1]" by (simp add: upt_conv_Cons)
    with 1 True show ?thesis
      by (simp add: fill_middle.simps [of phys pgs n i] comm_set_sg_eq)
  next
    case False
    then show ?thesis by (simp add: fill_middle.simps [of phys pgs n i])
  qed
qed

lemma comm_alloc_and_fill_eq:
  "comm_alloc_and_fill_sglist ev arr n p off sz s = pinner_alloc_and_fill_sglist ev arr n p off sz s"
proof (cases "\<exists>pgs. arr = Some pgs \<and> 0 < n")
  case True
  then obtain pgs where arr: "arr = Some pgs" and n: "0 < nat n" "\<not> n \<le> 0" by auto
  have "comm_set_sg f pgs 0 x y (replicate (nat n) zero_sg) = set_entry f pgs 0 x y (replicate (nat n) zero_sg)" for f x y
    by (rule comm_set_sg_eq) (use n in simp)
  moreover have "comm_set_sg f pgs (nat n - 1) x y l = set_entry f pgs (nat n - 1) x y l" if "length l = nat n" for f x y l
    by (rule comm_set_sg_eq) (use n that in simp)
  moreover have "fill_middle f pgs k 1 l = l" if "\<not> 1 < k" for f k l
    using that by (subst fill_middle.simps) simp
  ultimately show ?thesis
    using arr n
    by (simp add: comm_alloc_and_fill_sglist_def pinner_alloc_and_fill_sglist_def fill_sglist_def
        first_page_sz_def comm_middle_eq Let_def split: option.split del: One_nat_def)
qed (auto simp: comm_alloc_and_fill_sglist_def pinner_alloc_and_fill_sglist_def split: option.split)

section \<open>The commands\<close>

text \<open>The label do_pin_error: \<open>pin\<close> and \<open>p\<close> as they are at the goto.\<close>

definition comm_pin_error ::
    "pinning option \<Rightarrow> (kptr \<times> page list) option \<Rightarrow> int \<Rightarrow> rc \<Rightarrow> kstate \<Rightarrow> (rc, kstate) outcome" where
  "comm_pin_error pin p num_pages ret s =
     (if pin \<noteq> None then obind (comm_free_pinning (the pin) s) (\<lambda>_ t. Ok ret t)
      else if p \<noteq> None
      then obind (comm_put_page_list (snd (the p)) 0 (nat num_pages) s) (\<lambda>_ t.
           obind (kfree (map_option fst p) t) (\<lambda>_ u. Ok ret u))
      else Ok ret s)"

definition comm_do_pin :: "pin_env \<Rightarrow> pinner_cmd \<Rightarrow> kptr \<Rightarrow> kstate \<Rightarrow> (rc, kstate) outcome" where
  "comm_do_pin ev c ia s =
     (let page_sz = push_bit PAGE_SHIFT 1;
          mask = page_sz - 1;
          start = (usr_buf c OR mask) - mask;
          first_pg_offset = usr_buf c - start;
          num_pages = sint (ucast ((first_pg_offset + ucast (usr_buf_sz c) + mask) div page_sz) :: u32)
      in if num_pages > PINNER_MAX_PAGES \<or> num_pages \<le> 0 then comm_pin_error None None num_pages (Inl EINVAL) s
         else
          (case ev_arr ev of
             None \<Rightarrow> comm_pin_error None None num_pages (Inl ENOMEM) s
           | Some a \<Rightarrow>
              (let (n, pgs) = (case ev_gup ev of Inl e \<Rightarrow> (- 1, []) | Inr pgs \<Rightarrow> (int (length pgs), pgs));
                   s1 = get_pages pgs (kalloc (Some a) s)
               in if n \<noteq> num_pages then comm_pin_error None (Some (a, pgs)) num_pages (Inl EAGAIN) s1
                  else
                   (case ev_pin ev of
                      None \<Rightarrow> comm_pin_error None (Some (a, pgs)) num_pages (Inl ENOMEM) s1
                    | Some b \<Rightarrow>
                       (let pin0 = \<lparr>p_addr = b, num_sg_ents = nat num_pages, sglist = None, p_magic = 0\<rparr>;
                            (ret, pin, s2) = comm_alloc_and_fill_sglist ev (Some pgs) num_pages pin0
                              first_pg_offset (usr_buf_sz c) (kalloc (Some b) s1)
                        in if ret \<noteq> Inr () then comm_pin_error (Some pin) (Some (a, pgs)) num_pages ret s2
                           else
                            (case find_info ia s2 of
                               None \<Rightarrow> Fault UseAfterFree
                             | Some info \<Rightarrow>
                                (case sglist pin of
                                   None \<Rightarrow> Fault NullDeref
                                 | Some (sa, l) \<Rightarrow>
                                    (let pin = pin\<lparr>p_magic := ev_magic ev\<rparr>;
                                         s3 = list_add_pinning pin ia s2;
                                         (mapped, l') = ev_dma_map ev l;
                                         pin = pin\<lparr>sglist := Some (sa, l')\<rparr>;
                                         s4 = set_pinning_sglist (p_addr pin) l'
                                                (dma_event_add (DmaMap sa (num_sg_ents pin)) s3)
                                     in case mapped of
                                          Inl e \<Rightarrow> comm_pin_error (Some pin) None num_pages (Inl e) s4
                                        | Inr k \<Rightarrow>
                                           obind (comm_send_physlist ev c pin s4) (\<lambda>ret s5.
                                             if ret \<noteq> Inr () then comm_pin_error (Some pin) None num_pages ret s5
                                             else
                                              (case copy_handle_to_user (handle_ptr c)
                                                      \<lparr>user_magic = pi_magic info, pin_magic = p_magic pin\<rparr>
                                                      (k_umem s5) of
                                                 None \<Rightarrow> comm_pin_error (Some pin) None num_pages (Inl EAGAIN) s5
                                               | Some m \<Rightarrow> Ok (Inr ()) (s5\<lparr>k_umem := m\<rparr>)))))))))))"

lemma comm_pin_error_eq: "comm_pin_error pin p n (Inl e) s = do_pin_error pin p n e s"
  by (auto simp: comm_pin_error_def do_pin_error_def comm_free_pinning_eq comm_put_page_list_eq
      split: option.split)

lemma comm_do_pin_eq: "comm_do_pin ev c ia s = pinner_do_pin ev c ia s"
proof -
  have np: "sint (ucast ((usr_buf c - page_start (usr_buf c) + ucast (usr_buf_sz c) + page_mask) div PAGE_SIZE) :: u32) =
      num_pages_of (usr_buf c) (usr_buf_sz c)"
    by (simp add: num_pages_of_def)
  have gp: "get_pages [] t = t" for t by (simp add: get_pages_def)
  have rc: "(if r \<noteq> Inr () then f r else g) = (case r of Inl e \<Rightarrow> f (Inl e) | Inr u \<Rightarrow> g)" for r :: rc and f g
    by (cases r) simp_all
  show ?thesis
    unfolding comm_do_pin_def PAGE_SIZE_def [symmetric] page_mask_def [symmetric] page_start_def [symmetric] Let_def np rc
      comm_pin_error_eq comm_alloc_and_fill_eq comm_send_physlist_eq
    by (auto simp: pinner_do_pin_def do_pin_publish_def Let_def gp comm_pin_error_eq pinner_alloc_and_fill_sglist_def
        intro!: obind_cong split: option.split sum.split prod.split)
qed

text \<open>The loop that searches the list of pinnings.\<close>

fun comm_search :: "u32 \<Rightarrow> pinning list \<Rightarrow> pinning option" where
  "comm_search m [] = None"
| "comm_search m (p # ps) = (if m = p_magic p then Some p else comm_search m ps)"

definition comm_do_flush :: "pinner_cmd \<Rightarrow> kptr \<Rightarrow> kstate \<Rightarrow> (rc, kstate) outcome" where
  "comm_do_flush c ia s =
     (case um_handles (k_umem s) (handle_ptr c) of
        None \<Rightarrow> Ok (Inl EAGAIN) s
      | Some h \<Rightarrow>
         (case find_info ia s of
            None \<Rightarrow> Fault UseAfterFree
          | Some info \<Rightarrow>
             if user_magic h \<noteq> pi_magic info then Ok (Inl EINVAL) s
             else
              (case comm_search (pin_magic h) (pinning_list info) of
                 None \<Rightarrow> Ok (Inl EINVAL) s
               | Some p \<Rightarrow>
                  (let sg = map_option fst (sglist p);
                       s1 = dma_event_add (SyncForCpu sg (num_sg_ents p)) s;
                       s2 = dma_event_add (SyncForDevice sg (num_sg_ents p)) s1
                   in Ok (Inr ()) s2))))"

definition comm_do_unpin :: "pinner_cmd \<Rightarrow> kptr \<Rightarrow> kstate \<Rightarrow> (rc, kstate) outcome" where
  "comm_do_unpin c ia s =
     (case um_handles (k_umem s) (handle_ptr c) of
        None \<Rightarrow> Ok (Inl EAGAIN) s
      | Some h \<Rightarrow>
         (case find_info ia s of
            None \<Rightarrow> Fault UseAfterFree
          | Some info \<Rightarrow>
             if user_magic h \<noteq> pi_magic info then Ok (Inl EINVAL) s
             else
              (case comm_search (pin_magic h) (pinning_list info) of
                 None \<Rightarrow> Ok (Inl EINVAL) s
               | Some p \<Rightarrow> obind (comm_free_pinning p s) (\<lambda>_ t. Ok (Inr ()) t))))"

section \<open>File operations and module entry points\<close>

definition comm_open :: "kptr option \<Rightarrow> u32 \<Rightarrow> nat \<Rightarrow> kstate \<Rightarrow> (rc, kstate) outcome" where
  "comm_open a magic filp s =
     (if a = None then Ok (Inl ENOMEM) s
      else
        let info = \<lparr>pi_addr = the a, pinning_list = [], pi_magic = magic\<rparr>;
            s1 = kalloc a s;
            s2 = s1\<lparr>k_users := info # k_users s1\<rparr>
        in Ok (Inr ()) (s2\<lparr>k_private := (k_private s2)(filp \<mapsto> the a)\<rparr>))"

definition comm_release :: "nat \<Rightarrow> kstate \<Rightarrow> (rc, kstate) outcome" where
  "comm_release filp s =
     (case k_private s filp of
        None \<Rightarrow> Fault NullDeref
      | Some ia \<Rightarrow> obind (comm_free_proc_info ia s) (\<lambda>_ t. Ok (Inr ()) t))"

definition comm_write ::
    "pin_env \<Rightarrow> nat \<Rightarrow> u64 \<Rightarrow> u64 \<Rightarrow> kstate \<Rightarrow> (rc, kstate) outcome" where
  "comm_write ev filp buf sz s =
     (if sz \<noteq> sizeof_pinner_cmd then Ok (Inl EINVAL) s
      else
       (case um_cmds (k_umem s) buf of
          None \<Rightarrow> Ok (Inl EAGAIN) s
        | Some c \<Rightarrow>
           (case k_private s filp of
              None \<Rightarrow> Fault NullDeref
            | Some ia \<Rightarrow>
               if cmd c = PINNER_PIN then comm_do_pin ev c ia s
               else if cmd c = PINNER_UNPIN then comm_do_unpin c ia s
               else if cmd c = PINNER_FLUSH then comm_do_flush c ia s
               else Ok (Inl ENOSYS) s)))"

definition comm_init :: "errno + nat \<Rightarrow> kstate \<Rightarrow> (errno + nat) \<times> kstate" where
  "comm_init r s =
     (r, case r of Inl e \<Rightarrow> s | Inr k \<Rightarrow> s\<lparr>k_device := True, k_registered := True\<rparr>)"

lemma comm_free_proc_info_eq: "comm_free_proc_info ia s = pinner_free_proc_info ia s"
  by (simp add: comm_free_proc_info_def pinner_free_proc_info_def comm_free_pinnings_eq)

lemma comm_search_eq: "comm_search m (pinning_list info) = find_pinning m info"
proof -
  have "comm_search m ps = find (\<lambda>p. m = p_magic p) ps" for ps by (induction ps) simp_all
  then show ?thesis by (simp add: find_pinning_def)
qed

lemma comm_do_unpin_eq: "comm_do_unpin c ia s = pinner_do_unpin c ia s"
  by (simp add: comm_do_unpin_def pinner_do_unpin_def comm_search_eq comm_free_pinning_eq split: option.split)

lemma comm_open_eq: "comm_open a magic f s = pinner_open a magic f s"
  by (cases a) (simp_all add: comm_open_def pinner_open_def Let_def)

lemma comm_release_eq: "comm_release f s = pinner_release f s"
  by (simp add: comm_release_def pinner_release_def comm_free_proc_info_eq cong: option.case_cong)

lemma comm_init_eq: "comm_init r s = pinner_init r s"
  by (cases r) (simp_all add: comm_init_def pinner_init_def)

lemma comm_write_eq:
  "\<not> (\<exists>c. um_cmds (k_umem s) buf = Some c \<and> cmd c = PINNER_FLUSH) \<Longrightarrow>
     comm_write ev f buf sz s = pinner_write ev f buf sz s"
  by (auto simp: comm_write_def pinner_write_def comm_do_pin_eq comm_do_unpin_eq split: option.split)

text \<open>The loop of the exit function.\<close>

function comm_free_users :: "kstate \<Rightarrow> (unit, kstate) outcome" where
  "comm_free_users s =
     (if k_users s \<noteq> []
      then obind (comm_free_proc_info (pi_addr (hd (k_users s))) s) (\<lambda>_ t. comm_free_users t)
      else Ok () s)"
  by pat_completeness auto
termination
proof (relation "measure (\<lambda>s. length (k_users s))")
  fix s a t
  assume users: "k_users s \<noteq> []" and ok: "comm_free_proc_info (pi_addr (hd (k_users s))) s = Ok a t"
  let ?ia = "pi_addr (hd (k_users s))"
  have "length (map pi_addr (k_users t)) = length (filter (\<lambda>a. a \<noteq> ?ia) (map pi_addr (k_users s)))"
    using pinner_free_proc_info_users [OF ok [unfolded comm_free_proc_info_eq]] by simp
  also have "\<dots> < length (map pi_addr (k_users s))"
    by (rule length_filter_less [of ?ia]) (use users in \<open>simp_all add: hd_in_set\<close>)
  finally show "(t, s) \<in> measure (\<lambda>s. length (k_users s))" by simp
qed simp

declare comm_free_users.simps [simp del]

definition comm_exit :: "kstate \<Rightarrow> (unit, kstate) outcome" where
  "comm_exit s = comm_free_users (s\<lparr>k_device := k_device s \<and> \<not> k_registered s\<rparr>)"

lemma comm_free_users_eq: "comm_free_users s = free_all_users s"
proof (induction s rule: comm_free_users.induct)
  case (1 s)
  show ?case
  proof (cases "k_users s")
    case Nil
    then show ?thesis by (simp add: comm_free_users.simps [of s] free_all_users.simps [of s])
  next
    case (Cons i us)
    with 1 show ?thesis
      by (cases "pinner_free_proc_info (pi_addr i) s")
         (simp_all add: comm_free_users.simps [of s] free_all_users.simps [of s] comm_free_proc_info_eq)
  qed
qed

lemma comm_exit_eq: "comm_exit s = pinner_exit s"
proof -
  have "s\<lparr>k_device := k_device s\<rparr> = s" by simp
  then show ?thesis by (simp add: comm_exit_def pinner_exit_def comm_free_users_eq)
qed

section \<open>The flush commands\<close>

text \<open>The synchronisations that the driver's flush makes, by the low bits of the size field.\<close>

definition flush_syncs :: "u32 \<Rightarrow> kptr option \<Rightarrow> nat \<Rightarrow> dma_event list" where
  "flush_syncs z sg n =
     (if z AND 1 = 0 then [SyncForCpu sg n] else []) @ (if z AND 2 = 0 then [SyncForDevice sg n] else [])"

lemma flush_syncs_both: "z AND 3 = 0 \<Longrightarrow> flush_syncs z sg n = [SyncForCpu sg n, SyncForDevice sg n]"
proof -
  assume z: "z AND 3 = 0"
  have "(z AND 3) AND 1 = z AND (3 AND 1)" "(z AND 3) AND 2 = z AND (3 AND 2)" by (rule and.assoc)+
  with z show ?thesis by (simp add: flush_syncs_def)
qed

lemma do_flush_cases:
  "(\<exists>x. pinner_do_flush c ia s = Fault x \<and> comm_do_flush c ia s = Fault x) \<or>
   (\<exists>e. pinner_do_flush c ia s = Ok (Inl e) s \<and> comm_do_flush c ia s = Ok (Inl e) s) \<or>
   (\<exists>sg n. pinner_do_flush c ia s = Ok (Inr ()) (s\<lparr>k_dma := k_dma s @ flush_syncs (usr_buf_sz c) sg n\<rparr>) \<and>
      comm_do_flush c ia s = Ok (Inr ()) (s\<lparr>k_dma := k_dma s @ [SyncForCpu sg n, SyncForDevice sg n]\<rparr>))"
proof -
  have id: "s\<lparr>k_dma := k_dma s\<rparr> = s" by simp
  show ?thesis
    by (auto simp: pinner_do_flush_def comm_do_flush_def flush_syncs_def dma_event_add_def Let_def id
        comm_search_eq split: option.split)
qed

section \<open>Runs\<close>

text \<open>The file operations of the annotated copy, as \<open>run_op\<close> performs those of the driver.\<close>

fun comm_run_op :: "pin_op \<Rightarrow> kstate \<Rightarrow> (rc, kstate) outcome" where
  "comm_run_op (POpen a magic f) s = comm_open a magic f s"
| "comm_run_op (PWrite ev f buf sz) s = comm_write ev f buf sz s"
| "comm_run_op (PRelease f) s =
     obind (comm_release f s) (\<lambda>r t. Ok r (t\<lparr>k_private := (k_private t)(f := None)\<rparr>))"
| "comm_run_op (PStore m) s = Ok (Inr ()) (s\<lparr>k_umem := m\<rparr>)"

fun comm_run_ops :: "pin_op list \<Rightarrow> kstate \<Rightarrow> ((user_mem \<times> rc) list, kstate) outcome" where
  "comm_run_ops [] s = Ok [] s"
| "comm_run_ops (x # xs) s =
     obind (comm_run_op x s) (\<lambda>r t. obind (comm_run_ops xs t) (\<lambda>lg u. Ok ((k_umem s, r) # lg) u))"

text \<open>The same but for the record of calls of the DMA functions.\<close>

definition but_dma :: "kstate \<Rightarrow> kstate \<Rightarrow> bool" where
  "but_dma s t \<longleftrightarrow> k_users t = k_users s \<and> k_private t = k_private s \<and> k_live t = k_live s \<and>
     k_refs t = k_refs s \<and> k_umem t = k_umem s \<and> k_registered t = k_registered s \<and> k_device t = k_device s"

fun alike :: "('r, kstate) outcome \<Rightarrow> ('r, kstate) outcome \<Rightarrow> bool" where
  "alike (Ok r s) (Ok r' t) \<longleftrightarrow> r = r' \<and> but_dma s t"
| "alike (Fault x) (Fault y) \<longleftrightarrow> x = y"
| "alike (Ok r s) (Fault y) \<longleftrightarrow> False"
| "alike (Fault x) (Ok r t) \<longleftrightarrow> False"

lemma but_dma_refl [simp]: "but_dma s s" and but_dma_add [simp]: "but_dma s (s\<lparr>k_dma := d\<rparr>)"
  by (simp_all add: but_dma_def)

lemma but_dma_trans: "but_dma s t \<Longrightarrow> but_dma t u \<Longrightarrow> but_dma s u"
  by (simp add: but_dma_def)

lemma alike_refl [simp]: "alike m m"
  by (cases m) simp_all

lemma alike_trans: "alike l m \<Longrightarrow> alike m n \<Longrightarrow> alike l n"
  by (cases l; cases m; cases n) (auto intro: but_dma_trans)

lemma alike_obind:
  assumes "alike m m'" and "\<And>r s t. but_dma s t \<Longrightarrow> alike (f r s) (f' r t)"
  shows "alike (obind m f) (obind m' f')"
  using assms by (cases m; cases m') simp_all

lemma alike_case_rc:
  "(\<And>e. alike (f e) (f' e)) \<Longrightarrow> alike g g' \<Longrightarrow>
     alike (case r of Inl e \<Rightarrow> f e | Inr u \<Rightarrow> g) (case r of Inl e \<Rightarrow> f' e | Inr u \<Rightarrow> g')"
  by (cases r) simp_all

section \<open>No function of the driver reads that record\<close>

lemma but_dma_fields:
  assumes "but_dma s t"
  shows "k_users t = k_users s" "k_private t = k_private s" "k_umem t = k_umem s" "find_info ia t = find_info ia s"
  using assms by (simp_all add: but_dma_def find_info_def)

lemma but_dma_updates:
  assumes "but_dma s t"
  shows "but_dma (kalloc a s) (kalloc a t)" "but_dma (get_pages pgs s) (get_pages pgs t)"
    "but_dma (list_add_pinning q ia s) (list_add_pinning q ia t)"
    "but_dma (set_pinning_sglist b l s) (set_pinning_sglist b l t)"
    "but_dma (dma_event_add e s) (dma_event_add e' t)"
    "but_dma (s\<lparr>k_umem := m\<rparr>) (t\<lparr>k_umem := m\<rparr>)" "but_dma (s\<lparr>k_users := us\<rparr>) (t\<lparr>k_users := us\<rparr>)"
    "but_dma (s\<lparr>k_private := pr\<rparr>) (t\<lparr>k_private := pr\<rparr>)"
  using assms
  by (simp_all add: but_dma_def kalloc_def get_pages_def list_add_pinning_def upd_info_def set_pinning_sglist_def
      dma_event_add_def split: option.split)

lemma alike_services:
  assumes "but_dma s t"
  shows "alike (put_page pg s) (put_page pg t)" "alike (kfree a s) (kfree a t)"
    "alike (list_del_pinning b s) (list_del_pinning b t)"
  using assms by (simp_all add: but_dma_def put_page_def kfree_def list_del_pinning_def split: option.split)

lemma alike_put_sg_pages: "but_dma s t \<Longrightarrow> alike (put_sg_pages l n s) (put_sg_pages l n t)"
  by (induction l n s arbitrary: t rule: put_sg_pages.induct)
     (auto intro!: alike_obind alike_services)

lemma alike_put_page_list: "but_dma s t \<Longrightarrow> alike (put_page_list l n s) (put_page_list l n t)"
  by (induction l n s arbitrary: t rule: put_page_list.induct)
     (auto intro!: alike_obind alike_services)

lemma alike_free_pinning: "but_dma s t \<Longrightarrow> alike (pinner_free_pinning p s) (pinner_free_pinning p t)"
  by (auto simp: pinner_free_pinning_def Let_def pinner_put_sglist_pages_def
      intro!: alike_obind alike_services alike_put_sg_pages but_dma_updates split: option.split)

lemma alike_free_pinnings: "but_dma s t \<Longrightarrow> alike (pinner_free_pinnings ia s) (pinner_free_pinnings ia t)"
proof (induction ia s arbitrary: t rule: pinner_free_pinnings.induct)
  case (1 ia s)
  have info: "find_info ia t = find_info ia s" by (rule but_dma_fields) (rule "1.prems")
  show ?case
  proof (cases "find_info ia s")
    case None
    then show ?thesis
      by (simp add: info pinner_free_pinnings.simps [of ia s] pinner_free_pinnings.simps [of ia t])
  next
    case (Some i)
    show ?thesis
    proof (cases "pinning_list i")
      case Nil
      with Some "1.prems" show ?thesis
        by (simp add: info pinner_free_pinnings.simps [of ia s] pinner_free_pinnings.simps [of ia t])
    next
      case (Cons p ps)
      have "alike (pinner_free_pinning p s) (pinner_free_pinning p t)" by (rule alike_free_pinning) (rule "1.prems")
      then have "alike (obind (pinner_free_pinning p s) (\<lambda>_ u. pinner_free_pinnings ia u))
          (obind (pinner_free_pinning p t) (\<lambda>_ u. pinner_free_pinnings ia u))"
        using "1.IH" [OF Some Cons]
        by (cases "pinner_free_pinning p s"; cases "pinner_free_pinning p t") simp_all
      with Some Cons show ?thesis
        by (simp add: info pinner_free_pinnings.simps [of ia s] pinner_free_pinnings.simps [of ia t])
    qed
  qed
qed

lemma alike_pin_error: "but_dma s t \<Longrightarrow> alike (do_pin_error pin p n e s) (do_pin_error pin p n e t)"
  by (auto simp: do_pin_error_def
      intro!: alike_obind alike_services alike_put_page_list alike_free_pinning split: option.split)

lemma alike_cleanup:
  "but_dma s t \<Longrightarrow> alike (obind (kfree a s) (\<lambda>_ u. Ok r u)) (obind (kfree a t) (\<lambda>_ u. Ok r u))"
  by (auto intro!: alike_obind alike_services)

lemma alike_send_physlist:
  assumes "but_dma s t"
  shows "alike (pinner_send_physlist ev c p s) (pinner_send_physlist ev c p t)"
proof -
  have "k_umem (kalloc a t) = k_umem (kalloc a s)" for a
    using assms by (simp add: kalloc_def but_dma_def split: option.split)
  with assms show ?thesis
    by (auto simp: pinner_send_physlist_def Let_def intro!: alike_cleanup but_dma_updates split: option.split)
qed

lemma alike_publish:
  assumes "but_dma s t"
  shows "alike (do_pin_publish ev c ia m n pin s) (do_pin_publish ev c ia m n pin t)"
  using assms
  by (auto simp: do_pin_publish_def Let_def but_dma_fields(3)
      intro!: alike_obind alike_case_rc alike_pin_error alike_send_physlist but_dma_updates
      split: option.split prod.split sum.split)

lemma find_info_alloc:
  "find_info ia (kalloc a s) = find_info ia s" "find_info ia (get_pages pgs s) = find_info ia s"
  by (simp_all add: find_info_def kalloc_def get_pages_def split: option.split)

lemma alike_pin:
  assumes "but_dma s t"
  shows "alike (pinner_do_pin ev c ia s) (pinner_do_pin ev c ia t)"
  using assms
  by (auto simp: pinner_do_pin_def Let_def pinner_alloc_and_fill_sglist_def find_info_alloc but_dma_fields(4) [OF assms]
      intro!: alike_pin_error alike_publish but_dma_updates split: option.split sum.split)

lemma alike_unpin:
  assumes "but_dma s t"
  shows "alike (pinner_do_unpin c ia s) (pinner_do_unpin c ia t)"
  using assms
  by (auto simp: pinner_do_unpin_def but_dma_fields(3,4) [OF assms] intro!: alike_obind alike_free_pinning split: option.split)

lemma alike_flush:
  assumes "but_dma s t"
  shows "alike (comm_do_flush c ia s) (pinner_do_flush c ia t)"
  using assms
  by (auto simp: pinner_do_flush_def comm_do_flush_def Let_def comm_search_eq but_dma_fields(3,4) [OF assms] dma_event_add_def
      but_dma_def split: option.split)

lemma alike_write:
  assumes "but_dma s t"
  shows "alike (comm_write ev f buf sz s) (pinner_write ev f buf sz t)"
  using assms
  by (auto simp: comm_write_def pinner_write_def comm_do_pin_eq comm_do_unpin_eq but_dma_fields(2,3) [OF assms]
      intro!: alike_pin alike_unpin alike_flush split: option.split)

lemma alike_free_info:
  assumes "but_dma s t"
  shows "alike (kfree a (s\<lparr>k_users := filter P (k_users s)\<rparr>)) (kfree a (t\<lparr>k_users := filter P (k_users t)\<rparr>))"
  unfolding but_dma_fields(1) [OF assms] by (intro alike_services but_dma_updates assms)

lemma alike_run_op:
  assumes "but_dma s t"
  shows "alike (comm_run_op x s) (run_op x t)"
proof (cases x)
  case (POpen a magic f)
  with assms show ?thesis
    by (cases a) (simp_all add: comm_open_eq pinner_open_def Let_def but_dma_def kalloc_def)
next
  case (PWrite ev f buf sz)
  with assms show ?thesis by (simp add: alike_write)
next
  case (PRelease f)
  have "alike (pinner_release f s) (pinner_release f t)"
    using assms
    by (auto simp: pinner_release_def pinner_free_proc_info_def but_dma_fields(2) [OF assms]
        intro!: alike_obind alike_free_pinnings alike_free_info split: option.split)
  with PRelease show ?thesis
    by (auto intro!: alike_obind simp: comm_release_eq but_dma_def)
next
  case (PStore m)
  with assms show ?thesis by (simp add: but_dma_updates)
qed

lemma alike_run_ops: "but_dma s t \<Longrightarrow> alike (comm_run_ops xs s) (run_ops xs t)"
proof (induction xs arbitrary: s t)
  case (Cons x xs)
  then have "k_umem t = k_umem s" by (simp add: but_dma_fields)
  with Cons show ?case by (auto intro!: alike_obind alike_run_op)
qed simp

end
