(* ===== verification/UserExample.thy ===== *)
theory UserExample
  imports PinDevice
begin

text \<open>
  The example program how_to_use_marcos_drivers/pinner/userspace_example.c, run against the
  model of the driver: it opens the device, pins a buffer, prints the list of addresses,
  flushes the cache, unpins and closes. The stores to its stack and the printing of the first
  bytes of the buffer are not modelled beyond the structs that the driver reads and writes.
\<close>

section \<open>The program\<close>

definition BUF_SIZE :: u32 where
  "BUF_SIZE = 5215"

text \<open>
  What the program's run depends on: the proc_info and magic the driver gets at open, the
  file descriptor, the answers to the pin command, the addresses of the buffer, of the
  commands, the handle and the list, and what the handle and the list hold at first.
\<close>

record example_env =
  ue_info :: "kptr option"
  ue_magic :: u32
  ue_fd :: nat
  ue_pin :: pin_env
  ue_buf :: u64
  ue_cmd :: u64
  ue_handle :: u64
  ue_plist :: u64
  ue_handle_junk :: pinner_handle
  ue_count_junk :: u32
  ue_entries_junk :: "physlist_entry list"

datatype example_msg = CouldNotOpen | CouldNotPin | ShowEntries u32 "physlist_entry list"
  | CouldNotFlush | CouldNotUnpin | Done

definition put_stack :: "example_env \<Rightarrow> kstate \<Rightarrow> kstate" where
  "put_stack e s = s\<lparr>k_umem := (k_umem s)\<lparr>
     um_handles := (um_handles (k_umem s))(ue_handle e \<mapsto> ue_handle_junk e),
     um_counts := (um_counts (k_umem s))(ue_plist e \<mapsto> ue_count_junk e),
     um_entries := (um_entries (k_umem s))(ue_plist e + entries_offset \<mapsto> ue_entries_junk e)\<rparr>\<rparr>"

definition example_write :: "example_env \<Rightarrow> pinner_cmd \<Rightarrow> kstate \<Rightarrow> (rc, kstate) outcome" where
  "example_write e c s = write_cmd (ue_pin e) (ue_fd e) (ue_cmd e) c s"

text \<open>The initialisers set the fields they do not name to zero.\<close>

definition example_pin_cmd :: "example_env \<Rightarrow> pinner_cmd" where
  "example_pin_cmd e = \<lparr>cmd = PINNER_PIN, usr_buf = ue_buf e, usr_buf_sz = BUF_SIZE,
     handle_ptr = ue_handle e, physlist_ptr = ue_plist e\<rparr>"

definition example_flush_cmd :: "example_env \<Rightarrow> pinner_cmd" where
  "example_flush_cmd e = \<lparr>cmd = PINNER_FLUSH, usr_buf = ue_buf e, usr_buf_sz = BUF_SIZE,
     handle_ptr = 0, physlist_ptr = 0\<rparr>"

definition example_unpin_cmd :: "example_env \<Rightarrow> pinner_cmd" where
  "example_unpin_cmd e = \<lparr>cmd = PINNER_UNPIN, usr_buf = 0, usr_buf_sz = 0,
     handle_ptr = ue_handle e, physlist_ptr = 0\<rparr>"

text \<open>The part between the successful open and the label \<open>cleanup\<close>.\<close>

definition example_body :: "example_env \<Rightarrow> kstate \<Rightarrow> (example_msg list, kstate) outcome" where
  "example_body e s =
     obind (example_write e (example_pin_cmd e) s) (\<lambda>r1 s1.
       case r1 of
         Inl _ \<Rightarrow> Ok [CouldNotPin] s1
       | Inr _ \<Rightarrow>
          (case (um_counts (k_umem s1) (ue_plist e), um_entries (k_umem s1) (ue_plist e + entries_offset)) of
             (Some n, Some es) \<Rightarrow>
               if length es < unat n then Fault OutOfBounds
               else
                 obind (example_write e (example_flush_cmd e) s1) (\<lambda>r2 s2.
                   case r2 of
                     Inl _ \<Rightarrow> Ok [ShowEntries n (take (unat n) es), CouldNotFlush] s2
                   | Inr _ \<Rightarrow>
                       obind (example_write e (example_unpin_cmd e) s2) (\<lambda>r3 s3.
                         Ok [ShowEntries n (take (unat n) es),
                             case r3 of Inl _ \<Rightarrow> CouldNotUnpin | Inr _ \<Rightarrow> Done] s3))
           | _ \<Rightarrow> Fault OutOfBounds))"

definition example_main :: "example_env \<Rightarrow> kstate \<Rightarrow> (example_msg list, kstate) outcome" where
  "example_main e s =
     (if \<not> k_device s then Ok [CouldNotOpen] s
      else
        obind (pinner_open (ue_info e) (ue_magic e) (ue_fd e) s) (\<lambda>r s1.
          case r of
            Inl _ \<Rightarrow> Ok [CouldNotOpen] s1
          | Inr _ \<Rightarrow>
              obind (example_body e (put_stack e s1)) (\<lambda>msgs s2.
              obind (run_op (PRelease (ue_fd e)) s2) (\<lambda>_ s3. Ok msgs s3))))"

section \<open>The run of the program\<close>

lemma example_num_pages: "num_pages_of a BUF_SIZE = 2 \<or> num_pages_of a BUF_SIZE = 3"
proof -
  define x where "x = unat a mod 4096 + 9310"
  have "unat a mod 4096 < 4096" by simp
  then have "9310 \<le> x" "x < 13406" by (simp_all add: x_def)
  then have "2 \<le> x div 4096" "x div 4096 < 4"
    by (simp_all add: less_eq_div_iff_mult_less_eq div_less_iff_less_mult)
  then have "x div 4096 = 2 \<or> x div 4096 = 3" by linarith
  moreover have "num_pages_of a BUF_SIZE = int (x div 4096)"
    by (simp add: num_pages_of_eq BUF_SIZE_def x_def)
  ultimately show ?thesis by auto
qed

definition example_env_ok :: "example_env \<Rightarrow> kstate \<Rightarrow> bool" where
  "example_env_ok e s \<longleftrightarrow>
     (\<forall>x. ue_info e = Some x \<longrightarrow> x \<notin># k_live s \<and> x \<notin> set (new_addrs (ue_pin e))) \<and>
     env_ok (ue_pin e) (example_pin_cmd e) s \<and> env_complete (ue_pin e) (example_pin_cmd e) \<and>
     um_handles (k_umem s) 0 = None \<and> ue_handle e \<noteq> 0"

definition example_said :: "example_env \<Rightarrow> example_msg list \<Rightarrow> bool" where
  "example_said e msgs \<longleftrightarrow> msgs = [CouldNotPin] \<or>
     (\<exists>n es. msgs = [ShowEntries n es, CouldNotFlush] \<and> length es = unat n \<and>
        int (unat n) = num_pages_of (ue_buf e) BUF_SIZE)"

lemma example_pin_run:
  assumes inv: "pinner_inv B s" and fd: "k_private s (ue_fd e) = Some ia"
    and env: "env_ok (ue_pin e) (example_pin_cmd e) s" "env_complete (ue_pin e) (example_pin_cmd e)"
  obtains r t where "example_write e (example_pin_cmd e) s = Ok r t"
    and "pinner_inv B t" and "k_private t = k_private s"
    and "(table_of t)(ue_fd e := None) = (table_of s)(ue_fd e := None)"
proof -
  let ?s = "put_cmd (ue_cmd e) (example_pin_cmd e) s"
  have ok: "write_env_ok (ue_pin e) (ue_cmd e) ?s" "write_env_complete (ue_pin e) (ue_cmd e) ?s"
    using env by (simp_all add: write_env_ok_def write_env_complete_def env_ok_def)
  from write_run [OF _ _ ok(1), of B "ue_fd e" ia sizeof_pinner_cmd] inv fd ok(2) obtain r t where
    t: "pinner_write (ue_pin e) (ue_fd e) (ue_cmd e) sizeof_pinner_cmd ?s = Ok r t"
      "pinner_inv B t" "k_private t = k_private ?s" by auto
  have "table_of t = spec_op (PWrite (ue_pin e) (ue_fd e) (ue_cmd e) sizeof_pinner_cmd) (k_umem ?s) r (table_of s)"
    using write_refines [OF _ _ ok(1) t(1)] inv fd by simp
  then have "(table_of t)(ue_fd e := None) = (table_of s)(ue_fd e := None)"
    by (cases r) (auto simp: spec_write_def spec_pin_def example_pin_cmd_def split: sum.split option.split)
  with that t show thesis by (simp add: example_write_def write_cmd_def)
qed

text \<open>After a successful pin the list has its entries, and nothing was written at address 0.\<close>

lemma example_pin_shows:
  assumes inv: "pinner_inv B s" and fd: "k_private s (ue_fd e) = Some ia"
    and env: "env_ok (ue_pin e) (example_pin_cmd e) s" and none: "um_handles (k_umem s) 0 = None" "ue_handle e \<noteq> 0"
    and run: "example_write e (example_pin_cmd e) s = Ok (Inr ()) t"
  obtains n es where "um_counts (k_umem t) (ue_plist e) = Some n"
    and "um_entries (k_umem t) (ue_plist e + entries_offset) = Some es" and "unat n \<le> length es"
    and "int (unat n) = num_pages_of (ue_buf e) BUF_SIZE" and "um_handles (k_umem t) 0 = None"
proof -
  let ?c = "example_pin_cmd e" and ?s = "put_cmd (ue_cmd e) (example_pin_cmd e) s"
  have inv': "pinner_inv B ?s" and fd': "k_private ?s (ue_fd e) = Some ia"
    and c: "um_cmds (k_umem ?s) (ue_cmd e) = Some ?c" "cmd ?c = PINNER_PIN"
    using inv fd by (simp_all add: example_pin_cmd_def)
  have env': "env_ok (ue_pin e) ?c ?s" using env by (simp add: env_ok_def)
  have w: "pinner_write (ue_pin e) (ue_fd e) (ue_cmd e) sizeof_pinner_cmd ?s = Ok (Inr ()) t"
    using run by (simp add: example_write_def write_cmd_def)
  obtain info a b sa pgs where "find_info ia ?s = Some info" "ev_arr (ue_pin e) = Some a"
    "ev_gup (ue_pin e) = Inr pgs" and p: "int (length pgs) = num_pages_of (usr_buf ?c) (usr_buf_sz ?c)"
    and "owns B t" "b \<notin># k_live ?s" and pinned: "pin_done (ue_pin e) ?c ia (pi_magic info)
       (new_pinning b (length pgs) sa (pin_sglist (ue_pin e) ?c pgs)) a sa (pin_sglist (ue_pin e) ?c pgs) ?s t"
    by (rule write_pin_success [OF inv' fd' c env' w])
  let ?l = "pin_sglist (ue_pin e) ?c pgs"
  have n: "int (length pgs) = num_pages_of (ue_buf e) BUF_SIZE"
    using p by (simp add: example_pin_cmd_def)
  have small: "length pgs \<le> 3" using n example_num_pages [of "ue_buf e"] by auto
  define k :: u32 where "k = of_nat (length pgs)"
  have un: "unat k = length pgs"
    unfolding k_def using small by (simp add: unsigned_of_nat take_bit_nat_eq_self)
  have "length (snd (ev_dma_map (ue_pin e) ?l)) = length ?l"
    using env' by (metis env_ok_def length_map)
  also have "\<dots> = length pgs" using p by simp
  finally have len: "length (snd (ev_dma_map (ue_pin e) ?l)) = length pgs" .
  obtain rest where es: "um_entries (k_umem t) (ue_plist e + entries_offset) =
      Some (map entry_of (snd (ev_dma_map (ue_pin e) ?l)) @ rest)"
    using pinned by (auto simp: pin_done_def example_pin_cmd_def)
  have cnt: "um_counts (k_umem t) (ue_plist e) = Some k"
    using pinned by (simp add: pin_done_def example_pin_cmd_def new_pinning_def k_def)
  have le: "unat k \<le> length (map entry_of (snd (ev_dma_map (ue_pin e) ?l)) @ rest)"
    unfolding un length_append length_map len by (rule le_add1)
  have "pinner_do_pin (ue_pin e) ?c ia ?s = Ok (Inr ()) t"
    using w fd' c by (simp add: pinner_write_def)
  from do_pin_frame [OF this] none have "um_handles (k_umem t) 0 = None"
    by (simp add: umem_frame_def example_pin_cmd_def)
  with that [OF cnt es le] n un show thesis by metis
qed

lemma example_body_run:
  assumes inv: "pinner_inv B s" and fd: "k_private s (ue_fd e) = Some ia"
    and env: "env_ok (ue_pin e) (example_pin_cmd e) s" "env_complete (ue_pin e) (example_pin_cmd e)"
    and none: "um_handles (k_umem s) 0 = None" "ue_handle e \<noteq> 0"
  shows "\<exists>msgs t. example_body e s = Ok msgs t \<and> pinner_inv B t \<and> k_private t = k_private s \<and>
     (table_of t)(ue_fd e := None) = (table_of s)(ue_fd e := None) \<and> example_said e msgs"
proof -
  obtain r t where t: "example_write e (example_pin_cmd e) s = Ok r t" "pinner_inv B t"
    "k_private t = k_private s" "(table_of t)(ue_fd e := None) = (table_of s)(ue_fd e := None)"
    by (rule example_pin_run [OF inv fd env])
  show ?thesis
  proof (cases r)
    case (Inl x)
    with t show ?thesis by (auto simp: example_body_def example_said_def)
  next
    case (Inr u)
    with t(1) have "example_write e (example_pin_cmd e) s = Ok (Inr ()) t" by simp
    then obtain n es where n: "um_counts (k_umem t) (ue_plist e) = Some n"
      "um_entries (k_umem t) (ue_plist e + entries_offset) = Some es" "unat n \<le> length es"
      "int (unat n) = num_pages_of (ue_buf e) BUF_SIZE" "um_handles (k_umem t) 0 = None"
      by (rule example_pin_shows [OF inv fd env(1) none])
    let ?u = "put_cmd (ue_cmd e) (example_flush_cmd e) t"
    have "example_write e (example_flush_cmd e) t = Ok (Inl EAGAIN) ?u"
      using fd t(3) n(5)
      by (simp add: example_write_def write_cmd_def pinner_write_def PINNER_PIN_def PINNER_UNPIN_def)
        (simp add: example_flush_cmd_def PINNER_FLUSH_def pinner_do_flush_def)
    then have "example_body e s = Ok [ShowEntries n (take (unat n) es), CouldNotFlush] ?u"
      using t(1) Inr n(1-3) by (simp add: example_body_def)
    moreover have "example_said e [ShowEntries n (take (unat n) es), CouldNotFlush]"
      using n(3,4) by (simp add: example_said_def)
    ultimately show ?thesis using t(2-4)
      by (intro exI [of _ "[ShowEntries n (take (unat n) es), CouldNotFlush]"] exI [of _ ?u]) simp
  qed
qed

end
