(* ===== verification/PinnerClaims.thy ===== *)
theory PinnerClaims
  imports PinnerDemo PinnerListRace PinnerCommentary UserExample
begin

text \<open>The properties of the pinner driver and of the list of addresses it reports.\<close>

text \<open>
  C1. In every reachable state the driver holds exactly the page references of the pinnings
  on its lists (beside the references \<open>B\<close> that others hold), no heap object has two owners,
  and every object it owns is allocated: no page is lost and none is released twice.
\<close>

theorem pinner_page_accounting:
  assumes "reachable B s"
  shows "k_refs s = B + pages_of (user_pins (k_users s)) \<and>
         uniq (user_addrs (k_users s)) \<and> user_addrs (k_users s) \<subseteq># k_live s"
  using reachable_inv [OF assms] by (simp add: pinner_inv_def owns_def)

theorem pinner_page_accounting_witness:
  "k_refs demo_pinned = {#} + pages_of (user_pins (k_users demo_pinned)) \<and>
   k_refs demo_pinned = {#7, 9#} \<and> pinner_write demo_env 0 0x10 40 demo_opened = Ok (Inr ()) demo_pinned"
proof -
  have "k_refs demo_pinned = {#7, 9#}" by (simp add: demo_pinned_def)
  with pinner_page_accounting [OF demo_reach_pinned] demo_write show ?thesis by simp
qed

text \<open>
  C3. A command written to an open file never faults (no null dereference, no double free, no
  put of a page that is not held), whatever the user passes, as long as the kernel could pin
  all the pages asked for and allocate the scatterlist.
\<close>

theorem pinner_write_no_fault:
  assumes "reachable B s" and "k_private s f = Some ia"
    and "write_env_ok ev buf s" and "write_env_complete ev buf s"
  shows "\<not> faulty (pinner_write ev f buf sz s)"
  using write_run [OF reachable_inv [OF assms(1)] assms(2,3), of sz] assms(4) by auto

theorem pinner_write_no_fault_witness:
  "\<not> faulty (pinner_write demo_env 0 0x10 40 demo_opened)"
proof (rule pinner_write_no_fault [OF demo_reach_opened _ demo_opened_env])
  show "k_private demo_opened 0 = Some 1" by (simp add: demo_opened_def)
  show "write_env_complete demo_env 0x10 demo_opened"
    by (simp add: write_env_complete_def env_complete_def demo_opened_def demo_loaded_def
        demo_umem_def demo_env_def demo_pin_def demo_num_pages)
qed

text \<open>
  C4. Closing a file succeeds without a fault and gives back everything its process still
  held: the page references of all its pinnings, their structs and scatterlists, and the
  proc_info.
\<close>

theorem pinner_release_gives_back:
  assumes "reachable B s" and "k_private s f = Some ia"
  shows "\<exists>info t. find_info ia s = Some info \<and> pinner_release f s = Ok (Inr ()) t \<and>
     k_refs s = k_refs t + pages_of (mset (pinning_list info)) \<and>
     k_live s = k_live t + addrs_of (mset (pinning_list info)) + {#ia#} \<and>
     ia \<notin> pi_addr ` set (k_users t)"
proof -
  have inv: "pinner_inv B s" using assms(1) by (rule reachable_inv)
  from release_run [OF inv assms(2)] obtain info t where
    t: "find_info ia s = Some info" "pinner_release f s = Ok (Inr ()) t"
       "pinner_inv B (t\<lparr>k_private := (k_private t)(f := None)\<rparr>)"
       "map pi_addr (k_users t) = filter (\<lambda>a. a \<noteq> ia) (map pi_addr (k_users s))"
       "user_pins (k_users t) = user_pins (k_users s) - mset (pinning_list info)"
       "k_live t = k_live s - addrs_of (mset (pinning_list info)) - {#ia#}"
    by blast
  have "mset (pinning_list info) \<subseteq># user_pins (k_users s)"
    using find_info_SomeD [OF t(1)] by (simp add: user_pins_in)
  then obtain N where N: "user_pins (k_users s) = mset (pinning_list info) + N"
    by (auto simp: subset_mset.le_iff_add)
  have refs: "k_refs s = k_refs t + pages_of (mset (pinning_list info))"
    using inv t(3) by (simp add: pinner_inv_def owns_def t(5) N pages_of_plus)
  have "ia \<in># mset (map pi_addr (k_users s))"
    using find_info_SomeD [OF t(1)] by auto
  then have "add_mset ia (addrs_of (mset (pinning_list info))) \<subseteq># user_addrs (k_users s)"
    by (auto simp: user_addrs_def N addrs_of_plus dest!: multi_member_split)
  then have "add_mset ia (addrs_of (mset (pinning_list info))) \<subseteq># k_live s"
    using inv by (auto simp: pinner_inv_def owns_def intro: subset_mset.order_trans)
  then have live: "k_live s = k_live t + addrs_of (mset (pinning_list info)) + {#ia#}"
    unfolding t(6) by (simp add: subset_mset.le_iff_add) (auto simp: add_mset_commute)
  have "ia \<notin> set (map pi_addr (k_users t))" by (simp add: t(4) del: set_map)
  with t(1,2) refs live show ?thesis by auto
qed

theorem pinner_release_gives_back_witness:
  "\<exists>info t. find_info 1 demo_pinned = Some info \<and> pinner_release 0 demo_pinned = Ok (Inr ()) t \<and>
     k_refs demo_pinned = k_refs t + pages_of (mset (pinning_list info)) \<and>
     k_live demo_pinned = k_live t + addrs_of (mset (pinning_list info)) + {#1#} \<and>
     1 \<notin> pi_addr ` set (k_users t)"
  by (rule pinner_release_gives_back [OF demo_reach_pinned])
     (simp add: demo_pinned_def demo_opened_def)

text \<open>
  C5. From every reachable state, closing the open files one after the other, in any order,
  succeeds for each of them and ends with no proc_info, no pinning and no page reference left
  in the driver: the references are those that others hold.
\<close>

theorem pinner_all_closed:
  assumes "reachable B s" and "distinct fs" and "set fs = dom (k_private s)"
  shows "\<exists>lg t. run_ops (map PRelease fs) s = Ok lg t \<and> snd ` set lg \<subseteq> {Inr ()} \<and>
     k_private t = Map.empty \<and> k_users t = [] \<and> k_refs t = B"
proof -
  from close_files [OF assms] obtain lg t where
    t: "run_ops (map PRelease fs) s = Ok lg t" "snd ` set lg \<subseteq> {Inr ()}" "reachable B t"
      "k_private t = Map.empty" by blast
  then have "k_users t = [] \<and> k_refs t = B"
    using reachable_inv [OF t(3)] by (simp add: pinner_inv_def owns_def)
  with t show ?thesis by blast
qed

theorem pinner_all_closed_witness:
  "\<exists>lg t. run_ops (map PRelease [0]) demo_pinned = Ok lg t \<and> snd ` set lg \<subseteq> {Inr ()} \<and>
     k_private t = Map.empty \<and> k_users t = [] \<and> k_refs t = {#}"
  by (rule pinner_all_closed [OF demo_reach_pinned])
     (auto simp: demo_pinned_def demo_opened_def split: if_splits)

text \<open>
  C6. Unpinning with the handle a pin command wrote restores the lists and the page
  references to what they were before the pin. What it does not restore is the heap: the
  page array allocated by the pin command is never freed.
\<close>

theorem pinner_pin_unpin:
  assumes "reachable B s" and "k_private s f = Some ia"
    and "um_cmds (k_umem s) buf = Some c" and "cmd c = PINNER_PIN" and "env_ok ev c s"
    and "pinner_write ev f buf sz s = Ok (Inr ()) t"
    and "um_cmds (k_umem t) buf' = Some c'" and "cmd c' = PINNER_UNPIN"
    and "handle_ptr c' = handle_ptr c"
  shows "\<exists>u a. pinner_write ev' f buf' sizeof_pinner_cmd t = Ok (Inr ()) u \<and>
     ev_arr ev = Some a \<and> k_users u = k_users s \<and> k_refs u = k_refs s \<and>
     k_live u = add_mset a (k_live s)"
proof -
  have inv: "pinner_inv B s" using assms(1) by (rule reachable_inv)
  then have own: "owns B s" by (simp add: pinner_inv_def)
  obtain info a b sa pgs where p: "find_info ia s = Some info" "ev_arr ev = Some a"
    "int (length pgs) = num_pages_of (usr_buf c) (usr_buf_sz c)" "owns B t" "b \<notin># k_live s"
    "pin_done ev c ia (pi_magic info)
       (new_pinning b (length pgs) sa (pin_sglist ev c pgs)) a sa (pin_sglist ev c pgs) s t"
    by (rule write_pin_success [OF inv assms(2-6)])
  have dma: "\<forall>l. map sg_pg (snd (ev_dma_map ev l)) = map sg_pg l"
    using assms(5) by (simp add: env_ok_def)
  from unpin_after_pin [OF p(1,4,3) dma not_live_not_linked [OF own p(5)] p(6) assms(9)]
  obtain u where u: "pinner_do_unpin c' ia t = Ok (Inr ()) u" "k_users u = k_users s"
    "k_refs u = k_refs s" "k_live u = add_mset a (k_live s)"
    by blast
  have "k_private t f = Some ia" using p(6) assms(2) by (simp add: pin_done_def)
  then have "pinner_write ev' f buf' sizeof_pinner_cmd t = Ok (Inr ()) u"
    using assms(7,8) u(1) by (simp add: pinner_write_def PINNER_PIN_def PINNER_UNPIN_def)
  with u p(2) show ?thesis by blast
qed

theorem pinner_pin_unpin_witness:
  "\<exists>u a. pinner_write demo_env 0 0x20 sizeof_pinner_cmd demo_pinned = Ok (Inr ()) u \<and>
     ev_arr demo_env = Some a \<and> k_users u = k_users demo_opened \<and>
     k_refs u = k_refs demo_opened \<and> k_live u = add_mset a (k_live demo_opened)"
proof (rule pinner_pin_unpin [OF demo_reach_opened _ _ _ _ demo_write])
  show c: "um_cmds (k_umem demo_opened) 0x10 = Some demo_pin"
    by (simp add: demo_opened_def demo_loaded_def demo_umem_def)
  show "env_ok demo_env demo_pin demo_opened"
    using demo_opened_env c by (simp add: write_env_ok_def demo_pin_def PINNER_PIN_def)
  show "um_cmds (k_umem demo_pinned) 0x20 = Some demo_unpin"
    by (simp add: demo_pinned_def demo_umem_def)
qed (simp_all add: demo_opened_def demo_pin_def demo_unpin_def PINNER_PIN_def PINNER_UNPIN_def)

text \<open>
  C7. What the list of a successful pin says of a byte of the buffer. The lookup of the user
  program finds the entry of the page that holds the byte, and gives the DMA address that
  dma_map_sg left in that entry plus the byte's offset in its page. So it is the physical
  address of the byte where the entry still holds the physical address of its page, which
  pinner.c wrote before the mapping. Where dma_map_sg filled the address in, it is documented to
  be the bus address of the segment, from the segment's first byte on: the lookup is then right
  for all pages but the first, for which the buffer's offset in the page is counted twice. All
  that is used of dma_map_sg is that it leaves page, offset and length of the entries alone.
\<close>

theorem pinner_physlist_correct:
  assumes "reachable B s" and "k_private s f = Some ia"
    and "um_cmds (k_umem s) buf = Some c" and "cmd c = PINNER_PIN" and "env_ok ev c s"
    and "pinner_write ev f buf sz s = Ok (Inr ()) t" and "keeps_segments ev"
    and "unat v < unat (usr_buf_sz c)"
    and "off = unat (usr_buf c) mod 4096" and "k = (off + unat v) div 4096"
  shows "\<exists>pgs es n. ev_gup ev = Inr pgs \<and>
     um_counts (k_umem t) (physlist_ptr c) = Some (of_nat n) \<and> n = length pgs \<and> k < n \<and>
     um_entries (k_umem t) (physlist_ptr c + entries_offset) = Some es \<and>
     (let found = virt_to_phys (usr_buf c + v) (usr_buf c) (take n es);
          g = mapped_sglist ev c pgs ! k;
          in_page = of_nat ((off + unat v) mod 4096)
      in sg_pg g = pgs ! k \<and> found = sg_dma_address g + in_page \<and>
         (sg_dma_address g = ev_page_to_phys ev (pgs ! k) \<longrightarrow>
            found = ev_page_to_phys ev (pgs ! k) + in_page) \<and>
         (sg_dma_address g = bus (pgs ! k) + ucast (sg_offset g) \<longrightarrow>
            found = bus (pgs ! k) + in_page + (if k = 0 then of_nat off else 0)))"
proof -
  obtain info a b sa pgs where p: "find_info ia s = Some info" "ev_arr ev = Some a"
    "ev_gup ev = Inr pgs"
    "int (length pgs) = num_pages_of (usr_buf c) (usr_buf_sz c)" "owns B t" "b \<notin># k_live s"
    "pin_done ev c ia (pi_magic info)
       (new_pinning b (length pgs) sa (pin_sglist ev c pgs)) a sa (pin_sglist ev c pgs) s t"
    by (rule write_pin_success [OF reachable_inv [OF assms(1)] assms(2-6)])
  let ?m = "mapped_sglist ev c pgs"
  have "length ?m = length pgs" using p(4) assms(7) by (simp add: length_mapped_sglist)
  moreover obtain rest where "um_entries (k_umem t) (physlist_ptr c + entries_offset) =
      Some (map entry_of ?m @ rest)"
    using p(7) by (auto simp: pin_done_def mapped_sglist_def)
  moreover have "um_counts (k_umem t) (physlist_ptr c) = Some (of_nat (length pgs))"
    using p(7) by (simp add: pin_done_def new_pinning_def)
  moreover have k: "k < nat (num_pages_of (usr_buf c) (usr_buf_sz c))"
    and found: "virt_to_phys (usr_buf c + v) (usr_buf c) (map entry_of ?m) =
      sg_dma_address (?m ! k) + of_nat ((off + unat v) mod 4096)"
    using virt_to_phys_pinned(1) [OF assms(8,7) refl, of pgs] virt_to_phys_pinned(2) [OF assms(8,7) refl]
    by (simp_all only: assms(9,10))
  moreover have "sg_pg (?m ! k) = pgs ! k" and "sg_offset (?m ! k) = (if k = 0 then of_nat off else 0)"
    using mapped_sglist_nth(1,2) [OF assms(7) k, of pgs] by (simp_all only: assms(9))
  moreover have "(ucast (of_nat off :: u32) :: u64) = of_nat off"
    by (intro ucast_of_nat_32_64) (simp add: assms(9) less_trans [OF mod_less_divisor])
  then have "(ucast (if k = 0 then of_nat off else 0 :: u32) :: u64) = (if k = 0 then of_nat off else 0)"
    by simp
  ultimately show ?thesis
    using p(3,4)
    by (intro exI [of _ pgs] exI [of _ "map entry_of ?m @ rest"] exI [of _ "length pgs"])
       (simp add: Let_def)
qed

text \<open>A mapping that fills in bus addresses from 0x80000000 on.\<close>

definition demo_bus :: "page \<Rightarrow> u64" where
  "demo_bus pg = 0x80000000 + of_nat pg * 4096"

definition demo_mapping_env :: pin_env where
  "demo_mapping_env = demo_env\<lparr>ev_dma_map := \<lambda>l. (Inr (length l),
     map (\<lambda>g. g\<lparr>sg_dma_address := demo_bus (sg_pg g) + ucast (sg_offset g)\<rparr>) l)\<rparr>"

theorem pinner_physlist_correct_witness:
  "\<exists>t es. pinner_write demo_mapping_env 0 0x10 40 demo_opened = Ok (Inr ()) t \<and>
     um_entries (k_umem t) 0x208 = Some es \<and>
     virt_to_phys 0x1015 0x1010 (take 2 es) = 0x80007025 \<and> ev_gup demo_mapping_env = Inr [7, 9]"
proof -
  have c: "um_cmds (k_umem demo_opened) 0x10 = Some demo_pin"
    by (simp add: demo_opened_def demo_loaded_def demo_umem_def)
  have env: "env_ok demo_mapping_env demo_pin demo_opened"
    using demo_opened_env c
    by (simp add: write_env_ok_def demo_pin_def PINNER_PIN_def env_ok_def demo_mapping_env_def
        demo_env_def new_addrs_def comp_def)
  have "\<exists>t. pinner_do_pin demo_mapping_env demo_pin 1 demo_opened = Ok (Inr ()) t"
    by (simp add: pinner_do_pin_def demo_pin_def demo_mapping_env_def demo_env_def demo_num_pages demo_start
        PINNER_MAX_PAGES_def pinner_alloc_and_fill_sglist_def demo_fill find_info_def
        demo_opened_def demo_loaded_def kalloc_def get_pages_def do_pin_publish_def
        list_add_pinning_def upd_info_def dma_event_add_def set_pinning_sglist_def
        pinner_send_physlist_def Let_def copy_count_to_user_def copy_entries_to_user_def
        copy_handle_to_user_def kfree_def demo_umem_def demo_sglist_def
        entries_offset_def)
  then obtain t where t: "pinner_write demo_mapping_env 0 0x10 40 demo_opened = Ok (Inr ()) t"
    using c by (auto simp: pinner_write_def sizeof_pinner_cmd_def demo_opened_def demo_pin_def
        PINNER_PIN_def demo_loaded_def)
  have keeps: "keeps_segments demo_mapping_env"
    by (simp add: keeps_segments_def demo_mapping_env_def sg_segment_def comp_def)
  have priv: "k_private demo_opened 0 = Some 1" and cmd: "cmd demo_pin = PINNER_PIN"
    by (simp_all add: demo_opened_def demo_pin_def PINNER_PIN_def)
  have v: "unat (5 :: u64) < unat (usr_buf_sz demo_pin)" by (simp add: demo_pin_def)
  have k: "0 = (16 + unat (5 :: u64)) div 4096" and off: "16 = unat (usr_buf demo_pin) mod 4096"
    by (simp_all add: demo_pin_def)
  have "mapped_sglist demo_mapping_env demo_pin [7, 9] ! 0 =
      \<lparr>sg_pg = 7, sg_offset = 16, sg_length = 4080, sg_dma_address = 0x80007010\<rparr>"
    by (simp add: mapped_sglist_def pin_sglist_def demo_mapping_env_def demo_env_def demo_pin_def
        demo_num_pages demo_start demo_fill demo_sglist_def demo_bus_def)
  with pinner_physlist_correct [OF demo_reach_opened priv c cmd env t keeps v off k, of demo_bus] t
  show ?thesis
    by (auto simp: demo_mapping_env_def demo_env_def demo_pin_def demo_bus_def entries_offset_def Let_def
        simp flip: numeral_2_eq_2)
qed

text \<open>
  C8. The scatterlist of a buffer partitions it: entry \<open>i\<close> is page \<open>i\<close>, it starts at the
  buffer's offset in the first page and at 0 in the others, it stays inside its page, and the
  lengths add up to the size of the buffer. The number of entries is the number of pages
  between the first and the last byte.
\<close>

theorem pinner_sglist_partition:
  fixes b :: u64 and sz :: u32
  assumes "0 < sz" and "n = nat (num_pages_of b sz)"
    and "sgl = fill_sglist phys pgs n (b - page_start b) sz"
  shows "num_pages_of b sz = int ((unat b + unat sz - 1) div 4096) - int (unat b div 4096) + 1 \<and>
     length sgl = n \<and>
     (\<forall>i < n. sg_pg (sgl ! i) = pgs ! i \<and>
        unat (sg_offset (sgl ! i)) = (if i = 0 then unat b mod 4096 else 0) \<and>
        unat (sg_offset (sgl ! i)) + unat (sg_length (sgl ! i)) \<le> 4096) \<and>
     (\<Sum>sg \<leftarrow> sgl. unat (sg_length sg)) = unat sz"
proof -
  let ?off = "unat b mod 4096"
  have n: "n = (?off + unat sz + 4095) div 4096"
    by (simp add: assms(2) num_pages_of_eq)
  have sgl: "sgl = map (sg_spec phys pgs ?off (unat sz)) [0..<n]"
    using fill_sglist_eq [OF page_offset_less, of n b sz phys pgs] n
    by (simp add: assms(3) unat_first_offset)
  have "unat (of_nat ?off :: u32) = ?off"
    by (simp add: unsigned_of_nat take_bit_nat_eq_self)
  moreover have "?off + seg_len ?off (unat sz) 0 \<le> 4096"
    by (simp add: seg_len_def)
  ultimately have entries: "\<forall>i < n. sg_pg (sgl ! i) = pgs ! i \<and>
           unat (sg_offset (sgl ! i)) = (if i = 0 then unat b mod 4096 else 0) \<and>
           unat (sg_offset (sgl ! i)) + unat (sg_length (sgl ! i)) \<le> 4096"
    by (auto simp: sgl sg_spec_def unat_seg_len seg_len_le)
  have "0 < n" using assms(1) by (simp add: n word_less_nat_alt)
  then have "(\<Sum>sg \<leftarrow> sgl. unat (sg_length sg)) = unat sz"
    using seg_len_total [of ?off n "unat sz"] n
    by (simp add: sgl comp_def sg_spec_def unat_seg_len interv_sum_list_conv_sum_set_nat
        lessThan_atLeast0)
  moreover have "length sgl = n" by (simp add: sgl)
  ultimately show ?thesis using num_pages_spanned [OF assms(1)] entries by blast
qed

theorem pinner_sglist_partition_witness:
  "(\<Sum>sg \<leftarrow> fill_sglist (\<lambda>p. of_nat p * 4096) [7, 9] 2 (0x1010 - page_start 0x1010) 5000.
     unat (sg_length sg)) = unat (5000 :: u32)"
proof -
  have "0 < (5000 :: u32)" and "2 = nat (num_pages_of 0x1010 5000)"
    by (simp_all add: demo_num_pages)
  from pinner_sglist_partition [OF this refl, of "\<lambda>p. of_nat p * 4096" "[7, 9]"]
  show ?thesis by (elim conjE)
qed

text \<open>
  C9. What a pin command does for every answer of the kernel. A bad size, no memory for the
  page array, and no memory for the pinning are refused and change nothing. When the kernel
  pins no page, or fewer than asked for, the error path puts back elements of the page array
  that were never written: the command faults. When there is no memory for the scatterlist,
  the error path unlinks a pinning that is on no list: it dereferences a null pointer. In
  every other case the command returns: with success exactly when the DMA mapping succeeds,
  there is memory for the list and the user's list and handle are accessible, and then it holds
  the pages; otherwise with an error, and then the lists and the page references are as before.
  In both cases the page array stays allocated for ever.
\<close>

theorem pinner_pin_outcomes:
  assumes "reachable B s" and "find_info ia s = Some info" and "env_ok ev c s"
  shows "if \<not> good_size c then pinner_do_pin ev c ia s = Ok (Inl EINVAL) s
    else case (ev_arr ev, ev_gup ev, ev_pin ev, ev_sgl ev) of
      (None, _, _, _) \<Rightarrow> pinner_do_pin ev c ia s = Ok (Inl ENOMEM) s
    | (Some a, Inl e, _, _) \<Rightarrow> pinner_do_pin ev c ia s = Fault UninitRead
    | (Some a, Inr pgs, pn, sg) \<Rightarrow>
        if int (length pgs) \<noteq> num_pages_of (usr_buf c) (usr_buf_sz c) then pinner_do_pin ev c ia s = Fault UninitRead
        else (case (pn, sg) of
           (None, _) \<Rightarrow> pinner_do_pin ev c ia s = Ok (Inl ENOMEM) s
         | (Some b, None) \<Rightarrow> pinner_do_pin ev c ia s = Fault NullDeref
         | (Some b, Some sa) \<Rightarrow> (\<exists>r t. pinner_do_pin ev c ia s = Ok r t \<and>
             (r = Inr () \<longleftrightarrow> pin_accepted ev c (pin_sglist ev c pgs) (k_umem s)) \<and>
             (case r of
                Inl e \<Rightarrow> k_users t = k_users s \<and> k_refs t = k_refs s \<and> k_live t = add_mset a (k_live s)
              | Inr _ \<Rightarrow> k_refs t = k_refs s + mset pgs \<and> k_live t = k_live s + {#a, b, sa#})))"
proof -
  have own: "owns B s" using reachable_inv [OF assms(1)] by (simp add: pinner_inv_def)
  let ?n = "num_pages_of (usr_buf c) (usr_buf_sz c)"
  show ?thesis
  proof (cases "good_size c")
    case False
    then show ?thesis using do_pin_bad_size [OF False] by simp
  next
    case good: True
    show ?thesis
    proof (cases "ev_arr ev")
      case None
      then show ?thesis using good do_pin_no_array [OF good None] by simp
    next
      case arr: (Some a)
      show ?thesis
      proof (cases "ev_gup ev")
        case (Inl e)
        then show ?thesis using good arr do_pin_no_pages [OF good arr Inl] by simp
      next
        case gup: (Inr pgs)
        show ?thesis
        proof (cases "int (length pgs) = ?n")
          case False
          then have "int (length pgs) < ?n" using assms(3) gup by (auto simp: env_ok_def)
          then show ?thesis using good arr gup False do_pin_short_pages [OF good arr gup] by simp
        next
          case True
          then show ?thesis
            using good arr gup pin_outcomes_pages [OF own assms(2,3) good arr gup] by simp
        qed
      qed
    qed
  qed
qed

theorem pinner_pin_outcomes_witness:
  "pinner_do_pin (demo_env\<lparr>ev_gup := Inr [7]\<rparr>) demo_pin 1 demo_opened = Fault UninitRead"
proof -
  have size: "num_pages_of (usr_buf demo_pin) (usr_buf_sz demo_pin) = 2"
    by (simp add: demo_pin_def demo_num_pages)
  then have good: "good_size demo_pin" by (simp add: good_size_def PINNER_MAX_PAGES_def)
  have env: "env_ok (demo_env\<lparr>ev_gup := Inr [7]\<rparr>) demo_pin demo_opened"
    by (simp add: env_ok_def new_addrs_def size) (simp add: demo_env_def demo_opened_def)
  have info: "find_info 1 demo_opened = Some \<lparr>pi_addr = 1, pinning_list = [], pi_magic = 5\<rparr>"
    by (simp add: find_info_def demo_opened_def)
  have arr: "ev_arr (demo_env\<lparr>ev_gup := Inr [7]\<rparr>) = Some 2" by (simp add: demo_env_def)
  show ?thesis
    using pinner_pin_outcomes [OF demo_reach_opened info env] by (simp add: size good arr)
qed

text \<open>
  C10. Processes are isolated: whatever a process writes to its file, with whatever handle,
  the proc_info of every other process, its magic and its pinnings are unchanged.
\<close>

theorem pinner_isolation:
  assumes "reachable B s" and "k_private s f = Some ia" and "write_env_ok ev buf s"
    and "pinner_write ev f buf sz s = Ok r t" and "j \<in> set (k_users s)" and "pi_addr j \<noteq> ia"
  shows "j \<in> set (k_users t)"
  using write_isolated [OF reachable_inv [OF assms(1)] assms(2-6)] .

definition demo_two :: kstate where
  "demo_two = demo_pinned\<lparr>k_users := \<lparr>pi_addr = 9, pinning_list = [], pi_magic = 6\<rparr> # k_users demo_pinned,
     k_private := [0 \<mapsto> 1, 1 \<mapsto> 9], k_live := {#1, 2, 3, 4, 9#}\<rparr>"

theorem pinner_isolation_witness:
  "\<exists>r t. pinner_write demo_env 1 0x20 40 demo_two = Ok r t \<and>
     \<lparr>pi_addr = 1, pinning_list =
        [\<lparr>p_addr = 3, num_sg_ents = 2, sglist = Some (4, demo_sglist), p_magic = 77\<rparr>],
        pi_magic = 5\<rparr> \<in> set (k_users t)"
proof -
  have "pinner_open (Some 9) 6 1 demo_pinned = Ok (Inr ()) demo_two"
    by (simp add: pinner_open_def demo_two_def demo_pinned_def demo_opened_def demo_loaded_def
        kalloc_def add_mset_commute fun_upd_twist)
  then have reach: "reachable {#} demo_two"
    by (rule reachable.step [OF demo_reach_pinned opened, rotated 2])
       (simp_all add: demo_pinned_def demo_opened_def)
  have cmd: "um_cmds (k_umem demo_two) 0x20 = Some demo_unpin" and f: "k_private demo_two 1 = Some 9"
    by (simp_all add: demo_two_def demo_pinned_def demo_umem_def)
  have env: "write_env_ok demo_env 0x20 demo_two"
    using cmd by (simp add: write_env_ok_def demo_unpin_def PINNER_PIN_def)
  have "pinner_write demo_env 1 0x20 40 demo_two = Ok (Inl EINVAL) demo_two"
    using cmd f
    by (simp add: pinner_write_def sizeof_pinner_cmd_def PINNER_PIN_def PINNER_UNPIN_def
        cong: if_cong)
       (simp add: demo_unpin_def pinner_do_unpin_def find_info_def demo_two_def demo_pinned_def)
  from pinner_isolation [OF reach f env this, of "\<lparr>pi_addr = 1, pinning_list =
        [\<lparr>p_addr = 3, num_sg_ents = 2, sglist = Some (4, demo_sglist), p_magic = 77\<rparr>],
        pi_magic = 5\<rparr>"] this
  show ?thesis by (simp add: demo_two_def demo_pinned_def)
qed

text \<open>
  C11. Two threads of a process that unpin or flush, one after the other, never fault, whatever
  they pass. When both search the list before either has freed, with handles of one pinning,
  two unpins free that pinning twice and fault, and a flush whose pinning is freed before it
  goes on uses freed memory; an unpin during which a flush runs is fine. Nothing in the driver
  excludes the bad orders.
\<close>

theorem pinner_unpin_race:
  assumes "reachable B s" and "k_private s f = Some ia"
  shows "(\<exists>r r' t. run_schedule ia [True, True, False, False] (Calling c, Calling d) s =
           Ok (Returned r, Returned r') t) \<and>
    (unpin_find c ia s = Ok (Inr p) s \<and> unpin_find d ia s = Ok (Inr p) s \<and> cmd d = PINNER_UNPIN \<longrightarrow>
       (cmd c = PINNER_UNPIN \<longrightarrow>
          faulty (run_schedule ia [True, False, True, False] (Calling c, Calling d) s)) \<and>
       (cmd c = PINNER_FLUSH \<longrightarrow>
          run_schedule ia [True, False, False, True] (Calling c, Calling d) s = Fault UseAfterFree \<and>
          (\<exists>t. run_schedule ia [False, True, True, False] (Calling c, Calling d) s =
             Ok (Returned (Inr ()), Returned (Inr ())) t)))"
proof -
  have inv: "pinner_inv B s" by (rule reachable_inv [OF assms(1)])
  then have own: "owns B s" by (simp add: pinner_inv_def)
  obtain info where info: "find_info ia s = Some info" using private_info [OF inv assms(2)] by blast
  show ?thesis
    using sequential_calls [OF own info, of c d] interleaved_unpins [OF own, of c ia p d]
      flush_during_unpin [OF own, of c ia p d] unpin_during_flush [OF own, of c ia p d] by blast
qed

theorem pinner_unpin_race_witness:
  "faulty (run_schedule 1 [True, False, True, False] (Calling demo_unpin, Calling demo_unpin) demo_pinned) \<and>
   run_schedule 1 [True, False, False, True] (Calling (demo_unpin\<lparr>cmd := 3\<rparr>), Calling demo_unpin) demo_pinned =
     Fault UseAfterFree"
proof -
  have "unpin_find demo_unpin 1 demo_pinned =
      Ok (Inr \<lparr>p_addr = 3, num_sg_ents = 2, sglist = Some (4, demo_sglist), p_magic = 77\<rparr>) demo_pinned"
    "unpin_find (demo_unpin\<lparr>cmd := 3\<rparr>) 1 demo_pinned =
      Ok (Inr \<lparr>p_addr = 3, num_sg_ents = 2, sglist = Some (4, demo_sglist), p_magic = 77\<rparr>) demo_pinned"
    by (simp_all add: unpin_find_def find_info_def find_pinning_def demo_unpin_def demo_pinned_def)
  moreover have "k_private demo_pinned 0 = Some 1" by (simp add: demo_pinned_def demo_opened_def)
  moreover have "cmd demo_unpin = PINNER_UNPIN" "cmd (demo_unpin\<lparr>cmd := 3\<rparr>) = PINNER_FLUSH"
    by (simp_all add: demo_unpin_def PINNER_UNPIN_def PINNER_FLUSH_def)
  ultimately show ?thesis using pinner_unpin_race [OF demo_reach_pinned] by metis
qed

text \<open>
  C12. Any number of threads write commands to one file at the same time, each in two turns that
  interleave in any order with those of the others. No turn faults, and at every moment the
  driver holds exactly the page references of the pinnings on its lists, under these conditions:
  no two of the threads name the same pinning (two flushes may), no thread reads the handle that
  another one writes, the kernel answers every pin that begins completely (all pages pinned, the
  scatterlist allocated, at new addresses; by C9 the pin faults otherwise), random magic numbers
  are new, and each operation on a list is one step. The driver does not see to the last one: it
  takes no lock around list_add and list_del, and C39 shows what two overlapping list_adds do. A
  thread that runs alone does in its two turns what the driver's write function does.
\<close>

theorem pinner_threads_safe:
  assumes "reachable B s" and "k_private s f = Some ia" and "apart (map Asking cs) (k_umem s)"
    and "(pool_step ia)\<^sup>*\<^sup>* (map Asking cs, s) (ws, t)"
  shows "(\<forall>i < length ws. \<forall>ev. fits_turn ev (ws ! i) ws t \<longrightarrow> \<not> faulty (worker_turn ev ia (ws ! i) t)) \<and>
    k_refs t = B + pages_of (user_pins (k_users t)) \<and>
    (\<forall>c ev ev' buf. um_cmds (k_umem s) buf = Some c \<longrightarrow>
      obind (worker_turn ev ia (Asking c) s) (worker_turn ev' ia) =
        obind (pinner_write ev f buf sizeof_pinner_cmd s) (\<lambda>r u. Ok (Finished r) u))"
proof -
  have inv: "pinner_inv B s" by (rule reachable_inv [OF assms(1)])
  obtain info where "find_info ia s = Some info" using private_info [OF inv assms(2)] by blast
  then have "pool_ok B ia (map Asking cs) s"
    using inv assms(3) by (intro pool_start) (simp_all add: pinner_inv_def)
  with pool_reach [OF assms(4)] have ok: "pool_ok B ia ws t" by simp
  then have refs: "k_refs t = B + pages_of (user_pins (k_users t))" by (simp add: pool_ok_def owns_def)
  have safe: "\<not> faulty (worker_turn ev ia (ws ! i) t)" if "i < length ws" "fits_turn ev (ws ! i) ws t" for i ev
    using turn_keeps_pool [OF ok that] by (auto simp: faulty_iff)
  have "obind (worker_turn ev ia (Asking c) s) (worker_turn ev' ia) =
      obind (pinner_write ev f buf sizeof_pinner_cmd s) (\<lambda>r u. Ok (Finished r) u)"
    if "um_cmds (k_umem s) buf = Some c" for c ev ev' buf
    by (simp only: worker_alone write_is_switch [OF that assms(2)])
  with refs safe show ?thesis by blast
qed

theorem pinner_threads_safe_witness:
  "\<exists>p. worker_turn demo_env 1 (Asking demo_unpin) demo_pinned = Ok (Found demo_unpin p) demo_pinned \<and>
     \<not> faulty (worker_turn demo_env 1 (Found demo_unpin p) demo_pinned)"
proof -
  let ?c = "demo_pin\<lparr>handle_ptr := 0x300\<rparr>"
  let ?p = "\<lparr>p_addr = 3, num_sg_ents = 2, sglist = Some (4, demo_sglist), p_magic = 77\<rparr>"
  have first: "worker_turn demo_env 1 (Asking demo_unpin) demo_pinned = Ok (Found demo_unpin ?p) demo_pinned"
    by (simp add: unpin_find_def find_info_def find_pinning_def demo_unpin_def demo_pinned_def
        PINNER_PIN_def PINNER_UNPIN_def)
  let ?ws = "[Asking demo_unpin, Asking ?c]"
  have "pool_step 1 (?ws, demo_pinned) (?ws[0 := Found demo_unpin ?p], demo_pinned)"
  proof (rule pool_step.turn [where ev = demo_env])
    show "fits_turn demo_env (?ws ! 0) ?ws demo_pinned"
      by (simp add: fits_turn_def demo_unpin_def PINNER_PIN_def)
    show "worker_turn demo_env 1 (?ws ! 0) demo_pinned = Ok (Found demo_unpin ?p) demo_pinned"
      using first by (simp only: nth_Cons_0)
  qed simp
  then have steps: "(pool_step 1)\<^sup>*\<^sup>* (map Asking [demo_unpin, ?c], demo_pinned) ([Found demo_unpin ?p, Asking ?c], demo_pinned)"
    by (simp add: r_into_rtranclp)
  have apart: "apart (map Asking [demo_unpin, ?c]) (k_umem demo_pinned)"
    by (auto simp: apart_def undisturbed_def less_Suc_eq nth_Cons' demo_unpin_def demo_pin_def
        PINNER_PIN_def PINNER_UNPIN_def PINNER_FLUSH_def split: if_splits)
  have "k_private demo_pinned 0 = Some 1" by (simp add: demo_pinned_def demo_opened_def)
  note safe = pinner_threads_safe [OF demo_reach_pinned this apart steps, THEN conjunct1, rule_format, of 0 demo_env]
  have "\<not> faulty (worker_turn demo_env 1 ([Found demo_unpin ?p, Asking ?c] ! 0) demo_pinned)"
    by (rule safe) (simp_all add: fits_turn_def)
  with first show ?thesis by (auto simp only: nth_Cons_0)
qed

text \<open>
  C39. What an overlap of two list_adds does. Two threads pin on one file, with a kernel that
  answers both completely. One has built its pinning and read the entry after the list's head;
  before it links its own, the other goes through its whole first turn, and links another
  pinning. The late thread then links its pinning in front of the entry it read: the pinning of
  the other is on no list any more. No handle finds it, and its pages stay pinned: they are
  still held when the module is unloaded, which gives back all the others.
\<close>

theorem pinner_overlapping_adds:
  assumes "reachable B s" and "k_private s f = Some ia"
    and "pin_fits ev1 c1 s" and "pin_build ev1 c1 s = Ok (Inr q1) s1"
    and "list_head_next ia s1 = Ok next s1"
    and "pin_fits ev2 c2 s1" and "pin_begin ev2 c2 ia s1 = Ok (Inr p2) s2"
    and "pin_link_at ev1 ia n q1 next s2 = Ok (Inr p1) t"
  shows "user_pins (k_users t) = add_mset p1 (user_pins (k_users s)) \<and> p2 \<notin># user_pins (k_users t) \<and>
    k_refs t = B + pages_of (user_pins (k_users t)) + pin_pages p2 \<and> pin_pages p2 \<noteq> {#} \<and>
    (\<exists>u. pinner_exit t = Ok () u \<and> k_users u = [] \<and> k_refs u = B + pin_pages p2)"
proof -
  have inv: "pinner_inv B s" by (rule reachable_inv [OF assms(1)])
  then have own: "owns B s" by (simp add: pinner_inv_def)
  obtain info where info: "find_info ia s = Some info" using private_info [OF inv assms(2)] by blast
  note lost = overlapping_adds [OF own info assms(3-8)]
  let ?t = "if k_registered t then t\<lparr>k_device := False\<rparr> else t"
  have "owns (B + pin_pages p2) ?t" using lost(3) by (simp add: owns_def)
  from free_all_users_run [OF this] obtain u where
    "free_all_users ?t = Ok () u" "owns (B + pin_pages p2) u" "k_users u = []"
    by blast
  then have "pinner_exit t = Ok () u \<and> k_users u = [] \<and> k_refs u = B + pin_pages p2"
    by (simp add: pinner_exit_def owns_def)
  with lost show ?thesis by (auto simp: owns_def ac_simps)
qed

definition demo_env2 :: pin_env where
  "demo_env2 = demo_env\<lparr>ev_arr := Some 12, ev_gup := Inr [5, 6], ev_pin := Some 13, ev_sgl := Some 14,
     ev_ents := Some 15, ev_magic := 78\<rparr>"

theorem pinner_overlapping_adds_witness:
  "\<exists>q1 s1 p2 s2 p1 t u. pin_build demo_env demo_pin demo_opened = Ok (Inr q1) s1 \<and>
     list_head_next 1 s1 = Ok [] s1 \<and> pin_begin demo_env2 demo_pin 1 s1 = Ok (Inr p2) s2 \<and>
     pin_link_at demo_env 1 2 q1 [] s2 = Ok (Inr p1) t \<and> k_refs t = {#5, 6, 7, 9#} \<and>
     user_pins (k_users t) = {#p1#} \<and> pinner_exit t = Ok () u \<and> k_refs u = pin_pages p2 \<and> k_refs u \<noteq> {#}"
proof -
  have fits1: "pin_fits demo_env demo_pin demo_opened"
    by (simp add: pin_fits_def env_ok_def env_complete_def new_addrs_def demo_env_def demo_pin_def
        demo_opened_def demo_loaded_def demo_num_pages)
  define q1 where "q1 = \<lparr>p_addr = 3, num_sg_ents = 2, sglist = Some (4, demo_sglist), p_magic = 77\<rparr>"
  define s1 where "s1 = demo_opened\<lparr>k_live := {#4, 3, 2, 1#}, k_refs := {#7, 9#}\<rparr>"
  have build: "pin_build demo_env demo_pin demo_opened = Ok (Inr q1) s1"
    by (simp add: pin_build_def demo_pin_def demo_env_def demo_num_pages demo_start Let_def
        PINNER_MAX_PAGES_def pinner_alloc_and_fill_sglist_def demo_fill q1_def s1_def
        demo_opened_def demo_loaded_def kalloc_def get_pages_def)
  have next0: "list_head_next 1 s1 = Ok [] s1"
    by (simp add: list_head_next_def find_info_def s1_def demo_opened_def demo_loaded_def)
  have fits2: "pin_fits demo_env2 demo_pin s1"
    by (simp add: pin_fits_def env_ok_def env_complete_def new_addrs_def demo_env2_def demo_env_def demo_pin_def
        s1_def demo_opened_def demo_loaded_def demo_num_pages)
  obtain p2 s2 where first: "pin_begin demo_env2 demo_pin 1 s1 = Ok (Inr p2) s2" and refs: "k_refs s2 = {#5, 6, 7, 9#}"
    by (simp add: pin_begin_def pin_link_def demo_pin_def demo_env2_def demo_env_def demo_num_pages demo_start Let_def
        PINNER_MAX_PAGES_def pinner_alloc_and_fill_sglist_def find_info_def s1_def
        demo_opened_def demo_loaded_def kalloc_def get_pages_def list_add_pinning_def upd_info_def
        dma_event_add_def set_pinning_sglist_def add_mset_commute)
  obtain p1 t where link: "pin_link_at demo_env 1 2 q1 [] s2 = Ok (Inr p1) t" and refs': "k_refs t = k_refs s2"
    by (simp add: pin_link_at_def Let_def q1_def demo_env_def list_add_between_def upd_info_def dma_event_add_def
        set_pinning_sglist_def)
  have "k_private demo_opened 0 = Some 1" by (simp add: demo_opened_def)
  from pinner_overlapping_adds [OF demo_reach_opened this fits1 build next0 fits2 first link]
  have "user_pins (k_users t) = {#p1#}" "\<exists>u. pinner_exit t = Ok () u \<and> k_refs u = pin_pages p2" "pin_pages p2 \<noteq> {#}"
    by (auto simp: demo_opened_def)
  with build next0 first link refs refs' show ?thesis by (metis (no_types, lifting))
qed

text \<open>
  C16. The annotated copy of the driver, taken from its own text, behaves as the driver. Any
  sequence of opens, writes, closes and changes of user memory, from any state, gives the same
  results, the same memory, lists, references and files (or the same fault); only the record of
  the calls of the DMA functions can differ. Loading and unloading the module are the same
  altogether, and so is every write that is not a flush. A flush of the copy always synchronises
  for the processor and for the device; the driver leaves out the one whose bit of the size field
  is set.
\<close>

theorem pinner_commentary_agrees:
  shows "alike (comm_run_ops xs s) (run_ops xs s) \<and>
    comm_init r s = pinner_init r s \<and> comm_exit s = pinner_exit s \<and>
    comm_open a magic f s = pinner_open a magic f s \<and> comm_release f s = pinner_release f s \<and>
    (\<forall>c. um_cmds (k_umem s) buf = Some c \<longrightarrow>
      (cmd c \<noteq> PINNER_FLUSH \<or> usr_buf_sz c AND 3 = 0 \<longrightarrow>
         comm_write ev f buf sz s = pinner_write ev f buf sz s) \<and>
      (cmd c = PINNER_FLUSH \<longrightarrow>
         (\<exists>x. comm_write ev f buf sz s = Fault x \<and> pinner_write ev f buf sz s = Fault x) \<or>
         (\<exists>e. comm_write ev f buf sz s = Ok (Inl e) s \<and> pinner_write ev f buf sz s = Ok (Inl e) s) \<or>
         (\<exists>sg n. comm_write ev f buf sz s =
               Ok (Inr ()) (s\<lparr>k_dma := k_dma s @ [SyncForCpu sg n, SyncForDevice sg n]\<rparr>) \<and>
             pinner_write ev f buf sz s =
               Ok (Inr ()) (s\<lparr>k_dma := k_dma s @
                 (if usr_buf_sz c AND 1 = 0 then [SyncForCpu sg n] else []) @
                 (if usr_buf_sz c AND 2 = 0 then [SyncForDevice sg n] else [])\<rparr>))))"
    (is "_ \<and> _ \<and> _ \<and> _ \<and> _ \<and> ?writes")
proof -
  have "(cmd c \<noteq> PINNER_FLUSH \<or> usr_buf_sz c AND 3 = 0 \<longrightarrow>
         comm_write ev f buf sz s = pinner_write ev f buf sz s) \<and>
      (cmd c = PINNER_FLUSH \<longrightarrow>
         (\<exists>x. comm_write ev f buf sz s = Fault x \<and> pinner_write ev f buf sz s = Fault x) \<or>
         (\<exists>e. comm_write ev f buf sz s = Ok (Inl e) s \<and> pinner_write ev f buf sz s = Ok (Inl e) s) \<or>
         (\<exists>sg n. comm_write ev f buf sz s =
               Ok (Inr ()) (s\<lparr>k_dma := k_dma s @ [SyncForCpu sg n, SyncForDevice sg n]\<rparr>) \<and>
             pinner_write ev f buf sz s =
               Ok (Inr ()) (s\<lparr>k_dma := k_dma s @ flush_syncs (usr_buf_sz c) sg n\<rparr>)))"
    if c: "um_cmds (k_umem s) buf = Some c" for c
  proof (cases "sz = sizeof_pinner_cmd \<and> k_private s f \<noteq> None \<and> cmd c = PINNER_FLUSH")
    case True
    then obtain ia where ia: "k_private s f = Some ia" by auto
    have w: "pinner_write ev f buf sz s = pinner_do_flush c ia s" "comm_write ev f buf sz s = comm_do_flush c ia s"
      using True ia c
      by (simp_all add: pinner_write_def comm_write_def PINNER_FLUSH_def PINNER_PIN_def PINNER_UNPIN_def)
    have "comm_do_flush c ia s = pinner_do_flush c ia s" if "usr_buf_sz c AND 3 = 0"
      using do_flush_cases [of c ia s] flush_syncs_both [OF that] by auto
    then show ?thesis
      using True do_flush_cases [of c ia s] unfolding w by blast
  next
    case False
    then have "comm_write ev f buf sz s = pinner_write ev f buf sz s"
      and "cmd c = PINNER_FLUSH \<Longrightarrow> pinner_write ev f buf sz s = Ok (Inl EINVAL) s \<or>
        pinner_write ev f buf sz s = Fault NullDeref"
      using c comm_write_eq [of s buf ev f sz] by (auto simp: pinner_write_def comm_write_def split: option.split)
    then show ?thesis by auto
  qed
  then have "?writes" unfolding flush_syncs_def by blast
  then show ?thesis
    by (intro conjI alike_run_ops comm_init_eq comm_exit_eq comm_open_eq comm_release_eq) simp_all
qed

theorem pinner_commentary_agrees_witness:
  "\<exists>sg n. comm_write demo_env 0 0x10 40 (put_cmd 0x10 (demo_unpin\<lparr>cmd := 3, usr_buf_sz := 5215\<rparr>) demo_pinned) =
       Ok (Inr ()) ((put_cmd 0x10 (demo_unpin\<lparr>cmd := 3, usr_buf_sz := 5215\<rparr>) demo_pinned)
         \<lparr>k_dma := k_dma demo_pinned @ [SyncForCpu sg n, SyncForDevice sg n]\<rparr>) \<and>
     pinner_write demo_env 0 0x10 40 (put_cmd 0x10 (demo_unpin\<lparr>cmd := 3, usr_buf_sz := 5215\<rparr>) demo_pinned) =
       Ok (Inr ()) (put_cmd 0x10 (demo_unpin\<lparr>cmd := 3, usr_buf_sz := 5215\<rparr>) demo_pinned)"
proof -
  let ?c = "demo_unpin\<lparr>cmd := 3, usr_buf_sz := 5215\<rparr>"
  let ?s = "put_cmd 0x10 ?c demo_pinned"
  have c: "um_cmds (k_umem ?s) 0x10 = Some ?c" by simp
  have "comm_write demo_env 0 0x10 40 ?s = comm_do_flush ?c 1 ?s"
    by (simp add: comm_write_def sizeof_pinner_cmd_def PINNER_PIN_def PINNER_UNPIN_def PINNER_FLUSH_def
        demo_pinned_def demo_opened_def put_cmd_def)
  also have "\<exists>t. \<dots> = Ok (Inr ()) t"
    by (simp add: comm_do_flush_def find_info_def demo_unpin_def demo_pinned_def put_cmd_def Let_def)
  finally obtain t where "comm_write demo_env 0 0x10 40 ?s = Ok (Inr ()) t" by blast
  moreover have "?s\<lparr>k_dma := k_dma ?s\<rparr> = ?s" "k_dma ?s = k_dma demo_pinned" by (simp_all add: put_cmd_def)
  moreover note pinner_commentary_agrees [where s = ?s and ev = demo_env and f = 0 and buf = "0x10" and sz = 40,
      THEN conjunct2, THEN conjunct2, THEN conjunct2, THEN conjunct2, THEN conjunct2, rule_format, OF c]
  ultimately show ?thesis by (auto simp: PINNER_FLUSH_def)
qed

text \<open>
  C13. Unloading the module, in whatever reachable state, terminates without a fault, empties
  the list of users and gives back every page reference the driver held.
\<close>

theorem pinner_exit_gives_back:
  assumes "reachable B s"
  shows "\<exists>t. pinner_exit s = Ok () t \<and> k_users t = [] \<and> k_refs t = B"
proof -
  let ?s = "if k_registered s then s\<lparr>k_device := False\<rparr> else s"
  have "owns B s" using reachable_inv [OF assms] by (simp add: pinner_inv_def)
  then have "owns B ?s" by (simp add: owns_def)
  from free_all_users_run [OF this] obtain t where
    "free_all_users ?s = Ok () t" "owns B t" "k_users t = []"
    by blast
  then show ?thesis by (auto simp: pinner_exit_def owns_def)
qed

theorem pinner_exit_gives_back_witness:
  "(\<exists>t. pinner_exit demo_pinned = Ok () t \<and> k_users t = [] \<and> k_refs t = {#}) \<and>
   k_refs demo_pinned = {#7, 9#}"
  using pinner_exit_gives_back [OF demo_reach_pinned] by (simp add: demo_pinned_def)

text \<open>
  C2. The driver refines its specification: after any sequence of opens, writes, closes and
  stores to user memory, the sessions and buffers it keeps are those of the abstract table on
  which the successful operations were performed, and the page references it holds are
  exactly the pages of the buffers of the table.
\<close>

theorem pinner_refines_table:
  assumes "loaded B s" and "ops_ok xs s" and "run_ops xs s = Ok lg t"
  shows "table_of t = spec_ops xs lg Map.empty \<and> k_refs t = B + table_pages (table_of t)"
proof -
  note run = ops_refine [OF reachable.start [OF assms(1)] assms(2,3)]
  then have "pinner_inv B t" by (auto intro: reachable_inv)
  then have "k_refs t = B + table_pages (table_of t)"
    unfolding table_pages_of [OF \<open>pinner_inv B t\<close>] by (simp add: pinner_inv_def owns_def)
  with run show ?thesis by (simp add: table_of_loaded [OF assms(1)])
qed

theorem pinner_refines_table_witness:
  "\<exists>lg. run_ops [POpen (Some 1) 5 0, PWrite demo_env 0 0x10 40] demo_loaded = Ok lg demo_pinned \<and>
     table_of demo_pinned = [0 \<mapsto> (5, [(77, [7, 9])])]"
proof -
  let ?xs = "[POpen (Some 1) 5 0, PWrite demo_env 0 0x10 40]"
  have load: "loaded {#} demo_loaded" by (simp add: loaded_def demo_loaded_def)
  have run: "run_ops ?xs demo_loaded =
      Ok [(k_umem demo_loaded, Inr ()), (k_umem demo_opened, Inr ())] demo_pinned"
    using demo_write demo_open by simp
  have ok: "ops_ok ?xs demo_loaded"
    using demo_opened_env demo_write demo_open by simp (simp add: demo_loaded_def demo_opened_def)
  have "spec_ops ?xs [(k_umem demo_loaded, Inr ()), (k_umem demo_opened, Inr ())] Map.empty =
      [0 \<mapsto> (5, [(77, [7, 9])])]"
    by (simp add: demo_loaded_def demo_opened_def demo_umem_def demo_pin_def demo_env_def
        spec_write_def spec_pin_def PINNER_PIN_def)
  with pinner_refines_table [OF load ok run] run show ?thesis by metis
qed

text \<open>
  C14. The example program, run from any reachable state of the driver with a kernel that answers
  its pin command completely (all pages pinned, the scatterlist allocated, at new addresses; by C9
  the command faults otherwise), ends without a fault, and leaves the driver's files, buffers and
  page references as they were. It never gets to
  its unpin command: the flush command it writes has no handle, so the driver refuses it (no
  handle lies at address 0), and what unpins the buffer is the closing of the file. When the
  pin succeeded, it printed the entries of the list, one for each page of the buffer.
\<close>

theorem example_leaves_driver:
  assumes "reachable B s" and "k_private s (ue_fd e) = None" and "example_env_ok e s"
  shows "\<exists>msgs t. example_main e s = Ok msgs t \<and> table_of t = table_of s \<and> k_refs t = k_refs s \<and>
     (example_said e msgs \<or> msgs = [CouldNotOpen])"
proof (cases "k_device s \<and> ue_info e \<noteq> None")
  case False
  then have "example_main e s = Ok [CouldNotOpen] s"
    by (auto simp: example_main_def pinner_open_def)
  then show ?thesis by auto
next
  case True
  then obtain x where x: "ue_info e = Some x" by auto
  have inv: "pinner_inv B s" by (rule reachable_inv) fact
  have "x \<notin># k_live s" using assms(3) x by (simp add: example_env_ok_def)
  from open_session [OF inv assms(2) this] x obtain s0 where
    opened: "pinner_open (ue_info e) (ue_magic e) (ue_fd e) s = Ok (Inr ()) s0" "pinner_inv B s0"
      "table_of s0 = (table_of s)(ue_fd e \<mapsto> (ue_magic e, []))" "k_private s0 (ue_fd e) = Some x"
      "k_live s0 = add_mset x (k_live s)" "k_umem s0 = k_umem s" by auto
  let ?s = "put_stack e s0"
  have inv0: "pinner_inv B ?s" and fd: "k_private ?s (ue_fd e) = Some x"
    using opened by (simp_all add: put_stack_def)
  have table0: "table_of ?s = table_of s0" by (rule table_of_same) (simp_all add: put_stack_def)
  have "env_ok (ue_pin e) (example_pin_cmd e) ?s" "env_complete (ue_pin e) (example_pin_cmd e)"
    "um_handles (k_umem ?s) 0 = None" "ue_handle e \<noteq> 0"
    using assms(3) x opened(5,6) by (auto simp: example_env_ok_def env_ok_def put_stack_def)
  from example_body_run [OF inv0 fd this] obtain msgs t where
    t: "example_body e ?s = Ok msgs t" "pinner_inv B t" "k_private t = k_private ?s"
      "(table_of t)(ue_fd e := None) = (table_of ?s)(ue_fd e := None)" "example_said e msgs" by blast
  have "table_of t (ue_fd e) \<noteq> None"
    using private_info [OF t(2), of "ue_fd e" x] t(3) fd by (auto simp: table_of_def)
  from close_session [OF t(2) this] obtain u where
    u: "run_op (PRelease (ue_fd e)) t = Ok (Inr ()) u" "pinner_inv B u" "table_of u = (table_of t)(ue_fd e := None)"
    by blast
  have "table_of s (ue_fd e) = None" by (simp add: table_of_def assms(2))
  then have table: "table_of u = table_of s" using u(3) t(4) table0 opened(3) by (simp add: fun_upd_idem)
  have "example_main e s = Ok msgs u"
    using True opened(1) t(1) u(1) by (simp add: example_main_def del: run_op.simps)
  then show ?thesis using table same_table_refs [OF inv u(2) table] t(5) by blast
qed

definition demo_example :: example_env where
  "demo_example = \<lparr>ue_info = Some 1, ue_magic = 5, ue_fd = 0, ue_pin = demo_env, ue_buf = 0x1010,
     ue_cmd = 0x10, ue_handle = 0x100, ue_plist = 0x200,
     ue_handle_junk = \<lparr>user_magic = 0, pin_magic = 0\<rparr>, ue_count_junk = 0, ue_entries_junk = []\<rparr>"

theorem example_leaves_driver_witness:
  "\<exists>msgs t. example_main demo_example demo_loaded = Ok msgs t \<and> table_of t = table_of demo_loaded \<and>
     k_refs t = k_refs demo_loaded \<and> (example_said demo_example msgs \<or> msgs = [CouldNotOpen])"
proof (rule example_leaves_driver)
  show "reachable {#} demo_loaded"
    by (rule reachable.start) (simp add: loaded_def demo_loaded_def)
  have "num_pages_of 0x1010 5215 = 2" by (simp add: num_pages_of_eq)
  then show "example_env_ok demo_example demo_loaded"
    by (simp add: example_env_ok_def demo_example_def example_pin_cmd_def demo_env_def new_addrs_def
        env_ok_def env_complete_def BUF_SIZE_def demo_loaded_def demo_umem_def)
qed (simp add: demo_loaded_def demo_example_def)

end
