(* ===== verification/Xvc.thy ===== *)
theory Xvc
  imports Prelude
begin

text \<open>
  The XVC server, xvcserver/xvcserver_axi/src/xvc_server.c: the reply buffer, the
  little-endian integers of the protocol, the parser of the requests in the receive buffer,
  the connection loop that receives, parses, executes and replies, and the server start.

  Pointers into the receive buffer and the reply buffer are offsets; a read or a write
  outside a buffer is the fault \<open>OutOfBounds\<close>, a failed assert the fault \<open>AssertFailed\<close>.
  The network and the JTAG handlers are arguments.
\<close>

section \<open>Bytes and buffers\<close>

definition bytes_of :: "string \<Rightarrow> u8 list" where
  "bytes_of s = map of_char s"

fun get_uint_loop :: "u8 list \<Rightarrow> nat \<Rightarrow> u32 \<Rightarrow> u32" where
  "get_uint_loop p 0 v = v"
| "get_uint_loop p (Suc n) v = get_uint_loop p n (push_bit 8 v OR ucast (p ! n))"

definition get_uint_le :: "u8 list \<Rightarrow> nat \<Rightarrow> u32" where
  "get_uint_le p len = get_uint_loop p len 0"

fun set_uint_le :: "nat \<Rightarrow> u32 \<Rightarrow> u8 list" where
  "set_uint_le 0 v = []"
| "set_uint_le (Suc n) v = ucast v # set_uint_le n (drop_bit 8 v)"

definition slice :: "nat \<Rightarrow> nat \<Rightarrow> 'a list \<Rightarrow> 'a list" where
  "slice off n xs = take n (drop off xs)"

definition patch :: "nat \<Rightarrow> 'a list \<Rightarrow> 'a list \<Rightarrow> 'a list" where
  "patch off ys xs = take off xs @ ys @ drop (off + length ys) xs"

section \<open>The reply buffer\<close>

text \<open>
  \<open>while (reply_max < bytes) reply_max *= 2\<close>, in 32-bit arithmetic: the loop may not end.
\<close>

partial_function (option) reply_grow :: "u32 \<Rightarrow> u32 \<Rightarrow> u32 option" where
  [code]: "reply_grow m bytes = (if m < bytes then reply_grow (m * 2) bytes else Some m)"

definition reply_buf_size :: "u32 \<Rightarrow> u32 \<Rightarrow> u32 option" where
  "reply_buf_size m bytes =
     (if m < bytes then reply_grow (if m = 0 then 1 else m) bytes else Some m)"

section \<open>The server's state\<close>

datatype net_event = Data "u8 list" | RecvError | PeerClosed

text \<open>
  The handlers of struct XvcServerHandlers. \<open>shift_tms_tdi\<close> gets the bit count, the receive
  buffer with the offsets of the TMS and TDI bits in it, and the reply buffer with the offset
  of the TDO bits; \<open>'d\<close> is the state of the device behind \<open>map_base\<close>.
\<close>

record 'd handlers =
  set_tck :: "u64 \<Rightarrow> u64"
  shift_tms_tdi :: "u64 \<Rightarrow> u8 list \<Rightarrow> nat \<Rightarrow> nat \<Rightarrow> u8 list \<Rightarrow> nat \<Rightarrow> 'd \<Rightarrow> (u8 list, 'd) outcome"

text \<open>
  \<open>x_buf\<close>, \<open>x_len\<close> and \<open>x_pending\<close> are buf, buf_len and \<open>pending_error[0] != 0\<close> of struct
  XvcClient (buf_max is the length of \<open>x_buf\<close>); \<open>x_reply\<close> and \<open>x_rlen\<close> are reply_buf and
  reply_len; \<open>x_sent\<close> are the packets sent on the connection.
\<close>

record 'd xvc =
  x_buf :: "u8 list"
  x_len :: u32
  x_pending :: bool
  x_reply :: "u8 list"
  x_rlen :: nat
  x_sent :: "u8 list list"
  x_dev :: 'd

section \<open>Parsing one request\<close>

function scan_colon :: "u8 list \<Rightarrow> nat \<Rightarrow> nat \<Rightarrow> nat option" where
  "scan_colon buf p e =
     (if p < e then
        if p < length buf then if buf ! p \<noteq> 58 then scan_colon buf (p + 1) e else Some p
        else None
      else Some p)"
  by pat_completeness auto
termination by (relation "measure (\<lambda>(buf, p, e). e - p)") auto

declare scan_colon.simps [simp del]

fun decimal :: "nat \<Rightarrow> u8 list" where
  "decimal n = (if n < 10 then [of_nat (48 + n)]
                else decimal (n div 10) @ [of_nat (48 + n mod 10)])"

declare decimal.simps [simp del]

definition XVC_VERSION :: nat where
  "XVC_VERSION = 10"

definition server_info :: "nat \<Rightarrow> u8 list" where
  "server_info buf_max =
     bytes_of ''xvcServer_v'' @ decimal (XVC_VERSION div 10) @ bytes_of ''.'' @
     decimal (XVC_VERSION mod 10) @ bytes_of '':'' @ decimal buf_max @ [10]"

definition store_reply :: "u8 list \<Rightarrow> 'd xvc \<Rightarrow> (unit, 'd xvc) outcome" where
  "store_reply bs x =
     (if x_rlen x + length bs \<le> length (x_reply x)
      then Ok () (x\<lparr>x_reply := patch (x_rlen x) bs (x_reply x)\<rparr>)
      else Fault OutOfBounds)"

text \<open>
  What one turn of the parsing loop does: \<open>goto error\<close>, break with \<open>fill\<close> set, or go on at
  an offset.
\<close>

datatype turn = TError | TFill | TNext nat

definition do_getinfo :: "nat \<Rightarrow> 'd xvc \<Rightarrow> (turn, 'd xvc) outcome" where
  "do_getinfo p x =
     (let text = take 99 (server_info (length (x_buf x))) in
      obind (store_reply (text @ [0]) x) (\<lambda>_ x1.
        Ok (TNext p) (x1\<lparr>x_rlen := x_rlen x1 + length text\<rparr>)))"

definition do_shift :: "'d handlers \<Rightarrow> nat \<Rightarrow> nat \<Rightarrow> 'd xvc \<Rightarrow> (turn, 'd xvc) outcome" where
  "do_shift h cbuf p x =
     (let cend = unat (x_len x); buf = x_buf x in
      if cend < p + 4 then Ok TFill x
      else if length buf < p + 4 then Fault OutOfBounds
      else
        let bits = get_uint_le (drop p buf) 4;
            bytes = unat ((bits + 7) div 8);
            q = p + 4 in
        if cend < q + bytes * 2 then
          (if q + bytes * 2 - cbuf \<le> length buf then Ok TFill x else Fault AssertFailed)
        else
          obind
            (if \<not> x_pending x then
               (case shift_tms_tdi h (ucast bits) buf q (q + bytes) (x_reply x) (x_rlen x) (x_dev x) of
                  Fault f \<Rightarrow> Fault f
                | Ok r d \<Rightarrow> Ok () (x\<lparr>x_reply := r, x_dev := d\<rparr>))
             else store_reply (replicate bytes 0) x)
            (\<lambda>_ x1. Ok (TNext (q + bytes * 2)) (x1\<lparr>x_rlen := x_rlen x1 + bytes\<rparr>)))"

definition do_settck :: "'d handlers \<Rightarrow> nat \<Rightarrow> 'd xvc \<Rightarrow> (turn, 'd xvc) outcome" where
  "do_settck h p x =
     (let buf = x_buf x in
      if unat (x_len x) < p + 4 then Ok TFill x
      else if length buf < p + 4 then Fault OutOfBounds
      else
        let nsperiod = ucast (get_uint_le (drop p buf) 4);
            res = (if \<not> x_pending x then set_tck h nsperiod else nsperiod) in
        obind (store_reply (set_uint_le 4 (ucast res)) x) (\<lambda>_ x1.
          Ok (TNext (p + 4)) (x1\<lparr>x_rlen := x_rlen x1 + 4\<rparr>)))"

definition parse_turn :: "'d handlers \<Rightarrow> nat \<Rightarrow> 'd xvc \<Rightarrow> (turn, 'd xvc) outcome" where
  "parse_turn h cbuf x =
     (let cend = unat (x_len x);
          e = (if cbuf + 30 < cend then cbuf + 30 else cend) in
      case scan_colon (x_buf x) cbuf e of
        None \<Rightarrow> Fault OutOfBounds
      | Some p0 \<Rightarrow>
          if e \<le> p0 then (if 30 \<le> p0 - cbuf then Ok TError x else Ok TFill x)
          else
            let p = p0 + 1; name = slice cbuf (p - cbuf) (x_buf x) in
            if name = bytes_of ''getinfo:'' then do_getinfo p x
            else if name = bytes_of ''shift:'' then do_shift h cbuf p x
            else if name = bytes_of ''settck:'' then do_settck h p x
            else Ok TError x)"

section \<open>The parsing loop\<close>

lemma scan_colon_ge: "scan_colon buf p e = Some q \<Longrightarrow> p \<le> q"
  by (induction buf p e rule: scan_colon.induct) (simp add: scan_colon.simps split: if_splits)

lemma scan_colon_bound: "scan_colon buf p e = Some q \<Longrightarrow> q < e \<Longrightarrow> q < length buf"
proof (induction buf p e rule: scan_colon.induct)
  case (1 buf p e)
  from 1(2,3) show ?case
    by (subst (asm) scan_colon.simps) (auto split: if_splits intro: 1(1))
qed

text \<open>A turn that goes on moves forward, from an offset inside the buffer.\<close>

lemma parse_turn_progress:
  assumes "parse_turn h cbuf x = Ok (TNext q) y"
  shows "cbuf < q" and "cbuf < length (x_buf x)" and "x_buf y = x_buf x" and "x_len y = x_len x"
proof -
  let ?e = "if cbuf + 30 < unat (x_len x) then cbuf + 30 else unat (x_len x)"
  obtain p0 where p0: "scan_colon (x_buf x) cbuf ?e = Some p0"
    using assms by (auto simp: parse_turn_def Let_def split: option.splits)
  have e: "p0 < ?e"
    using assms p0 by (auto simp: parse_turn_def Let_def split: if_splits)
  have "cbuf \<le> p0" using p0 by (rule scan_colon_ge)
  moreover have "p0 < length (x_buf x)" using p0 e by (rule scan_colon_bound)
  moreover have "p0 < q \<and> x_buf y = x_buf x \<and> x_len y = x_len x"
    using assms p0
    by (auto simp: parse_turn_def Let_def do_getinfo_def do_shift_def do_settck_def
        store_reply_def obind_Ok split: if_splits outcome.splits)
  ultimately show "cbuf < q" and "cbuf < length (x_buf x)" and "x_buf y = x_buf x"
    and "x_len y = x_len x" by auto
qed

text \<open>The result of the loop: \<open>None\<close> for \<open>goto error\<close>, otherwise cbuf and fill.\<close>

function parse_loop :: "'d handlers \<Rightarrow> nat \<Rightarrow> 'd xvc \<Rightarrow> ((nat \<times> bool) option, 'd xvc) outcome" where
  "parse_loop h cbuf x =
     (case parse_turn h cbuf x of
        Fault f \<Rightarrow> Fault f
      | Ok TError y \<Rightarrow> Ok None y
      | Ok TFill y \<Rightarrow> Ok (Some (cbuf, True)) y
      | Ok (TNext q) y \<Rightarrow> parse_loop h q y)"
  by pat_completeness auto
termination
proof (relation "measure (\<lambda>(h, cbuf, x). length (x_buf x) - cbuf)")
  fix h :: "'d handlers" and cbuf :: nat and x y :: "'d xvc" and t q
  assume "parse_turn h cbuf x = Ok t y" and "t = TNext q"
  then have "parse_turn h cbuf x = Ok (TNext q) y" by simp
  from parse_turn_progress [OF this]
  show "((h, q, y), h, cbuf, x) \<in> measure (\<lambda>(h, cbuf, x). length (x_buf x) - cbuf)" by auto
qed simp

declare parse_loop.simps [simp del]

lemma parse_loop_fill: "parse_loop h cbuf x = Ok (Some (q, fill)) y \<Longrightarrow> fill"
  by (induction h cbuf x rule: parse_loop.induct)
     (subst (asm) parse_loop.simps, auto split: outcome.splits turn.splits)

section \<open>The connection\<close>

definition consume_packet :: "nat \<Rightarrow> 'd xvc \<Rightarrow> (unit, 'd xvc) outcome" where
  "consume_packet len x =
     (if len \<le> unat (x_len x) then
        let n = x_len x - of_nat len in
        if len + unat n \<le> length (x_buf x)
        then Ok () (x\<lparr>x_len := n, x_buf := patch 0 (slice len (unat n) (x_buf x)) (x_buf x)\<rparr>)
        else Fault OutOfBounds
      else Fault AssertFailed)"

text \<open>
  recv of at most \<open>n\<close> bytes: the value it returns as the \<open>unsigned\<close> the code stores it in
  (so an error is \<open>2^32 - 1\<close>), the bytes delivered, and the events left.
\<close>

definition recv :: "nat \<Rightarrow> net_event list \<Rightarrow> u32 \<times> u8 list \<times> net_event list" where
  "recv n net =
     (case net of
        [] \<Rightarrow> (0, [], [])
      | PeerClosed # es \<Rightarrow> (0, [], es)
      | RecvError # es \<Rightarrow> (- 1, [], es)
      | Data bs # es \<Rightarrow>
          (of_nat (min n (length bs)), take n bs, if n < length bs then Data (drop n bs) # es else es))"

fun event_size :: "net_event \<Rightarrow> nat" where
  "event_size (Data bs) = Suc (length bs)"
| "event_size RecvError = 1"
| "event_size PeerClosed = 1"

definition net_size :: "net_event list \<Rightarrow> nat" where
  "net_size net = sum_list (map event_size net)"

lemma recv_decreases: "recv n net = (len, bs, rest) \<Longrightarrow> 0 < len \<Longrightarrow> net_size rest < net_size net"
  by (auto simp: recv_def net_size_def split: list.splits net_event.splits if_splits)
     (cases n; auto)+

text \<open>
  The code after the parsing loop up to the recv: reply to what was parsed and drop it from
  the buffer. The value says whether send failed.
\<close>

definition send_reply :: "(nat \<Rightarrow> bool) \<Rightarrow> nat \<Rightarrow> 'd xvc \<Rightarrow> (bool, 'd xvc) outcome" where
  "send_reply sendok cbuf x =
     (if 0 < cbuf then
        if length (x_reply x) < x_rlen x then Fault OutOfBounds
        else if \<not> sendok (length (x_sent x)) then Ok False x
        else obind (consume_packet cbuf (x\<lparr>x_sent := x_sent x @ [take (x_rlen x) (x_reply x)]\<rparr>))
               (\<lambda>_ x1. Ok True x1)
      else Ok True x)"

datatype conn_end = ConnClosed | ConnError

function read_more :: "(nat \<Rightarrow> bool) \<Rightarrow> 'd handlers \<Rightarrow> net_event list \<Rightarrow> 'd xvc \<Rightarrow>
    (conn_end, 'd xvc) outcome" where
  "read_more sendok h net x =
     (case parse_loop h 0 (x\<lparr>x_rlen := 0\<rparr>) of
        Fault f \<Rightarrow> Fault f
      | Ok None x1 \<Rightarrow> Ok ConnError x1
      | Ok (Some (cbuf, fill)) x1 \<Rightarrow>
          (case send_reply sendok cbuf x1 of
             Fault f \<Rightarrow> Fault f
           | Ok False x2 \<Rightarrow> Ok ConnError x2
           | Ok True x2 \<Rightarrow>
               if 0 < cbuf \<and> x_len x2 \<noteq> 0 \<and> \<not> fill then read_more sendok h net x2
               else
                 (case recv (unat (of_nat (length (x_buf x2)) - x_len x2)) net of
                    (len, bs, rest) \<Rightarrow>
                      if 0 < len then
                        if bs \<noteq> [] \<and> length (x_buf x2) < unat (x_len x2) + length bs
                        then Fault OutOfBounds
                        else read_more sendok h rest
                               (x2\<lparr>x_buf := (if bs = [] then x_buf x2
                                             else patch (unat (x_len x2)) bs (x_buf x2)),
                                   x_len := x_len x2 + len\<rparr>)
                      else if len < 0 then Ok ConnError x2
                      else Ok ConnClosed x2)))"
  by pat_completeness auto
termination
  by (relation "measure (\<lambda>(sendok, h, net, x). net_size net)") (auto dest: parse_loop_fill recv_decreases [OF sym])

declare read_more.simps [simp del]

definition MAX_PACKET_LEN :: u32 where
  "MAX_PACKET_LEN = 10000"

text \<open>
  A connection: \<open>junk\<close> is what malloc returned for the receive buffer; the reply buffer was
  brought to the size \<open>reply_buf_size\<close> asks for by the caller of this definition.
\<close>

definition new_client :: "u8 list \<Rightarrow> u8 list \<Rightarrow> 'd \<Rightarrow> 'd xvc" where
  "new_client junk reply d =
     \<lparr>x_buf = junk, x_len = 0, x_pending = False, x_reply = reply, x_rlen = 0, x_sent = [], x_dev = d\<rparr>"

definition read_packet :: "(nat \<Rightarrow> bool) \<Rightarrow> (nat \<Rightarrow> u8 list) \<Rightarrow> 'd handlers \<Rightarrow> net_event list \<Rightarrow>
    'd xvc \<Rightarrow> (conn_end, 'd xvc) outcome option" where
  "read_packet sendok realloc_junk h net x =
     (case reply_buf_size (of_nat (length (x_reply x))) MAX_PACKET_LEN of
        None \<Rightarrow> None
      | Some m \<Rightarrow> Some (read_more sendok h net
          (x\<lparr>x_reply := x_reply x @ realloc_junk (unat m - length (x_reply x))\<rparr>)))"

section \<open>Lists and buffers\<close>

lemma length_set_uint_le [simp]: "length (set_uint_le n v) = n"
  by (induction n arbitrary: v) auto

lemma length_patch [simp]: "off + length ys \<le> length xs \<Longrightarrow> length (patch off ys xs) = length xs"
  by (simp add: patch_def)

lemma patch_Nil [simp]: "patch off [] xs = xs"
  by (simp add: patch_def)

lemma length_slice: "off + n \<le> length xs \<Longrightarrow> length (slice off n xs) = n"
  by (simp add: slice_def)

lemma patch_append:
  assumes "off + length ys + length zs \<le> length xs"
  shows "patch (off + length ys) zs (patch off ys xs) = patch off (ys @ zs) xs"
proof (cases "length xs \<le> off")
  case True
  with assms have "length ys = 0" and "length zs = 0" by linarith+
  then show ?thesis by simp
next
  case False
  with assms show ?thesis by (simp add: patch_def min_def ac_simps)
qed

lemma get_uint_le_4:
  "get_uint_le p 4 = push_bit 8 (push_bit 8 (push_bit 8 (ucast (p ! 3)) OR ucast (p ! 2)) OR
     ucast (p ! 1)) OR ucast (p ! 0)"
  by (simp add: get_uint_le_def eval_nat_numeral)

lemma get_uint_loop_cong:
  "(\<And>i. i < n \<Longrightarrow> p ! i = q ! i) \<Longrightarrow> get_uint_loop p n v = get_uint_loop q n v"
  by (induction n arbitrary: v) auto

lemma get_uint_le_take: "n \<le> m \<Longrightarrow> get_uint_le (take m p) n = get_uint_le p n"
  unfolding get_uint_le_def by (rule get_uint_loop_cong) simp

end
