(* ===== verification/XvcAxi.thy ===== *)
theory XvcAxi
  imports Xvc
begin

text \<open>
  The JTAG handlers of the server: xvc_axi2pl.cpp, which drives the AXI debug bridge through
  its registers, and the handler functions of xvc_server2axi.c. The bridge is hardware: how
  it answers a register read and what a write does to it is the argument \<open>dev\<close>.
\<close>

section \<open>Memory-mapped registers\<close>

definition axilite_read :: "'d mmio \<Rightarrow> nat \<Rightarrow> 'd \<Rightarrow> u32 \<times> 'd" where
  "axilite_read dev off d = mm_read dev off d"

definition axilite_write :: "'d mmio \<Rightarrow> nat \<Rightarrow> u32 \<Rightarrow> 'd \<Rightarrow> 'd" where
  "axilite_write dev off v d = mm_write dev off v d"

definition LENGTH_REG_OFFSET :: nat where "LENGTH_REG_OFFSET = 0x00"
definition TMS_REG_OFFSET :: nat where "TMS_REG_OFFSET = 0x04"
definition TDI_REG_OFFSET :: nat where "TDI_REG_OFFSET = 0x08"
definition TDO_REG_OFFSET :: nat where "TDO_REG_OFFSET = 0x0C"
definition CONTROL_REG_OFFSET :: nat where "CONTROL_REG_OFFSET = 0x10"

section \<open>Shifting one word\<close>

fun poll_control :: "'d mmio \<Rightarrow> nat \<Rightarrow> 'd \<Rightarrow> nat \<times> 'd" where
  "poll_control dev 0 d = (0, d)"
| "poll_control dev (Suc n) d =
     (case axilite_read dev CONTROL_REG_OFFSET d of
        (v, d1) \<Rightarrow> if v AND 1 = 0 then (Suc n, d1) else poll_control dev n d1)"

text \<open>\<open>None\<close> is the return value 1, the time-out; \<open>Some tdo\<close> is 0 with \<open>*tdo_bits\<close> set.\<close>

definition xil_xvc_shift_bits :: "'d mmio \<Rightarrow> u32 \<Rightarrow> u32 \<Rightarrow> 'd \<Rightarrow> u32 option \<times> 'd" where
  "xil_xvc_shift_bits dev tms_bits tdi_bits d =
     (let d1 = axilite_write dev TMS_REG_OFFSET tms_bits d;
          d2 = axilite_write dev TDI_REG_OFFSET tdi_bits d1;
          d3 = axilite_write dev CONTROL_REG_OFFSET 1 d2 in
      case poll_control dev 100 d3 of
        (n, d4) \<Rightarrow>
          if n = 0 then (None, d4)
          else (case axilite_read dev TDO_REG_OFFSET d4 of (v, d5) \<Rightarrow> (Some v, d5)))"

section \<open>Shifting a vector of bits\<close>

record xil_xvc_ioc =
  opcode :: u32
  ioc_length :: u32
  tms_buf :: nat
  tdi_buf :: nat
  tdo_buf :: nat

text \<open>
  The loop over \<open>current_bit\<close>. It reads the TMS and TDI bits from \<open>buf\<close> and writes the TDO
  bits to \<open>r\<close>; a memcpy outside its buffer is a fault, so \<open>current_bit\<close> stays below eight
  times the size of a buffer and does not wrap. The state is the reply buffer and the device.
\<close>

function axiioc_loop :: "'d mmio \<Rightarrow> xil_xvc_ioc \<Rightarrow> u8 list \<Rightarrow> nat \<Rightarrow> nat \<Rightarrow> u8 list \<Rightarrow> 'd \<Rightarrow>
    (nat, u8 list \<times> 'd) outcome" where
  "axiioc_loop dev xvc_obj buf num_bits current_bit r d =
     (if current_bit < num_bits then
        let shift_num_bits = min 32 (num_bits - current_bit);
            d1 = (if num_bits - current_bit < 32
                  then axilite_write dev LENGTH_REG_OFFSET (of_nat shift_num_bits) d else d);
            shift_num_bytes = (shift_num_bits + 7) div 8;
            tms = tms_buf xvc_obj + current_bit div 8;
            tdi = tdi_buf xvc_obj + current_bit div 8;
            tdo = tdo_buf xvc_obj + current_bit div 8 in
        if length buf < tms + shift_num_bytes \<or> length buf < tdi + shift_num_bytes
        then Fault OutOfBounds
        else
          case xil_xvc_shift_bits dev (get_uint_le (drop tms buf) shift_num_bytes)
                 (get_uint_le (drop tdi buf) shift_num_bytes) d1 of
            (None, d2) \<Rightarrow> Ok 1 (r, d2)
          | (Some tdo_store, d2) \<Rightarrow>
              if length r < tdo + shift_num_bytes then Fault OutOfBounds
              else axiioc_loop dev xvc_obj buf num_bits (current_bit + shift_num_bits)
                     (patch tdo (set_uint_le shift_num_bytes tdo_store) r) d2
      else Ok 0 (r, d))"
  by pat_completeness auto
termination
  by (relation "measure (\<lambda>(dev, xvc_obj, buf, num_bits, current_bit, r, d). num_bits - current_bit)")
     (auto simp: min_def)

declare axiioc_loop.simps [simp del]

definition xvc_axiioc :: "'d mmio \<Rightarrow> xil_xvc_ioc \<Rightarrow> u8 list \<Rightarrow> u8 list \<Rightarrow> 'd \<Rightarrow>
    (nat, u8 list \<times> 'd) outcome" where
  "xvc_axiioc dev xvc_obj buf r d =
     (let operation_code = opcode xvc_obj in
      if operation_code \<noteq> 1 \<and> operation_code \<noteq> 2 then Ok 1 (r, d)
      else
        let num_bits = ioc_length xvc_obj;
            num_bytes = unat ((num_bits + 7) div 8);
            d1 = (if 32 \<le> num_bits then axilite_write dev LENGTH_REG_OFFSET 0x20 d else d) in
        obind (axiioc_loop dev xvc_obj buf (unat num_bits) 0 r d1) (\<lambda>ret (r1, d2).
          if ret \<noteq> 0 then Ok ret (r1, d2)
          else if operation_code = 2 then
            if length r1 < tdo_buf xvc_obj + num_bytes \<or> length buf < tdi_buf xvc_obj + num_bytes
            then Fault OutOfBounds
            else Ok ret (patch (tdo_buf xvc_obj) (slice (tdi_buf xvc_obj) num_bytes buf) r1, d2)
          else Ok ret (r1, d2)))"

section \<open>The handlers\<close>

definition axi_set_tck :: "u64 \<Rightarrow> u64" where
  "axi_set_tck nsperiod = nsperiod"

text \<open>The return value of xvc_axiioc is only printed when it is negative, which it never is.\<close>

definition axi_shift_tms_tdi :: "'d mmio \<Rightarrow> u64 \<Rightarrow> u8 list \<Rightarrow> nat \<Rightarrow> nat \<Rightarrow> u8 list \<Rightarrow> nat \<Rightarrow> 'd \<Rightarrow>
    (u8 list, 'd) outcome" where
  "axi_shift_tms_tdi dev bitcount buf tms tdi r tdo d =
     obind (xvc_axiioc dev \<lparr>opcode = 1, ioc_length = ucast bitcount, tms_buf = tms,
              tdi_buf = tdi, tdo_buf = tdo\<rparr> buf r d)
       (\<lambda>ret (r1, d1). Ok r1 d1)"

definition axi_handlers :: "'d mmio \<Rightarrow> 'd handlers" where
  "axi_handlers dev = \<lparr>set_tck = axi_set_tck, shift_tms_tdi = axi_shift_tms_tdi dev\<rparr>"

section \<open>What a shift computes\<close>

lemma bytes_of_bits_step: "0 < n \<Longrightarrow> (min 32 n + 7) div 8 + (n - min 32 n + 7) div 8 = (n + 7) div 8"
  for n :: nat
proof (cases "n \<le> 32")
  case False
  then obtain m where "n = 32 + m" by (metis le_Suc_ex nat_le_linear)
  moreover have "(39 + m) div 8 = 4 + (m + 7) div 8"
    using div_mult_self1 [of 8 "m + 7" 4] by (simp add: add.commute)
  ultimately show ?thesis by simp
qed (simp add: min_def)

text \<open>
  The shift as a function on the TMS and TDI bytes, four bytes at a time: the TDO bytes up
  to the first time-out, whether all bits were shifted, and the device.
\<close>

function axi_words :: "'d mmio \<Rightarrow> nat \<Rightarrow> u8 list \<Rightarrow> u8 list \<Rightarrow> 'd \<Rightarrow> u8 list \<times> bool \<times> 'd" where
  "axi_words dev n tms tdi d =
     (if n = 0 then ([], True, d)
      else
        let k = min 32 n; nb = (k + 7) div 8;
            d1 = (if n < 32 then axilite_write dev LENGTH_REG_OFFSET (of_nat k) d else d) in
        case xil_xvc_shift_bits dev (get_uint_le tms nb) (get_uint_le tdi nb) d1 of
          (None, d2) \<Rightarrow> ([], False, d2)
        | (Some tdo, d2) \<Rightarrow>
            (case axi_words dev (n - k) (drop nb tms) (drop nb tdi) d2 of
               (out, ok, d3) \<Rightarrow> (set_uint_le nb tdo @ out, ok, d3)))"
  by pat_completeness auto
termination by (relation "measure (\<lambda>(dev, n, tms, tdi, d). n)") auto

declare axi_words.simps [simp del]

lemma axi_words_length:
  "axi_words dev n tms tdi d = (out, ok, d') \<Longrightarrow>
     length out \<le> (n + 7) div 8 \<and> (ok \<longrightarrow> length out = (n + 7) div 8)"
proof (induction dev n tms tdi d arbitrary: out ok d' rule: axi_words.induct)
  case (1 dev n tms tdi d)
  show ?case
  proof (cases "n = 0")
    case True
    with 1(2) show ?thesis by (simp add: axi_words.simps)
  next
    case False
    let ?k = "min 32 n" and ?nb = "(min 32 n + 7) div 8"
    let ?d1 = "if n < 32 then axilite_write dev LENGTH_REG_OFFSET (of_nat ?k) d else d"
    have nb: "?nb + (n - ?k + 7) div 8 = (n + 7) div 8" using False bytes_of_bits_step by blast
    show ?thesis
    proof (cases "xil_xvc_shift_bits dev (get_uint_le tms ?nb) (get_uint_le tdi ?nb) ?d1")
      case (Pair res d2)
      show ?thesis
      proof (cases res)
        case None
        with 1(2) False Pair show ?thesis by (subst (asm) axi_words.simps) (simp add: Let_def)
      next
        case (Some tdo)
        obtain out2 ok2 d3 where rest:
          "axi_words dev (n - ?k) (drop ?nb tms) (drop ?nb tdi) d2 = (out2, ok2, d3)"
          by (cases "axi_words dev (n - ?k) (drop ?nb tms) (drop ?nb tdi) d2") auto
        from 1(1) [OF False refl refl refl _ _ this] Pair Some
        have "length out2 \<le> (n - ?k + 7) div 8 \<and> (ok2 \<longrightarrow> length out2 = (n - ?k + 7) div 8)"
          by simp
        moreover have "out = set_uint_le ?nb tdo @ out2 \<and> ok = ok2"
          using 1(2) False Pair Some rest by (subst (asm) axi_words.simps) (simp add: Let_def)
        ultimately show ?thesis using nb by auto
      qed
    qed
  qed
qed

text \<open>The bytes of the bits from \<open>c\<close> on: those of the next word and those of the rest.\<close>

lemma bits_left:
  fixes c n :: nat
  assumes "32 dvd c" and "c < n"
  shows "(min 32 (n - c) + 7) div 8 + (n - (c + min 32 (n - c)) + 7) div 8 = (n - c + 7) div 8"
    and "c div 8 + (n - c + 7) div 8 = (n + 7) div 8"
proof -
  show "(min 32 (n - c) + 7) div 8 + (n - (c + min 32 (n - c)) + 7) div 8 = (n - c + 7) div 8"
    unfolding diff_diff_left [symmetric] using assms(2) by (intro bytes_of_bits_step) simp
  obtain j where j: "c = 32 * j" using assms(1) by (elim dvdE)
  have "(n + 7) div 8 = (n - c + 7 + 8 * (4 * j)) div 8" using assms(2) j by simp
  also have "\<dots> = 4 * j + (n - c + 7) div 8" by (subst div_mult_self2) simp_all
  finally show "c div 8 + (n - c + 7) div 8 = (n + 7) div 8" by (simp add: j)
qed

text \<open>One turn of the loop of the code and of the function.\<close>

lemma axiioc_turn:
  assumes c: "32 dvd c" "c < n" and k: "k = min 32 (n - c)" and nb: "nb = (k + 7) div 8"
    and room: "tms_buf x + (n + 7) div 8 \<le> length buf" "tdi_buf x + (n + 7) div 8 \<le> length buf"
      "tdo_buf x + (n + 7) div 8 \<le> length r"
    and sh: "xil_xvc_shift_bits dev (get_uint_le (drop (tms_buf x + c div 8) buf) nb)
        (get_uint_le (drop (tdi_buf x + c div 8) buf) nb)
        (if n - c < 32 then axilite_write dev LENGTH_REG_OFFSET (of_nat k) d else d) = (res, d2)"
  shows "axiioc_loop dev x buf n c r d =
      (case res of None \<Rightarrow> Ok 1 (r, d2)
       | Some tdo \<Rightarrow> axiioc_loop dev x buf n (c + k) (patch (tdo_buf x + c div 8) (set_uint_le nb tdo) r) d2)"
    and "axi_words dev (n - c) (slice (tms_buf x + c div 8) ((n - c + 7) div 8) buf)
        (slice (tdi_buf x + c div 8) ((n - c + 7) div 8) buf) d =
      (case res of None \<Rightarrow> ([], False, d2)
       | Some tdo \<Rightarrow> (case axi_words dev (n - (c + k)) (slice (tms_buf x + c div 8 + nb) ((n - (c + k) + 7) div 8) buf)
             (slice (tdi_buf x + c div 8 + nb) ((n - (c + k) + 7) div 8) buf) d2 of
           (out, ok, d3) \<Rightarrow> (set_uint_le nb tdo @ out, ok, d3)))"
proof -
  note left = bits_left [OF c, folded k, folded nb]
  have fits: "\<not> (length buf < tms_buf x + c div 8 + nb \<or> length buf < tdi_buf x + c div 8 + nb)"
    "\<not> length r < tdo_buf x + c div 8 + nb"
    using left room by linarith+
  show "axiioc_loop dev x buf n c r d =
      (case res of None \<Rightarrow> Ok 1 (r, d2)
       | Some tdo \<Rightarrow> axiioc_loop dev x buf n (c + k) (patch (tdo_buf x + c div 8) (set_uint_le nb tdo) r) d2)"
    using c(2) sh fits by (simp add: axiioc_loop.simps [of dev x buf n c] Let_def k [symmetric] nb [symmetric] split: option.split)
  have wr: "get_uint_le (slice (off + c div 8) ((n - c + 7) div 8) buf) nb = get_uint_le (drop (off + c div 8) buf) nb"
    and dr: "drop nb (slice (off + c div 8) ((n - c + 7) div 8) buf) =
      slice (off + c div 8 + nb) ((n - (c + k) + 7) div 8) buf" for off
  proof -
    show "get_uint_le (slice (off + c div 8) ((n - c + 7) div 8) buf) nb = get_uint_le (drop (off + c div 8) buf) nb"
      unfolding slice_def by (rule get_uint_le_take) (use left in linarith)
    have "(n - (c + k) + 7) div 8 = (n - c + 7) div 8 - nb" using left by linarith
    then show "drop nb (slice (off + c div 8) ((n - c + 7) div 8) buf) =
        slice (off + c div 8 + nb) ((n - (c + k) + 7) div 8) buf"
      unfolding slice_def by (simp only: drop_take drop_drop add.commute)
  qed
  define T where "T = slice (tms_buf x + c div 8) ((n - c + 7) div 8) buf"
  define U where "U = slice (tdi_buf x + c div 8) ((n - c + 7) div 8) buf"
  note TU = wr [of "tms_buf x", folded T_def] wr [of "tdi_buf x", folded U_def]
    dr [of "tms_buf x", folded T_def] dr [of "tdi_buf x", folded U_def]
  show "axi_words dev (n - c) T U d =
      (case res of None \<Rightarrow> ([], False, d2)
       | Some tdo \<Rightarrow> (case axi_words dev (n - (c + k)) (slice (tms_buf x + c div 8 + nb) ((n - (c + k) + 7) div 8) buf)
             (slice (tdi_buf x + c div 8 + nb) ((n - (c + k) + 7) div 8) buf) d2 of
           (out, ok, d3) \<Rightarrow> (set_uint_le nb tdo @ out, ok, d3)))"
    using c(2) sh TU by (simp add: axi_words.simps [of dev "n - c"] Let_def k [symmetric] nb [symmetric] split: option.split)
qed

text \<open>The loop of the code, from a byte boundary, is this function on what is left.\<close>

lemma axiioc_loop_words:
  assumes "axi_words dev (n - c) (slice (tms_buf x + c div 8) ((n - c + 7) div 8) buf)
             (slice (tdi_buf x + c div 8) ((n - c + 7) div 8) buf) d = (out, ok, d')"
    and "32 dvd c \<or> c = n" and "c \<le> n"
    and "tms_buf x + (n + 7) div 8 \<le> length buf" and "tdi_buf x + (n + 7) div 8 \<le> length buf"
    and "tdo_buf x + (n + 7) div 8 \<le> length r"
  shows "axiioc_loop dev x buf n c r d =
           Ok (if ok then 0 else 1) (patch (tdo_buf x + c div 8) out r, d')"
  using assms
proof (induction "n - c" arbitrary: c r d out rule: less_induct)
  case less
  show ?case
  proof (cases "c < n")
    case False
    with less.prems(1,3) show ?thesis by (simp add: axiioc_loop.simps axi_words.simps)
  next
    case True
    define k where "k = min 32 (n - c)"
    define nb where "nb = (k + 7) div 8"
    from True less.prems(2) have c32: "32 dvd c" by auto
    then obtain j where j: "c = 32 * j" by (elim dvdE)
    note left = bits_left [OF c32 True, folded k_def, folded nb_def]
    obtain res d2 where sh: "xil_xvc_shift_bits dev (get_uint_le (drop (tms_buf x + c div 8) buf) nb)
        (get_uint_le (drop (tdi_buf x + c div 8) buf) nb)
        (if n - c < 32 then axilite_write dev LENGTH_REG_OFFSET (of_nat k) d else d) = (res, d2)"
      by fastforce
    note turn = axiioc_turn [OF c32 True k_def nb_def less.prems(4-6) sh]
    show ?thesis
    proof (cases res)
      case None
      with turn less.prems(1) show ?thesis by simp
    next
      case (Some tdo)
      obtain out2 where out2: "axi_words dev (n - (c + k)) (slice (tms_buf x + c div 8 + nb) ((n - (c + k) + 7) div 8) buf)
          (slice (tdi_buf x + c div 8 + nb) ((n - (c + k) + 7) div 8) buf) d2 = (out2, ok, d')"
        "out = set_uint_le nb tdo @ out2"
        using turn(2) less.prems(1) Some by (auto split: prod.splits)
      let ?r = "patch (tdo_buf x + c div 8) (set_uint_le nb tdo) r"
      have loop: "axiioc_loop dev x buf n c r d = axiioc_loop dev x buf n (c + k) ?r d2"
        using turn(1) Some by simp
      show ?thesis
      proof (cases "c + k = n")
        case True
        then show ?thesis using loop out2 by (simp add: axiioc_loop.simps axi_words.simps)
      next
        case False
        then have k: "k = 32" "nb = 4" "c + 32 < n" using True by (auto simp: k_def nb_def min_def split: if_splits)
        have fits: "tdo_buf x + c div 8 + nb \<le> length r" using left less.prems(6) by linarith
        have step: "(c + k) div 8 = c div 8 + nb" by (simp add: j k)
        have "axiioc_loop dev x buf n (c + k) ?r d2 =
            Ok (if ok then 0 else 1) (patch (tdo_buf x + (c + k) div 8) out2 ?r, d')"
        proof (rule less.hyps)
          show "axi_words dev (n - (c + k)) (slice (tms_buf x + (c + k) div 8) ((n - (c + k) + 7) div 8) buf)
             (slice (tdi_buf x + (c + k) div 8) ((n - (c + k) + 7) div 8) buf) d2 = (out2, ok, d')"
            using out2(1) by (simp add: step add.assoc)
          show "32 dvd c + k \<or> c + k = n" using c32 by (simp add: k)
          show "tdo_buf x + (n + 7) div 8 \<le> length ?r" using less.prems(6) fits by simp
        qed (use True less.prems(4,5) k in simp_all)
        moreover have "patch (tdo_buf x + (c + k) div 8) out2 ?r = patch (tdo_buf x + c div 8) out r"
        proof -
          have "length out2 \<le> (n - (c + k) + 7) div 8" using axi_words_length [OF out2(1)] by simp
          then have "tdo_buf x + c div 8 + length (set_uint_le nb tdo) + length out2 \<le> length r"
            using left less.prems(6) by (simp only: length_set_uint_le)
          from patch_append [OF this] show ?thesis by (simp add: out2(2) step add.assoc)
        qed
        ultimately show ?thesis using loop by simp
      qed
    qed
  qed
qed

end
