(* ===== verification/XvcProto.thy ===== *)
theory XvcProto
  imports Xvc
begin

text \<open>
  The protocol the server implements, as a specification: requests, their encoding, the
  reply to each, and what the parser of the receive buffer does with an encoded stream of
  which some part has arrived. What the server relies on in a JTAG handler is the locale
  \<open>xvc_handlers\<close>.
\<close>

section \<open>Requests and replies\<close>

datatype request = GetInfo | SetTck u32 | Shift u32 "u8 list" "u8 list"

fun enc :: "request \<Rightarrow> u8 list" where
  "enc GetInfo = bytes_of ''getinfo:''"
| "enc (SetTck n) = bytes_of ''settck:'' @ set_uint_le 4 n"
| "enc (Shift bits tms tdi) = bytes_of ''shift:'' @ set_uint_le 4 bits @ tms @ tdi"

definition vec_bytes :: "u32 \<Rightarrow> nat" where
  "vec_bytes bits = (unat bits + 7) div 8"

fun wf_request :: "request \<Rightarrow> bool" where
  "wf_request GetInfo = True"
| "wf_request (SetTck n) = True"
| "wf_request (Shift bits tms tdi) =
     (length tms = vec_bytes bits \<and> length tdi = vec_bytes bits \<and> 10 + 2 * vec_bytes bits \<le> 10000)"

fun reply_of :: "(u64 \<Rightarrow> u64) \<Rightarrow> (u32 \<Rightarrow> u8 list \<Rightarrow> u8 list \<Rightarrow> 'd \<Rightarrow> u8 list \<times> 'd) \<Rightarrow> request \<Rightarrow> 'd \<Rightarrow>
    u8 list \<times> 'd" where
  "reply_of tck sf GetInfo d = (bytes_of ''xvcServer_v1.0:10000'' @ [10], d)"
| "reply_of tck sf (SetTck n) d = (set_uint_le 4 (ucast (tck (ucast n))), d)"
| "reply_of tck sf (Shift bits tms tdi) d = sf bits tms tdi d"

fun replies_of :: "(u64 \<Rightarrow> u64) \<Rightarrow> (u32 \<Rightarrow> u8 list \<Rightarrow> u8 list \<Rightarrow> 'd \<Rightarrow> u8 list \<times> 'd) \<Rightarrow> request list \<Rightarrow>
    'd \<Rightarrow> u8 list \<times> 'd" where
  "replies_of tck sf [] d = ([], d)"
| "replies_of tck sf (r # rs) d =
     (case reply_of tck sf r d of (out, d1) \<Rightarrow>
        (case replies_of tck sf rs d1 of (outs, d2) \<Rightarrow> (out @ outs, d2)))"

section \<open>Integers\<close>

lemma get_set_uint_le: "get_uint_le (set_uint_le 4 v) 4 = v"
proof -
  have "get_uint_le (set_uint_le 4 v) 4 =
     push_bit 8 (push_bit 8 (push_bit 8 (ucast (ucast (drop_bit 24 v) :: u8)) OR
       ucast (ucast (drop_bit 16 v) :: u8)) OR ucast (ucast (drop_bit 8 v) :: u8)) OR
       ucast (ucast v :: u8)"
    by (simp add: get_uint_le_def numeral_eq_Suc)
  also have "\<dots> = v"
  proof (rule bit_word_eqI)
    fix n assume "n < LENGTH(32)"
    then consider "n < 8" | "8 \<le> n" "n < 16" | "16 \<le> n" "n < 24" | "24 \<le> n" "n < 32"
      by fastforce
    then show "bit (push_bit 8 (push_bit 8 (push_bit 8 (ucast (ucast (drop_bit 24 v) :: u8) :: u32) OR
       ucast (ucast (drop_bit 16 v) :: u8)) OR ucast (ucast (drop_bit 8 v) :: u8)) OR
       ucast (ucast v :: u8)) n = bit v n"
      by cases (auto simp: bit_simps)
  qed
  finally show ?thesis .
qed

lemma word_div_8: "unat ((b + 7) div 8) = (unat b + 7) div 8" if "unat b + 7 < 2 ^ 32" for b :: u32
  using that by (simp add: unat_div unat_add_lem [THEN iffD1])

section \<open>The window of the parser\<close>

definition window :: "nat \<Rightarrow> 'd xvc \<Rightarrow> u8 list" where
  "window p x = drop p (take (unat (x_len x)) (x_buf x))"

lemma length_window [simp]:
  "unat (x_len x) \<le> length (x_buf x) \<Longrightarrow> length (window p x) = unat (x_len x) - p"
  by (simp add: window_def)

lemma slice_window:
  "p + i + n \<le> unat (x_len x) \<Longrightarrow> slice (p + i) n (x_buf x) = slice i n (window p x)"
  by (simp add: window_def slice_def drop_take add.commute)

lemma slice_take: "i + n \<le> m \<Longrightarrow> slice i n (take m z) = slice i n z"
  by (simp add: slice_def drop_take)

lemma slice_append: "slice (length a) (length b) (a @ b @ c) = b"
  by (simp add: slice_def)

lemma length_shift_name: "length (bytes_of ''shift:'') = 6"
  by (simp add: bytes_of_def)

lemma scan_colon_eq:
  assumes "p \<le> e" and "e \<le> length buf"
  shows "scan_colon buf p e = Some (p + length (takeWhile (\<lambda>b. b \<noteq> 58) (slice p (e - p) buf)))"
  using assms
proof (induction buf p e rule: scan_colon.induct)
  case (1 buf p e)
  show ?case
  proof (cases "p < e")
    case True
    then have "slice p (e - p) buf = buf ! p # slice (p + 1) (e - (p + 1)) buf"
      using 1(3) by (simp add: slice_def Cons_nth_drop_Suc [symmetric] Suc_diff_Suc [symmetric])
    then show ?thesis using True 1 by (simp add: scan_colon.simps [of buf p e])
  next
    case False
    then show ?thesis using 1(2,3) by (simp add: scan_colon.simps slice_def)
  qed
qed

lemma takeWhile_take_name:
  "c \<notin> set nm \<Longrightarrow> takeWhile (\<lambda>b. b \<noteq> c) (take m (nm @ c # ys)) = take m nm"
  by (induction nm arbitrary: m) (auto simp: take_Cons split: nat.splits)

lemma prefix_of_append: "w @ u = z \<Longrightarrow> w = take (length w) z"
  by auto

text \<open>The first step of a turn, on a window that starts with (a part of) a command's name.\<close>

lemma parse_turn_name:
  assumes "unat (x_len x) \<le> length (x_buf x)" and "cbuf \<le> unat (x_len x)"
    and "window cbuf x @ u = nm @ 58 # ys" and "58 \<notin> set nm" and "length nm < 30"
  shows "length (window cbuf x) \<le> length nm \<Longrightarrow> parse_turn h cbuf x = Ok TFill x"
    and "length nm < length (window cbuf x) \<Longrightarrow> parse_turn h cbuf x =
      (let p = cbuf + length nm + 1; name = nm @ [58] in
       if name = bytes_of ''getinfo:'' then do_getinfo p x
       else if name = bytes_of ''shift:'' then do_shift h cbuf p x
       else if name = bytes_of ''settck:'' then do_settck h p x
       else Ok TError x)"
proof -
  let ?w = "window cbuf x" and ?cend = "unat (x_len x)"
  define e where "e = (if cbuf + 30 < ?cend then cbuf + 30 else ?cend)"
  have e: "cbuf \<le> e" "e \<le> length (x_buf x)" "e - cbuf = min 30 (length ?w)"
    using assms(1,2) by (auto simp: e_def)
  have w: "?w = take (length ?w) (nm @ 58 # ys)" using assms(3) by (rule prefix_of_append)
  have "slice cbuf (e - cbuf) (x_buf x) = take (e - cbuf) ?w"
    using slice_window [of cbuf 0 "e - cbuf" x] e assms(1,2) by (simp add: slice_def)
  also have "\<dots> = take (min 30 (length ?w)) (nm @ 58 # ys)"
    by (subst w) (simp only: e(3) take_take min.assoc min.idem)
  finally have "takeWhile (\<lambda>b. b \<noteq> 58) (slice cbuf (e - cbuf) (x_buf x)) =
      take (min 30 (length ?w)) nm"
    by (simp only: takeWhile_take_name [OF assms(4)])
  with scan_colon_eq [OF e(1,2)] have scan: "scan_colon (x_buf x) cbuf e =
      Some (cbuf + min (min 30 (length ?w)) (length nm))"
    by (simp add: min.commute)
  show "parse_turn h cbuf x = Ok TFill x" if "length ?w \<le> length nm"
  proof -
    have "e \<le> cbuf + length ?w" and "\<not> 30 \<le> length ?w" using that e(1,3) assms(5) by linarith+
    moreover have "scan_colon (x_buf x) cbuf e = Some (cbuf + length ?w)"
      using that assms(5) by (simp add: scan)
    ultimately show ?thesis by (simp add: parse_turn_def e_def [symmetric])
  qed
  show "parse_turn h cbuf x =
      (let p = cbuf + length nm + 1; name = nm @ [58] in
       if name = bytes_of ''getinfo:'' then do_getinfo p x
       else if name = bytes_of ''shift:'' then do_shift h cbuf p x
       else if name = bytes_of ''settck:'' then do_settck h p x
       else Ok TError x)" if "length nm < length ?w"
  proof -
    have "slice cbuf (length nm + 1) (x_buf x) = take (length nm + 1) ?w"
      using slice_window [of cbuf 0 "length nm + 1" x] that assms(1) by (simp add: slice_def)
    also have "\<dots> = nm @ [58]" by (subst w) (use that in \<open>simp add: take_Suc_conv_app_nth\<close>)
    finally have name: "slice cbuf (Suc (length nm)) (x_buf x) = nm @ [58]" by simp
    have min: "min (min 30 (length ?w)) (length nm) = length nm" using that assms(5) by simp
    have lt: "\<not> e \<le> cbuf + length nm" using that e(1,3) assms(5) by linarith
    show ?thesis
      unfolding parse_turn_def e_def [symmetric] scan min Let_def using lt name by simp
  qed
qed

text \<open>The same for the three commands of the protocol.\<close>

lemma parse_turn_word:
  assumes "unat (x_len x) \<le> length (x_buf x)" and "cbuf \<le> unat (x_len x)"
    and "window cbuf x @ u = nm @ 58 # ys" and "length nm = k" and "k < 30" and "58 \<notin> set nm"
    and "(let p = cbuf + k + 1; name = nm @ [58] in
       if name = bytes_of ''getinfo:'' then do_getinfo p x
       else if name = bytes_of ''shift:'' then do_shift h cbuf p x
       else if name = bytes_of ''settck:'' then do_settck h p x
       else Ok TError x) = y"
    and "k + 1 = k'"
  shows "parse_turn h cbuf x = (if length (window cbuf x) < k' then Ok TFill x else y)"
  using parse_turn_name [OF assms(1-3,6), where h = h] assms(4,5,7,8)
  by (cases "length (window cbuf x) < k'") auto

lemma parse_turn_commands:
  assumes "unat (x_len x) \<le> length (x_buf x)" and "cbuf \<le> unat (x_len x)"
  shows "window cbuf x @ u = enc GetInfo @ rest \<Longrightarrow> parse_turn h cbuf x =
           (if length (window cbuf x) < 8 then Ok TFill x else do_getinfo (cbuf + 8) x)"
    and "window cbuf x @ u = enc (SetTck n) @ rest \<Longrightarrow> parse_turn h cbuf x =
           (if length (window cbuf x) < 7 then Ok TFill x else do_settck h (cbuf + 7) x)"
    and "window cbuf x @ u = enc (Shift bits tms tdi) @ rest \<Longrightarrow> parse_turn h cbuf x =
           (if length (window cbuf x) < 6 then Ok TFill x else do_shift h cbuf (cbuf + 6) x)"
proof -
  show "parse_turn h cbuf x =
      (if length (window cbuf x) < 8 then Ok TFill x else do_getinfo (cbuf + 8) x)"
    if "window cbuf x @ u = enc GetInfo @ rest"
  proof (rule parse_turn_word [OF assms, of u "bytes_of ''getinfo''" "rest" 7])
    show "window cbuf x @ u = bytes_of ''getinfo'' @ 58 # rest"
      using that by (simp add: bytes_of_def)
  qed (simp_all add: bytes_of_def, (simp only: add.commute)?)
  show "parse_turn h cbuf x =
      (if length (window cbuf x) < 7 then Ok TFill x else do_settck h (cbuf + 7) x)"
    if "window cbuf x @ u = enc (SetTck n) @ rest"
  proof (rule parse_turn_word [OF assms, of u "bytes_of ''settck''" "set_uint_le 4 n @ rest" 6])
    show "window cbuf x @ u = bytes_of ''settck'' @ 58 # set_uint_le 4 n @ rest"
      using that by (simp add: bytes_of_def)
  qed (simp_all add: bytes_of_def, (simp only: add.commute)?)
  show "parse_turn h cbuf x =
      (if length (window cbuf x) < 6 then Ok TFill x else do_shift h cbuf (cbuf + 6) x)"
    if "window cbuf x @ u = enc (Shift bits tms tdi) @ rest"
  proof (rule parse_turn_word [OF assms, of u "bytes_of ''shift''" "set_uint_le 4 bits @ tms @ tdi @ rest" 5])
    show "window cbuf x @ u = bytes_of ''shift'' @ 58 # set_uint_le 4 bits @ tms @ tdi @ rest"
      using that by (simp add: bytes_of_def)
  qed (simp_all add: bytes_of_def, (simp only: add.commute)?)
qed

lemma length_enc [simp]:
  "length (enc GetInfo) = 8" "length (enc (SetTck n)) = 11"
  "length (enc (Shift bits tms tdi)) = 10 + length tms + length tdi"
  by (simp_all add: bytes_of_def)

section \<open>Executing a request\<close>

text \<open>\<open>y\<close> is \<open>x\<close> after a reply was appended and the device went to state \<open>d\<close>.\<close>

definition served :: "'d xvc \<Rightarrow> u8 list \<Rightarrow> 'd \<Rightarrow> 'd xvc \<Rightarrow> bool" where
  "served x out d y \<longleftrightarrow>
     x_buf y = x_buf x \<and> x_len y = x_len x \<and> x_pending y = x_pending x \<and> x_sent y = x_sent x \<and>
     x_dev y = d \<and> x_rlen y = x_rlen x + length out \<and> length (x_reply y) = length (x_reply x) \<and>
     take (x_rlen y) (x_reply y) = take (x_rlen x) (x_reply x) @ out"

lemma served_refl: "served x [] (x_dev x) x"
  by (simp add: served_def)

lemma served_trans: "served x a d y \<Longrightarrow> served y b d' z \<Longrightarrow> served x (a @ b) d' z"
  by (auto simp: served_def)

lemma served_window: "served x out d y \<Longrightarrow> window p y = window p x"
  by (simp add: served_def window_def)

lemma take_patch:
  "off + length ys \<le> length xs \<Longrightarrow> take (off + length ys) (patch off ys xs) = take off xs @ ys"
  by (simp add: patch_def)

lemma take_patch_more:
  assumes "off + length ys + length zs \<le> length xs"
  shows "take (off + length ys) (patch off (ys @ zs) xs) = take off xs @ ys"
  using assms by (simp add: patch_def)

lemma server_info_10000: "server_info 10000 = bytes_of ''xvcServer_v1.0:10000'' @ [10]"
  by (simp add: server_info_def XVC_VERSION_def decimal.simps bytes_of_def)

lemma do_getinfo_served:
  assumes "length (x_buf x) = 10000" and "x_rlen x + 22 \<le> length (x_reply x)"
  shows "\<exists>y. do_getinfo p x = Ok (TNext p) y \<and>
           served x (bytes_of ''xvcServer_v1.0:10000'' @ [10]) (x_dev x) y"
proof -
  define msg where "msg = bytes_of ''xvcServer_v1.0:10000'' @ [10]"
  have len: "length msg = 21" by (simp add: msg_def bytes_of_def)
  then have "do_getinfo p x = Ok (TNext p)
      (x\<lparr>x_reply := patch (x_rlen x) (msg @ [0]) (x_reply x), x_rlen := x_rlen x + length msg\<rparr>)"
    using assms by (simp add: do_getinfo_def server_info_10000 msg_def [symmetric] store_reply_def)
  moreover have "served x msg (x_dev x)
      (x\<lparr>x_reply := patch (x_rlen x) (msg @ [0]) (x_reply x), x_rlen := x_rlen x + length msg\<rparr>)"
    using assms len take_patch_more [of "x_rlen x" msg "[0]" "x_reply x"]
    by (simp add: served_def)
  ultimately show ?thesis by (auto simp: msg_def)
qed

lemma do_settck_served:
  assumes "unat (x_len x) \<le> length (x_buf x)" and "\<not> x_pending x"
    and "x_rlen x + 4 \<le> length (x_reply x)" and "p + 4 \<le> unat (x_len x)"
    and "slice p 4 (x_buf x) = set_uint_le 4 n"
  shows "\<exists>y. do_settck h p x = Ok (TNext (p + 4)) y \<and>
           served x (set_uint_le 4 (ucast (set_tck h (ucast n)))) (x_dev x) y"
proof -
  let ?out = "set_uint_le 4 (ucast (set_tck h (ucast n))) :: u8 list"
  have "get_uint_le (drop p (x_buf x)) 4 = n"
    using assms(5) get_set_uint_le [of n] get_uint_le_take [of 4 4 "drop p (x_buf x)"]
    by (simp add: slice_def)
  then have "do_settck h p x = Ok (TNext (p + 4))
      (x\<lparr>x_reply := patch (x_rlen x) ?out (x_reply x), x_rlen := x_rlen x + 4\<rparr>)"
    using assms(1-4) by (simp add: do_settck_def store_reply_def Let_def)
  moreover have "served x ?out (x_dev x)
      (x\<lparr>x_reply := patch (x_rlen x) ?out (x_reply x), x_rlen := x_rlen x + 4\<rparr>)"
    using assms(3) take_patch [of "x_rlen x" ?out "x_reply x"] by (simp add: served_def)
  ultimately show ?thesis by blast
qed

text \<open>The buffer at the start of a window that is a prefix of the bytes \<open>e @ rest\<close>.\<close>

lemma window_slice:
  assumes "length (x_buf x) = 10000" and "unat (x_len x) \<le> 10000" and "cbuf \<le> unat (x_len x)"
    and "window cbuf x @ u = e @ rest" and "i + n \<le> length (window cbuf x)"
  shows "slice (cbuf + i) n (x_buf x) = slice i n (e @ rest)"
proof -
  let ?W = "window cbuf x"
  have W: "?W = take (length ?W) (e @ rest)" using assms(4) by (rule prefix_of_append)
  have "length ?W = unat (x_len x) - cbuf" using assms(1,2) by simp
  then have "slice (cbuf + i) n (x_buf x) = slice i n ?W"
    using assms(3,5) by (intro slice_window) linarith
  also have "\<dots> = slice i n (take (length ?W) (e @ rest))" by (subst W) simp
  also have "\<dots> = slice i n (e @ rest)" using assms(5) by (rule slice_take)
  finally show ?thesis .
qed

text \<open>
  A turn on a window that starts with the bytes \<open>e\<close> of a request, or with a part of them: it
  executes the request when it has arrived completely and asks for more otherwise.
\<close>

definition turn_on :: "'d handlers \<Rightarrow> nat \<Rightarrow> 'd xvc \<Rightarrow> u8 list \<Rightarrow> u8 list \<Rightarrow> 'd \<Rightarrow> bool" where
  "turn_on h cbuf x e out d' \<longleftrightarrow>
    (length (window cbuf x) < length e \<longrightarrow> parse_turn h cbuf x = Ok TFill x) \<and>
    (length e \<le> length (window cbuf x) \<longrightarrow>
       (\<exists>y. parse_turn h cbuf x = Ok (TNext (cbuf + length e)) y \<and> served x out d' y))"

section \<open>The interface to the JTAG handlers\<close>

text \<open>
  What the server relies on: on a device that is \<open>ready\<close>, a shift reads the TMS and TDI bytes
  it was given and nothing else, writes exactly \<open>(bits + 7) / 8\<close> bytes of TDO at the offset it
  was given, and leaves the device ready.
\<close>

locale xvc_handlers =
  fixes h :: "'d handlers"
    and sf :: "u32 \<Rightarrow> u8 list \<Rightarrow> u8 list \<Rightarrow> 'd \<Rightarrow> u8 list \<times> 'd"
    and ready :: "'d \<Rightarrow> bool"
  assumes shift_eq:
    "ready d \<Longrightarrow> unat bits + 7 < 2 ^ 32 \<Longrightarrow>
     tms + vec_bytes bits \<le> length buf \<Longrightarrow> tdi + vec_bytes bits \<le> length buf \<Longrightarrow>
     tdo + vec_bytes bits \<le> length r \<Longrightarrow>
     sf bits (slice tms (vec_bytes bits) buf) (slice tdi (vec_bytes bits) buf) d = (out, d') \<Longrightarrow>
     shift_tms_tdi h (ucast bits) buf tms tdi r tdo d = Ok (patch tdo out r) d'"
    and shift_length:
    "ready d \<Longrightarrow> sf bits a b d = (out, d') \<Longrightarrow> length out = vec_bytes bits"
    and shift_ready:
    "ready d \<Longrightarrow> sf bits a b d = (out, d') \<Longrightarrow> ready d'"
begin

lemma reply_ready: "ready d \<Longrightarrow> reply_of (set_tck h) sf r d = (out, d') \<Longrightarrow> ready d'"
  by (cases r) (auto dest: shift_ready)

lemma reply_length:
  assumes "ready d" and "wf_request r" and "reply_of (set_tck h) sf r d = (out, d')"
  shows "length out \<le> length (enc r) + (if r = GetInfo then 13 else 0)"
  using assms by (cases r) (auto simp: bytes_of_def dest: shift_length)

lemma do_shift_served:
  assumes "unat (x_len x) \<le> length (x_buf x)" and "\<not> x_pending x"
    and "unat bits + 7 < 2 ^ 32" and "ready (x_dev x)"
    and "x_rlen x + vec_bytes bits \<le> length (x_reply x)"
    and "p + 4 + 2 * vec_bytes bits \<le> unat (x_len x)"
    and "slice p 4 (x_buf x) = set_uint_le 4 bits"
    and "sf bits (slice (p + 4) (vec_bytes bits) (x_buf x))
           (slice (p + 4 + vec_bytes bits) (vec_bytes bits) (x_buf x)) (x_dev x) = (out, d')"
  shows "\<exists>y. do_shift h cbuf p x = Ok (TNext (p + 4 + 2 * vec_bytes bits)) y \<and> served x out d' y"
proof -
  have bits: "get_uint_le (drop p (x_buf x)) 4 = bits"
    using assms(7) get_set_uint_le [of bits] get_uint_le_take [of 4 4 "drop p (x_buf x)"]
    by (simp add: slice_def)
  have vb: "unat ((bits + 7) div 8) = vec_bytes bits"
    using assms(3) by (simp add: word_div_8 vec_bytes_def)
  have out: "length out = vec_bytes bits" using assms(4,8) by (rule shift_length)
  have "shift_tms_tdi h (ucast bits) (x_buf x) (p + 4) (p + 4 + vec_bytes bits) (x_reply x)
      (x_rlen x) (x_dev x) = Ok (patch (x_rlen x) out (x_reply x)) d'"
    by (rule shift_eq [OF assms(4,3) _ _ assms(5,8)]) (use assms(1,6) in linarith)+
  then have "do_shift h cbuf p x = Ok (TNext (p + 4 + 2 * vec_bytes bits))
      (x\<lparr>x_reply := patch (x_rlen x) out (x_reply x), x_dev := d',
         x_rlen := x_rlen x + vec_bytes bits\<rparr>)"
    using assms(1,2,6) by (simp add: do_shift_def bits vb Let_def mult.commute)
  moreover have "served x out d'
      (x\<lparr>x_reply := patch (x_rlen x) out (x_reply x), x_dev := d',
         x_rlen := x_rlen x + vec_bytes bits\<rparr>)"
    using assms(5) out take_patch [of "x_rlen x" out "x_reply x"] by (simp add: served_def)
  ultimately show ?thesis by blast
qed

lemma turn_getinfo:
  assumes "length (x_buf x) = 10000" and "unat (x_len x) \<le> 10000" and "cbuf \<le> unat (x_len x)"
    and "window cbuf x @ u = enc GetInfo @ rest"
    and "8 \<le> length (window cbuf x) \<Longrightarrow> x_rlen x + 22 \<le> length (x_reply x)"
  shows "turn_on h cbuf x (enc GetInfo) (bytes_of ''xvcServer_v1.0:10000'' @ [10]) (x_dev x)"
proof -
  have "unat (x_len x) \<le> length (x_buf x)" using assms(1,2) by simp
  note turn = parse_turn_commands(1) [OF this assms(3,4), where h = h]
  show ?thesis
  proof (cases "length (window cbuf x) < 8")
    case True
    then show ?thesis using turn by (simp add: turn_on_def del: enc.simps)
  next
    case False
    with do_getinfo_served [OF assms(1), of "cbuf + 8"] assms(5) turn show ?thesis
      by (simp add: turn_on_def del: enc.simps)
  qed
qed

lemma turn_settck:
  assumes "length (x_buf x) = 10000" and "unat (x_len x) \<le> 10000" and "cbuf \<le> unat (x_len x)"
    and "\<not> x_pending x" and w: "window cbuf x @ u = enc (SetTck n) @ rest"
    and "11 \<le> length (window cbuf x) \<Longrightarrow> x_rlen x + 4 \<le> length (x_reply x)"
  shows "turn_on h cbuf x (enc (SetTck n)) (set_uint_le 4 (ucast (set_tck h (ucast n)))) (x_dev x)"
proof -
  have xlen: "unat (x_len x) \<le> length (x_buf x)" using assms(1,2) by simp
  note turn = parse_turn_commands(2) [OF xlen assms(3) w, where h = h]
  have lenW: "length (window cbuf x) = unat (x_len x) - cbuf" using xlen by simp
  show ?thesis
  proof (cases "length (window cbuf x) < 11")
    case True
    then have "unat (x_len x) < cbuf + 7 + 4" using lenW assms(3) by linarith
    then have "do_settck h (cbuf + 7) x = Ok TFill x" by (simp add: do_settck_def Let_def)
    then show ?thesis using turn True by (auto simp: turn_on_def simp del: enc.simps)
  next
    case False
    have "slice (cbuf + 7) 4 (x_buf x) = set_uint_le 4 n"
      using window_slice [OF assms(1-3) w, of 7 4] False by (simp add: slice_def bytes_of_def)
    then show ?thesis
      using do_settck_served [OF xlen assms(4), of "cbuf + 7" n h] assms(6) turn False lenW assms(3)
      by (auto simp: turn_on_def add.commute simp del: enc.simps)
  qed
qed

text \<open>A shift whose vectors have not all arrived asks for more; so does one without its number of bits.\<close>

lemma do_shift_waits:
  assumes "length (x_buf x) = 10000" and "unat (x_len x) \<le> 10000" and "cbuf + 10 \<le> unat (x_len x)"
    and "10 + 2 * vec_bytes bits \<le> 10000" and "unat (x_len x) < cbuf + 10 + 2 * vec_bytes bits"
    and "slice (cbuf + 6) 4 (x_buf x) = set_uint_le 4 bits"
  shows "do_shift h cbuf (cbuf + 6) x = Ok TFill x"
proof -
  have "get_uint_le (drop (cbuf + 6) (x_buf x)) 4 = bits"
    using assms(6) get_set_uint_le [of bits] get_uint_le_take [of 4 4 "drop (cbuf + 6) (x_buf x)"]
    by (simp add: slice_def)
  moreover have "unat ((bits + 7) div 8) = vec_bytes bits"
    using assms(4) by (simp add: word_div_8 vec_bytes_def)
  moreover have "\<not> unat (x_len x) < cbuf + 6 + 4" "\<not> length (x_buf x) < cbuf + 6 + 4"
    "unat (x_len x) < cbuf + 6 + 4 + vec_bytes bits * 2"
    "cbuf + 6 + 4 + vec_bytes bits * 2 - cbuf \<le> length (x_buf x)"
    using assms(1-5) by linarith+
  ultimately show ?thesis unfolding do_shift_def Let_def by simp
qed

lemma turn_shift:
  assumes "length (x_buf x) = 10000" and "unat (x_len x) \<le> 10000" and "cbuf \<le> unat (x_len x)"
    and "\<not> x_pending x" and "ready (x_dev x)" and wf: "wf_request (Shift bits tms tdi)"
    and w: "window cbuf x @ u = enc (Shift bits tms tdi) @ rest"
    and sf: "sf bits tms tdi (x_dev x) = (out, d')"
    and room: "10 + 2 * vec_bytes bits \<le> length (window cbuf x) \<Longrightarrow> x_rlen x + length out \<le> length (x_reply x)"
  shows "turn_on h cbuf x (enc (Shift bits tms tdi)) out d'"
proof -
  let ?W = "window cbuf x" and ?nb = "vec_bytes"
  have xlen: "unat (x_len x) \<le> length (x_buf x)" using assms(1,2) by simp
  note turn = parse_turn_commands(3) [OF xlen assms(3) w, where h = h]
  note sl = window_slice [OF assms(1-3) w]
  have lenW: "length ?W = unat (x_len x) - cbuf" using xlen by simp
  have len: "length tms = ?nb bits" "length tdi = ?nb bits" "10 + 2 * ?nb bits \<le> 10000" using wf by auto
  have bits: "slice (cbuf + 6) 4 (x_buf x) = set_uint_le 4 bits" if "10 \<le> length ?W"
    using sl [of 6 4] that by (simp add: slice_def bytes_of_def)
  consider "length ?W < 10" | "10 \<le> length ?W" "length ?W < 10 + 2 * ?nb bits" | "10 + 2 * ?nb bits \<le> length ?W"
    by linarith
  then show ?thesis
  proof cases
    case 1
    then have "unat (x_len x) < cbuf + 6 + 4" using lenW assms(3) by linarith
    then have "do_shift h cbuf (cbuf + 6) x = Ok TFill x" by (simp add: do_shift_def Let_def)
    then show ?thesis using turn 1 by (auto simp: turn_on_def simp del: enc.simps)
  next
    case 2
    then have "do_shift h cbuf (cbuf + 6) x = Ok TFill x"
      using lenW by (intro do_shift_waits [OF assms(1,2) _ len(3) _ bits]) linarith+
    then show ?thesis using turn 2 len by (auto simp: turn_on_def simp del: enc.simps)
  next
    case 3
    have "slice (cbuf + 6 + 4) (?nb bits) (x_buf x) = tms"
      using sl [of 10 "?nb bits"] 3 len by (simp add: slice_def bytes_of_def add.assoc)
    moreover have "slice (cbuf + 6 + 4 + ?nb bits) (?nb bits) (x_buf x) = tdi"
      using sl [of "10 + ?nb bits" "?nb bits"] 3 len
        slice_append [of "bytes_of ''shift:'' @ set_uint_le 4 bits @ tms" tdi rest]
      by (simp add: add.assoc length_shift_name)
    moreover have "unat bits + 7 < 2 ^ 32" using len(3) by (simp add: vec_bytes_def)
    moreover have "x_rlen x + ?nb bits \<le> length (x_reply x)"
      using room [OF 3] shift_length [OF assms(5) sf] by simp
    ultimately have "\<exists>y. do_shift h cbuf (cbuf + 6) x =
        Ok (TNext (cbuf + 6 + 4 + 2 * ?nb bits)) y \<and> served x out d' y"
      using 3 lenW assms(3) sf by (intro do_shift_served [OF xlen assms(4) _ assms(5) _ _ bits]) auto
    then show ?thesis using turn 3 len by (auto simp: turn_on_def simp del: enc.simps)
  qed
qed

lemma parse_turn_request:
  assumes "length (x_buf x) = 10000" and "unat (x_len x) \<le> 10000" and "cbuf \<le> unat (x_len x)"
    and "\<not> x_pending x" and "ready (x_dev x)" and "wf_request r"
    and "window cbuf x @ u = enc r @ rest"
    and "reply_of (set_tck h) sf r (x_dev x) = (out, d')"
    and "length (enc r) \<le> length (window cbuf x) \<Longrightarrow> x_rlen x + length out + 1 \<le> length (x_reply x)"
  shows "turn_on h cbuf x (enc r) out d'"
proof (cases r)
  case GetInfo
  have out: "out = bytes_of ''xvcServer_v1.0:10000'' @ [10]" "d' = x_dev x"
    using assms(8) GetInfo by auto
  show ?thesis
    unfolding GetInfo out
  proof (rule turn_getinfo [OF assms(1-3) assms(7) [unfolded GetInfo]])
    show "x_rlen x + 22 \<le> length (x_reply x)" if "8 \<le> length (window cbuf x)"
      using assms(9) that by (simp add: out GetInfo bytes_of_def)
  qed
next
  case (SetTck n)
  have out: "out = set_uint_le 4 (ucast (set_tck h (ucast n)))" "d' = x_dev x"
    using assms(8) SetTck by auto
  show ?thesis
    unfolding SetTck out
  proof (rule turn_settck [OF assms(1-4) assms(7) [unfolded SetTck]])
    show "x_rlen x + 4 \<le> length (x_reply x)" if "11 \<le> length (window cbuf x)"
      using assms(9) that by (simp add: out SetTck bytes_of_def)
  qed
next
  case (Shift bits tms tdi)
  have sf: "sf bits tms tdi (x_dev x) = (out, d')" using assms(8) Shift by simp
  show ?thesis
    unfolding Shift
  proof (rule turn_shift [OF assms(1-5) _ assms(7) [unfolded Shift] sf])
    show "wf_request (Shift bits tms tdi)" using assms(6) Shift by simp
    then show "x_rlen x + length out \<le> length (x_reply x)" if "10 + 2 * vec_bytes bits \<le> length (window cbuf x)"
      using assms(9) that by (simp add: Shift bytes_of_def)
  qed
qed

end

end
