(* ===== verification/XvcStream.thy ===== *)
theory XvcStream
  imports XvcProto
begin

text \<open>
  The connection loop against the protocol: whatever way the network cuts the stream of
  requests into packets, the server executes the requests in order, each once, and sends
  exactly their replies.
\<close>

definition encs :: "request list \<Rightarrow> u8 list" where
  "encs rs = concat (map enc rs)"

lemma encs_Nil [simp]: "encs [] = []"
  and encs_Cons [simp]: "encs (r # rs) = enc r @ encs rs"
  by (simp_all add: encs_def)

text \<open>
  The number of getinfo requests among those that are complete in the first \<open>n\<close> bytes of a
  stream. A client is paced when no 10000 bytes of its stream have more than 490 of them, so
  that the replies to one full receive buffer fit the reply buffer.
\<close>

fun getinfos :: "nat \<Rightarrow> request list \<Rightarrow> nat" where
  "getinfos n [] = 0"
| "getinfos n (r # rs) =
     (if length (enc r) \<le> n then (if r = GetInfo then 1 else 0) + getinfos (n - length (enc r)) rs else 0)"

fun paced :: "request list \<Rightarrow> bool" where
  "paced [] = True"
| "paced (r # rs) = (getinfos 10000 (r # rs) \<le> 490 \<and> paced rs)"

lemma getinfos_mono: "n \<le> m \<Longrightarrow> getinfos n rs \<le> getinfos m rs"
  by (induction rs arbitrary: n m) auto

lemma paced_drop: "paced rs \<Longrightarrow> paced (drop k rs)"
  by (induction rs arbitrary: k) (auto simp: drop_Cons split: nat.splits)

lemma paced_window: "paced rs \<Longrightarrow> n \<le> 10000 \<Longrightarrow> getinfos n rs \<le> 490"
  using getinfos_mono [of n 10000 rs] by (cases rs) (auto simp del: getinfos.simps(2))

lemma replies_of_append:
  assumes "replies_of tck sf rs d = (a, d1)" and "replies_of tck sf rs' d1 = (b, d2)"
  shows "replies_of tck sf (rs @ rs') d = (a @ b, d2)"
  using assms by (induction rs arbitrary: d a) (auto split: prod.splits)

text \<open>A connection in good order: the buffers have their sizes and no error is pending.\<close>

definition sound :: "'d xvc \<Rightarrow> bool" where
  "sound x \<longleftrightarrow> length (x_buf x) = 10000 \<and> unat (x_len x) \<le> 10000 \<and> \<not> x_pending x \<and>
     length (x_reply x) = 16384"

lemma window_empty: "window (unat (x_len x)) x = []"
  by (simp add: window_def)

lemma parse_turn_empty:
  assumes "sound x"
  shows "parse_turn h (unat (x_len x)) x = Ok TFill x"
  by (simp add: parse_turn_def scan_colon.simps Let_def)

lemma send_reply_ok:
  assumes "sound x" and "q \<le> unat (x_len x)" and "x_rlen x \<le> length (x_reply x)"
    and "q = 0 \<Longrightarrow> x_rlen x = 0"
  shows "\<exists>z. send_reply (\<lambda>_. True) q x = Ok True z \<and> sound z \<and> window 0 z = window q x \<and>
           x_dev z = x_dev x \<and> unat (x_len z) = unat (x_len x) - q \<and>
           concat (x_sent z) = concat (x_sent x) @ take (x_rlen x) (x_reply x)"
proof (cases "0 < q")
  case False
  then show ?thesis using assms by (auto simp: send_reply_def)
next
  case True
  let ?n = "x_len x - of_nat q"
  have q: "unat (of_nat q :: u32) = q"
    using assms(2) unat_lt_u32 [of "x_len x"] by (simp add: unat_of_nat_u32)
  have n: "unat ?n = unat (x_len x) - q"
    using assms(2) q by (simp add: unat_sub word_le_nat_alt)
  have fits: "q + unat ?n \<le> length (x_buf x)" using assms(1,2) n by (simp add: sound_def)
  let ?z = "x\<lparr>x_sent := x_sent x @ [take (x_rlen x) (x_reply x)], x_len := ?n,
     x_buf := patch 0 (slice q (unat ?n) (x_buf x)) (x_buf x)\<rparr>"
  have "send_reply (\<lambda>_. True) q x = Ok True ?z"
    using True assms(2,3) fits by (simp add: send_reply_def consume_packet_def Let_def)
  moreover have "window 0 ?z = window q x"
    using fits n assms(1,2)
    by (auto simp: window_def patch_def slice_def drop_take sound_def min_def)
  moreover have "sound ?z"
    using assms(1) fits n by (simp add: sound_def length_slice)
  ultimately show ?thesis using n by (intro exI [of _ ?z]) simp
qed

text \<open>Receiving into a buffer that has room extends the window by what arrived.\<close>

lemma recv_data:
  assumes "sound x" and "unat (x_len x) < 10000" and "bs \<noteq> []"
  shows "\<exists>new rest len. new \<noteq> [] \<and> new @ rest = bs \<and>
    recv (unat (of_nat (length (x_buf x)) - x_len x)) (Data bs # es) =
      (len, new, if rest = [] then es else Data rest # es) \<and> 0 < len \<and>
    unat (x_len x) + length new \<le> length (x_buf x) \<and>
    sound (x\<lparr>x_buf := patch (unat (x_len x)) new (x_buf x), x_len := x_len x + len\<rparr>) \<and>
    window 0 (x\<lparr>x_buf := patch (unat (x_len x)) new (x_buf x), x_len := x_len x + len\<rparr>) =
      window 0 x @ new"
proof -
  define n where "n = 10000 - unat (x_len x)"
  have room: "unat (of_nat (length (x_buf x)) - x_len x) = n"
    using assms(1,2) by (simp add: n_def sound_def unat_sub word_le_nat_alt)
  have n: "0 < n" "n + unat (x_len x) = 10000" using assms(2) by (auto simp: n_def)
  let ?new = "take n bs"
  define k where "k = min n (length bs)"
  have k: "0 < k" "k \<le> n" "length ?new = k" using n assms(3) by (auto simp: k_def)
  have kw: "unat (of_nat k :: u32) = k" using k n by (simp add: unat_of_nat_u32)
  have len: "unat (x_len x + of_nat k) = unat (x_len x) + k"
    using k n kw unat_add_lem [of "x_len x" "of_nat k"] by simp
  have buf: "length (x_buf x) = 10000" using assms(1) by (simp add: sound_def)
  have fits: "unat (x_len x) + length ?new \<le> length (x_buf x)" using k n buf by simp
  let ?y = "x\<lparr>x_buf := patch (unat (x_len x)) ?new (x_buf x), x_len := x_len x + of_nat k\<rparr>"
  have "sound ?y" using assms(1) fits len k n by (simp add: sound_def)
  moreover have "window 0 ?y = window 0 x @ ?new"
    using take_patch [OF fits] len k by (simp add: window_def)
  moreover have "0 < (of_nat k :: u32)" using k kw by (simp add: word_less_nat_alt)
  ultimately show ?thesis
    unfolding room using fits k n
    by (intro exI [of _ ?new] exI [of _ "drop n bs"] exI [of _ "of_nat k"])
       (auto simp: recv_def k_def)
qed

text \<open>
  The parsing loop has executed the first \<open>k\<close> requests of those that the window starts with, and
  stopped at \<open>q\<close> because the next one is not complete.
\<close>

definition loop_ran :: "'d handlers \<Rightarrow> (u32 \<Rightarrow> u8 list \<Rightarrow> u8 list \<Rightarrow> 'd \<Rightarrow> u8 list \<times> 'd) \<Rightarrow> nat \<Rightarrow> 'd xvc \<Rightarrow>
    request list \<Rightarrow> u8 list \<Rightarrow> nat \<Rightarrow> nat \<Rightarrow> 'd xvc \<Rightarrow> bool" where
  "loop_ran h sf cbuf x rs u k q y \<longleftrightarrow>
     parse_loop h cbuf x = Ok (Some (q, True)) y \<and> k \<le> length rs \<and> q \<le> unat (x_len x) \<and>
     served x (fst (replies_of (set_tck h) sf (take k rs) (x_dev x)))
       (snd (replies_of (set_tck h) sf (take k rs) (x_dev x))) y \<and>
     window q y @ u = encs (drop k rs) \<and> x_rlen y \<le> q + 6370 \<and>
     (drop k rs \<noteq> [] \<longrightarrow> length (window q y) < length (enc (hd (drop k rs))))"

lemma loop_ran_step:
  assumes "parse_turn h cbuf x = Ok (TNext p) y" and "served x out d' y"
    and "reply_of (set_tck h) sf r (x_dev x) = (out, d')" and "loop_ran h sf p y rs u k q z"
  shows "loop_ran h sf cbuf x (r # rs) u (Suc k) q z"
proof -
  have y: "x_dev y = d'" "x_len y = x_len x" using assms(2) by (simp_all add: served_def)
  have "served x (fst (replies_of (set_tck h) sf (take (Suc k) (r # rs)) (x_dev x)))
      (snd (replies_of (set_tck h) sf (take (Suc k) (r # rs)) (x_dev x))) z"
    using served_trans [OF assms(2)] assms(3,4) y(1) by (simp add: loop_ran_def split_beta)
  then show ?thesis
    using assms(1,4) y(2) by (simp add: loop_ran_def parse_loop.simps [of h cbuf])
qed

context xvc_handlers
begin

text \<open>The parsing loop executes the complete requests of the window and stops at the first
  incomplete one.\<close>

lemma parse_loop_requests:
  assumes "sound x" and "cbuf \<le> unat (x_len x)" and "ready (x_dev x)"
    and "\<forall>r \<in> set rs. wf_request r" and "window cbuf x @ u = encs rs"
    and "x_rlen x + 13 * getinfos (unat (x_len x) - cbuf) rs \<le> cbuf + 6370"
  shows "\<exists>k q y. loop_ran h sf cbuf x rs u k q y \<and> ready (x_dev y)"
  using assms
proof (induction rs arbitrary: cbuf x)
  case Nil
  have "cbuf = unat (x_len x)"
    using Nil(1,2,5) by (auto simp: sound_def window_def)
  then have "parse_turn h cbuf x = Ok TFill x" using Nil(1) by (simp add: parse_turn_empty)
  then have "parse_loop h cbuf x = Ok (Some (cbuf, True)) x" by (simp add: parse_loop.simps)
  then show ?case using Nil by (auto simp: loop_ran_def served_refl)
next
  case (Cons r rs)
  obtain out d' where rep: "reply_of (set_tck h) sf r (x_dev x) = (out, d')" by fastforce
  have W: "window cbuf x @ u = enc r @ encs rs" using Cons.prems(5) by simp
  have lenW: "length (window cbuf x) = unat (x_len x) - cbuf"
    using Cons.prems(1) by (simp add: sound_def)
  have wf: "wf_request r" using Cons.prems(4) by simp
  have out: "length out \<le> length (enc r) + (if r = GetInfo then 13 else 0)"
    by (rule reply_length [OF Cons.prems(3) wf rep])
  have "turn_on h cbuf x (enc r) out d'"
  proof (rule parse_turn_request [OF _ _ Cons.prems(2) _ Cons.prems(3) wf W rep])
    show "x_rlen x + length out + 1 \<le> length (x_reply x)" if "length (enc r) \<le> length (window cbuf x)"
      using that out Cons.prems(1,6) lenW Cons.prems(2) by (auto simp: sound_def split: if_splits)
  qed (use Cons.prems(1) in \<open>simp_all add: sound_def\<close>)
  note turn = this [unfolded turn_on_def]
  show ?case
  proof (cases "length (window cbuf x) < length (enc r)")
    case True
    then have "parse_loop h cbuf x = Ok (Some (cbuf, True)) x" using turn by (simp add: parse_loop.simps)
    then show ?thesis using Cons.prems True
      by (intro exI [of _ 0] exI [of _ cbuf] exI [of _ x]) (auto simp: loop_ran_def served_refl)
  next
    case False
    let ?q = "cbuf + length (enc r)"
    from False turn obtain y where y: "parse_turn h cbuf x = Ok (TNext ?q) y" "served x out d' y" by auto
    have "window ?q y = drop (length (enc r)) (window cbuf x)"
      using y(2) by (simp add: served_def window_def add.commute)
    moreover have "drop (length (enc r)) (window cbuf x @ u) = encs rs" by (subst W) simp
    ultimately have W2: "window ?q y @ u = encs rs" using False by simp
    have "\<exists>k q z. loop_ran h sf ?q y rs u k q z \<and> ready (x_dev z)"
    proof (rule Cons.IH [OF _ _ _ _ W2])
      show "sound y" using Cons.prems(1) y(2) by (simp add: sound_def served_def)
      show "?q \<le> unat (x_len y)"
        using False lenW Cons.prems(2) y(2) by (simp add: served_def)
      show "ready (x_dev y)" using reply_ready [OF Cons.prems(3) rep] y(2) by (simp add: served_def)
      show "\<forall>r \<in> set rs. wf_request r" using Cons.prems(4) by simp
      show "x_rlen y + 13 * getinfos (unat (x_len y) - ?q) rs \<le> ?q + 6370"
        using Cons.prems(6) out y(2) False lenW by (auto simp: served_def split: if_splits)
    qed
    then show ?thesis using loop_ran_step [OF y rep] by blast
  qed
qed

lemma replies_split:
  "replies_of (set_tck h) sf rs d =
     (case replies_of (set_tck h) sf (take k rs) d of (a, d1) \<Rightarrow>
        (case replies_of (set_tck h) sf (drop k rs) d1 of (b, d2) \<Rightarrow> (a @ b, d2)))"
proof -
  obtain a d1 where a: "replies_of (set_tck h) sf (take k rs) d = (a, d1)" by fastforce
  obtain b d2 where b: "replies_of (set_tck h) sf (drop k rs) d1 = (b, d2)" by fastforce
  from replies_of_append [OF a b] show ?thesis by (simp add: a b)
qed

lemma reply_empty: "encs (take k rs) = [] \<Longrightarrow> take k rs = []"
  by (cases "take k rs") (auto simp: bytes_of_def elim: enc.elims)

text \<open>One round of the connection loop: parse, reply, drop what was executed.\<close>

lemma round_ok:
  assumes "sound x" and "ready (x_dev x)" and "\<forall>r \<in> set rs. wf_request r"
    and "window 0 x @ u = encs rs" and "paced rs"
  obtains k q y z where "parse_loop h 0 (x\<lparr>x_rlen := 0\<rparr>) = Ok (Some (q, True)) y"
    and "send_reply (\<lambda>_. True) q y = Ok True z" and "sound z" and "ready (x_dev z)"
    and "k \<le> length rs" and "window 0 z @ u = encs (drop k rs)"
    and "concat (x_sent z) = concat (x_sent x) @ fst (replies_of (set_tck h) sf (take k rs) (x_dev x))"
    and "x_dev z = snd (replies_of (set_tck h) sf (take k rs) (x_dev x))"
    and "drop k rs \<noteq> [] \<longrightarrow> length (window 0 z) < length (enc (hd (drop k rs)))"
proof -
  let ?x = "x\<lparr>x_rlen := 0\<rparr>"
  have W: "window 0 ?x = window 0 x" by (simp add: window_def)
  have sx: "sound ?x" using assms(1) by (simp add: sound_def)
  have "\<exists>k q y. loop_ran h sf 0 ?x rs u k q y \<and> ready (x_dev y)"
    by (rule parse_loop_requests [OF sx]) (use assms paced_window [OF assms(5)] in \<open>simp_all add: W sound_def\<close>)
  then obtain k q y where ran: "loop_ran h sf 0 ?x rs u k q y" "ready (x_dev y)" by blast
  note p0 = ran(1) [unfolded loop_ran_def]
  have p: "parse_loop h 0 ?x = Ok (Some (q, True)) y" "k \<le> length rs" "q \<le> unat (x_len x)"
    "served ?x (fst (replies_of (set_tck h) sf (take k rs) (x_dev x)))
       (snd (replies_of (set_tck h) sf (take k rs) (x_dev x))) y"
    "window q y @ u = encs (drop k rs)" "x_rlen y \<le> q + 6370" "ready (x_dev y)"
    "drop k rs \<noteq> [] \<longrightarrow> length (window q y) < length (enc (hd (drop k rs)))"
    using p0 ran(2) by simp_all
  have sy: "sound y" using sx p(4) by (simp add: sound_def served_def)
  have qy: "q \<le> unat (x_len y)" using p(3,4) by (simp add: served_def)
  have ry: "take (x_rlen y) (x_reply y) = fst (replies_of (set_tck h) sf (take k rs) (x_dev x))"
    "x_rlen y = length (fst (replies_of (set_tck h) sf (take k rs) (x_dev x)))"
    "x_sent y = x_sent x"
    "x_dev y = snd (replies_of (set_tck h) sf (take k rs) (x_dev x))"
    using p(4) by (auto simp: served_def)
  have "x_rlen y = 0" if "q = 0"
  proof -
    have "window q y = window 0 x" using that p(4) by (simp add: served_def window_def)
    then have "encs (drop k rs) = encs rs" using p(5) assms(4) by simp
    moreover have "encs rs = encs (take k rs) @ encs (drop k rs)"
      by (simp add: encs_def flip: concat_append map_append)
    ultimately have "take k rs = []" by (intro reply_empty) simp
    then show ?thesis using ry(2) by auto
  qed
  moreover have "x_rlen y \<le> length (x_reply y)"
    using p(6) qy sy by (simp add: sound_def)
  ultimately obtain z where z: "send_reply (\<lambda>_. True) q y = Ok True z" "sound z"
    "window 0 z = window q y" "x_dev z = x_dev y"
    "concat (x_sent z) = concat (x_sent y) @ take (x_rlen y) (x_reply y)"
    using send_reply_ok [OF sy qy] by blast
  have "window 0 z @ u = encs (drop k rs)" using p(5) z(3) by simp
  moreover have "drop k rs \<noteq> [] \<longrightarrow> length (window 0 z) < length (enc (hd (drop k rs)))"
    using p(8) by (simp only: z(3))
  ultimately show ?thesis
    using p(7) ry z(4,5) by (intro that [OF p(1) z(1,2) _ p(2)]) simp_all
qed

lemma enc_bounded: "wf_request r \<Longrightarrow> length (enc r) \<le> 10000"
  by (cases r) (auto simp: bytes_of_def)

text \<open>After a round there is room for more bytes as long as some are to come.\<close>

lemma round_room:
  assumes "sound z" and "window 0 z @ concat bss = encs rs" and "\<forall>r \<in> set rs. wf_request r"
    and "rs \<noteq> [] \<longrightarrow> length (window 0 z) < length (enc (hd rs))" and "concat bss \<noteq> []"
  shows "unat (x_len z) < 10000"
proof -
  have "rs \<noteq> []" using assms(2,5) by auto
  moreover from this have "length (enc (hd rs)) \<le> 10000" using assms(3) enc_bounded by simp
  ultimately show ?thesis using assms(1,4) by (simp add: sound_def)
qed

lemma round_all_done:
  assumes "window 0 z = encs rs" and "rs \<noteq> [] \<longrightarrow> length (window 0 z) < length (enc (hd rs))"
  shows "rs = []"
proof (cases rs)
  case (Cons r rs')
  with assms show ?thesis by auto
qed

text \<open>A round that is followed by a packet: the part of it that fits is received.\<close>

lemma round_recv:
  assumes "parse_loop h 0 (x\<lparr>x_rlen := 0\<rparr>) = Ok (Some (q, True)) y" and "send_reply (\<lambda>_. True) q y = Ok True z"
    and "sound z" and "unat (x_len z) < 10000" and "bs \<noteq> []" and "\<forall>b \<in> set bss. b \<noteq> []"
  obtains new bss2 z' where "new \<noteq> []" and "bs @ concat bss = new @ concat bss2" and "\<forall>b \<in> set bss2. b \<noteq> []"
    and "read_more (\<lambda>_. True) h (map Data (bs # bss) @ es) x = read_more (\<lambda>_. True) h (map Data bss2 @ es) z'"
    and "sound z'" and "window 0 z' = window 0 z @ new" and "x_dev z' = x_dev z" and "x_sent z' = x_sent z"
proof -
  from recv_data [OF assms(3-5), of "map Data bss @ es"] obtain new rest len where
    d: "new \<noteq> []" "new @ rest = bs"
    "recv (unat (of_nat (length (x_buf z)) - x_len z)) (map Data (bs # bss) @ es) =
      (len, new, if rest = [] then map Data bss @ es else Data rest # map Data bss @ es)"
    "0 < len" "unat (x_len z) + length new \<le> length (x_buf z)"
    "sound (z\<lparr>x_buf := patch (unat (x_len z)) new (x_buf z), x_len := x_len z + len\<rparr>)"
    "window 0 (z\<lparr>x_buf := patch (unat (x_len z)) new (x_buf z), x_len := x_len z + len\<rparr>) =
      window 0 z @ new"
    by auto
  let ?z = "z\<lparr>x_buf := patch (unat (x_len z)) new (x_buf z), x_len := x_len z + len\<rparr>"
  let ?bss = "if rest = [] then bss else rest # bss"
  have "(if rest = [] then map Data bss @ es else Data rest # map Data bss @ es) = map Data ?bss @ es" by simp
  then have "read_more (\<lambda>_. True) h (map Data (bs # bss) @ es) x = read_more (\<lambda>_. True) h (map Data ?bss @ es) ?z"
    using assms(1,2) d(1,3,4,5) by (simp add: read_more.simps [of _ h "Data bs # map Data bss @ es" x])
  moreover have "bs @ concat bss = new @ concat ?bss" using d(2) by auto
  ultimately show ?thesis using d(1,6,7) assms(6) by (intro that [of new ?bss ?z]) auto
qed

text \<open>The whole connection.\<close>

lemma read_more_stream:
  assumes "sound x" and "ready (x_dev x)" and "\<forall>r \<in> set rs. wf_request r"
    and "window 0 x @ concat bss = encs rs" and "paced rs"
    and "\<forall>bs \<in> set bss. bs \<noteq> []" and "es = [] \<or> hd es = PeerClosed"
  shows "\<exists>y. read_more (\<lambda>_. True) h (map Data bss @ es) x = Ok ConnClosed y \<and>
     concat (x_sent y) = concat (x_sent x) @ fst (replies_of (set_tck h) sf rs (x_dev x)) \<and>
     x_dev y = snd (replies_of (set_tck h) sf rs (x_dev x)) \<and> x_len y = 0 \<and> sound y"
  using assms
proof (induction "length (concat bss)" arbitrary: bss rs x rule: less_induct)
  case less
  obtain k q y z where r: "parse_loop h 0 (x\<lparr>x_rlen := 0\<rparr>) = Ok (Some (q, True)) y"
    "send_reply (\<lambda>_. True) q y = Ok True z" "sound z" "ready (x_dev z)"
    "k \<le> length rs" "window 0 z @ concat bss = encs (drop k rs)"
    "concat (x_sent z) = concat (x_sent x) @ fst (replies_of (set_tck h) sf (take k rs) (x_dev x))"
    "x_dev z = snd (replies_of (set_tck h) sf (take k rs) (x_dev x))"
    "drop k rs \<noteq> [] \<longrightarrow> length (window 0 z) < length (enc (hd (drop k rs)))"
    by (rule round_ok [OF less.prems(1-5)])
  have zlen: "length (window 0 z) = unat (x_len z)" using r(3) by (simp add: sound_def)
  show ?case
  proof (cases bss)
    case Nil
    have "drop k rs = []" by (rule round_all_done) (use r(6,9) Nil in auto)
    then have "take k rs = rs" and "window 0 z = []" using r(5,6) Nil by auto
    moreover have "read_more (\<lambda>_. True) h (map Data bss @ es) x = Ok ConnClosed z"
      using r(1,2) Nil less.prems(7)
      by (cases es) (simp_all add: read_more.simps [of _ h _ x] recv_def)
    ultimately show ?thesis using r(3,7,8) zlen by (auto simp: unat_eq_0)
  next
    case (Cons bs bss')
    have bs: "bs \<noteq> []" using less.prems(6) Cons by simp
    have wf: "\<forall>r \<in> set (drop k rs). wf_request r" using less.prems(3) by (auto dest: in_set_dropD)
    have "unat (x_len z) < 10000" by (rule round_room [OF r(3,6) wf r(9)]) (use bs Cons in simp)
    from round_recv [OF r(1,2,3) this bs, of bss' es] less.prems(6) Cons obtain new bss2 w where
      w: "new \<noteq> []" "concat bss = new @ concat bss2" "\<forall>b \<in> set bss2. b \<noteq> []"
      "read_more (\<lambda>_. True) h (map Data bss @ es) x = read_more (\<lambda>_. True) h (map Data bss2 @ es) w"
      "sound w" "window 0 w = window 0 z @ new" "x_dev w = x_dev z" "x_sent w = x_sent z" by auto
    have "\<exists>y. read_more (\<lambda>_. True) h (map Data bss2 @ es) w = Ok ConnClosed y \<and>
       concat (x_sent y) = concat (x_sent w) @ fst (replies_of (set_tck h) sf (drop k rs) (x_dev w)) \<and>
       x_dev y = snd (replies_of (set_tck h) sf (drop k rs) (x_dev w)) \<and> x_len y = 0 \<and> sound y"
    proof (rule less.hyps)
      show "length (concat bss2) < length (concat bss)" using w(1,2) by simp
      show "window 0 w @ concat bss2 = encs (drop k rs)" using r(6) w(2,6) by simp
      show "paced (drop k rs)" using less.prems(5) by (rule paced_drop)
    qed (use r(4) w(3,5,7) wf less.prems(7) in simp_all)
    then show ?thesis
      using w(4,7,8) r(7,8) replies_split [of rs "x_dev x" k] by (auto simp: split_beta)
  qed
qed

end

end
