(* ===== verification/XvcBridge.thy ===== *)
theory XvcBridge
  imports XvcAxi XvcStream
begin

text \<open>
  The AXI handlers provide what the server relies on, when the debug bridge is responsive:
  the interpretation of \<open>xvc_handlers\<close> on the model of xvc_server2axi.c and xvc_axi2pl.cpp.
\<close>

section \<open>Responsive bridges\<close>

text \<open>
  The states of a bridge that register accesses lead to. A bridge is responsive when, in all
  of them, it ends a shift within the 100 polls of its control register.
\<close>

inductive dev_reach :: "'d mmio \<Rightarrow> 'd \<Rightarrow> 'd \<Rightarrow> bool" for dev d where
  here: "dev_reach dev d d"
| after_read: "dev_reach dev d d1 \<Longrightarrow> dev_reach dev d (snd (axilite_read dev off d1))"
| after_write: "dev_reach dev d d1 \<Longrightarrow> dev_reach dev d (axilite_write dev off v d1)"

definition responsive :: "'d mmio \<Rightarrow> 'd \<Rightarrow> bool" where
  "responsive dev d \<longleftrightarrow>
     (\<forall>d'. dev_reach dev d d' \<longrightarrow> (\<forall>tms tdi. fst (xil_xvc_shift_bits dev tms tdi d') \<noteq> None))"

lemma dev_reach_trans: "dev_reach dev d1 d2 \<Longrightarrow> dev_reach dev d d1 \<Longrightarrow> dev_reach dev d d2"
  by (induction rule: dev_reach.induct) (auto intro: dev_reach.intros)

lemma responsive_reach: "responsive dev d \<Longrightarrow> dev_reach dev d d' \<Longrightarrow> responsive dev d'"
  by (auto simp: responsive_def intro: dev_reach_trans)

lemma poll_reach: "dev_reach dev d (snd (poll_control dev n d))"
proof (induction n arbitrary: d)
  case 0
  show ?case by (simp add: here)
next
  case (Suc n)
  have "dev_reach dev d (snd (axilite_read dev CONTROL_REG_OFFSET d))"
    by (rule after_read [OF here])
  with Suc show ?case by (auto simp: split_beta intro: dev_reach_trans)
qed

lemma shift_bits_reach: "dev_reach dev d (snd (xil_xvc_shift_bits dev tms tdi d))"
proof -
  have w: "dev_reach dev d (axilite_write dev CONTROL_REG_OFFSET 1
      (axilite_write dev TDI_REG_OFFSET tdi (axilite_write dev TMS_REG_OFFSET tms d)))"
    by (intro after_write here)
  show ?thesis
    using dev_reach_trans [OF poll_reach w]
    by (auto simp: xil_xvc_shift_bits_def Let_def split_beta intro: after_read)
qed

lemma axi_words_reach: "dev_reach dev d (snd (snd (axi_words dev n tms tdi d)))"
proof (induction dev n tms tdi d rule: axi_words.induct)
  case (1 dev n tms tdi d)
  show ?case
  proof (cases "n = 0")
    case True
    then show ?thesis by (simp add: axi_words.simps here)
  next
    case False
    let ?k = "min 32 n"
    let ?nb = "(?k + 7) div 8"
    let ?d1 = "if n < 32 then axilite_write dev LENGTH_REG_OFFSET (of_nat ?k) d else d"
    obtain res d2 where sh:
      "xil_xvc_shift_bits dev (get_uint_le tms ?nb) (get_uint_le tdi ?nb) ?d1 = (res, d2)"
      by fastforce
    have "dev_reach dev d ?d1" by (simp add: here after_write)
    with shift_bits_reach [of dev ?d1 "get_uint_le tms ?nb" "get_uint_le tdi ?nb"]
    have d2: "dev_reach dev d d2" unfolding sh by (auto intro: dev_reach_trans)
    show ?thesis
    proof (cases res)
      case None
      then show ?thesis using False sh d2 by (simp add: axi_words.simps [of dev n] Let_def)
    next
      case (Some tdo)
      from 1 [OF False refl refl refl sh [symmetric] this] d2 show ?thesis
        using False sh Some
        by (auto simp: axi_words.simps [of dev n] Let_def split_beta intro: dev_reach_trans)
    qed
  qed
qed

lemma axi_words_done:
  "responsive dev d \<Longrightarrow> fst (snd (axi_words dev n tms tdi d))"
proof (induction dev n tms tdi d rule: axi_words.induct)
  case (1 dev n tms tdi d)
  show ?case
  proof (cases "n = 0")
    case True
    then show ?thesis by (simp add: axi_words.simps)
  next
    case False
    let ?k = "min 32 n"
    let ?nb = "(?k + 7) div 8"
    let ?d1 = "if n < 32 then axilite_write dev LENGTH_REG_OFFSET (of_nat ?k) d else d"
    obtain res d2 where sh:
      "xil_xvc_shift_bits dev (get_uint_le tms ?nb) (get_uint_le tdi ?nb) ?d1 = (res, d2)"
      by fastforce
    have d1: "dev_reach dev d ?d1" by (simp add: here after_write)
    with shift_bits_reach [of dev ?d1 "get_uint_le tms ?nb" "get_uint_le tdi ?nb"]
    have d2: "dev_reach dev d d2" unfolding sh by (auto intro: dev_reach_trans)
    from 1(2) d1 sh obtain tdo where res: "res = Some tdo"
      unfolding responsive_def by (metis fst_conv not_None_eq)
    from 1(1) [OF False refl refl refl sh [symmetric] res] responsive_reach [OF 1(2) d2]
    show ?thesis
      using False sh res by (auto simp: axi_words.simps [of dev n] Let_def split_beta)
  qed
qed

section \<open>The interface\<close>

definition axi_sf :: "'d mmio \<Rightarrow> u32 \<Rightarrow> u8 list \<Rightarrow> u8 list \<Rightarrow> 'd \<Rightarrow> u8 list \<times> 'd" where
  "axi_sf dev bits tms tdi d =
     (case axi_words dev (unat bits) tms tdi
        (if 32 \<le> bits then axilite_write dev LENGTH_REG_OFFSET 0x20 d else d) of
        (out, ok, d') \<Rightarrow> (out, d'))"

text \<open>Whatever the bridge does, a shift writes the TDO bytes of \<open>axi_sf\<close> and nothing else.\<close>

lemma axi_shift_eq:
  assumes "tms + vec_bytes bits \<le> length buf" and "tdi + vec_bytes bits \<le> length buf"
    and "tdo + vec_bytes bits \<le> length r"
    and "axi_sf dev bits (slice tms (vec_bytes bits) buf) (slice tdi (vec_bytes bits) buf) d = (out, d')"
  shows "axi_shift_tms_tdi dev (ucast bits) buf tms tdi r tdo d = Ok (patch tdo out r) d'"
proof -
  let ?o = "\<lparr>opcode = 1, ioc_length = bits, tms_buf = tms, tdi_buf = tdi, tdo_buf = tdo\<rparr>"
  let ?d = "if 32 \<le> bits then axilite_write dev LENGTH_REG_OFFSET 0x20 d else d"
  obtain ok where w: "axi_words dev (unat bits) (slice tms (vec_bytes bits) buf)
      (slice tdi (vec_bytes bits) buf) ?d = (out, ok, d')"
    using assms(4) by (auto simp: axi_sf_def split: prod.splits)
  have "axiioc_loop dev ?o buf (unat bits) 0 r ?d =
      Ok (if ok then 0 else 1) (patch (tdo_buf ?o + 0 div 8) out r, d')"
    by (rule axiioc_loop_words) (use w assms(1-3) in \<open>simp_all add: vec_bytes_def\<close>)
  moreover have "(ucast (ucast bits :: u64) :: u32) = bits"
    by (rule bit_word_eqI) (simp add: bit_simps)
  ultimately show ?thesis
    by (simp add: axi_shift_tms_tdi_def xvc_axiioc_def Let_def)
qed

lemma axi_sf_ready:
  assumes "responsive dev d" and "axi_sf dev bits a b d = (out, d')"
  shows "length out = vec_bytes bits" and "responsive dev d'"
proof -
  let ?d = "if 32 \<le> bits then axilite_write dev LENGTH_REG_OFFSET 0x20 d else d"
  have "dev_reach dev d ?d" by (simp add: here after_write)
  then have rd1: "responsive dev ?d" using assms(1) by (rule responsive_reach [rotated])
  obtain ok where w: "axi_words dev (unat bits) a b ?d = (out, ok, d')"
    using assms(2) by (auto simp: axi_sf_def split: prod.splits)
  show "length out = vec_bytes bits"
    using axi_words_length [OF w] axi_words_done [OF rd1, of "unat bits" a b] w
    by (simp add: vec_bytes_def)
  have "dev_reach dev ?d d'" using axi_words_reach [of dev ?d "unat bits" a b] w by simp
  then show "responsive dev d'" using rd1 by (rule responsive_reach [rotated])
qed

interpretation axi: xvc_handlers "axi_handlers dev" "axi_sf dev" "responsive dev" for dev
  by unfold_locales (auto simp: axi_handlers_def axi_shift_eq axi_sf_ready)

end
