(* ===== verification/Axiregs.thy ===== *)
theory Axiregs
  imports Prelude
begin

text \<open>
  The axiregs driver, drivers/mpsoc_axiregs/mpsoc_axiregs.c: the character device through
  which user programs map the registers of the programmable logic, and the interface
  \<open>reg_map\<close> its clients (poke, dpoke, the XVC server) rely on.
\<close>

section \<open>The files of the device\<close>

record axireg_priv =
  ap_num_pages :: nat
  ap_page_ptr :: "kptr option"

text \<open>
  \<open>ar_files\<close> are the \<open>private_data\<close> of the open files, \<open>ar_privs\<close> the allocated structs by
  address, \<open>ar_registered\<close> whether the misc device is registered.
\<close>

record axireg_state =
  ar_files :: "nat \<rightharpoonup> kptr"
  ar_privs :: "kptr \<rightharpoonup> axireg_priv"
  ar_registered :: bool

definition mpsoc_axireg_open :: "kptr option \<Rightarrow> nat \<Rightarrow> axireg_state \<Rightarrow> rc \<times> axireg_state" where
  "mpsoc_axireg_open alloc f s =
     (case alloc of
        None \<Rightarrow> (Inl ENOMEM, s)
      | Some a \<Rightarrow>
          (Inr (), s\<lparr>ar_privs := (ar_privs s)(a \<mapsto> \<lparr>ap_num_pages = 0, ap_page_ptr = None\<rparr>),
                     ar_files := (ar_files s)(f \<mapsto> a)\<rparr>))"

text \<open>
  Nothing in the driver allocates pages, so \<open>page_ptr\<close> is never set: freeing a page through it
  would be a null dereference.
\<close>

definition mpsoc_axireg_release :: "nat \<Rightarrow> axireg_state \<Rightarrow> (rc, axireg_state) outcome" where
  "mpsoc_axireg_release f s =
     (case ar_files s f of
        None \<Rightarrow> Fault NullDeref
      | Some a \<Rightarrow>
          (case ar_privs s a of
             None \<Rightarrow> Fault UseAfterFree
           | Some priv \<Rightarrow>
               if 0 < ap_num_pages priv \<and> ap_page_ptr priv = None then Fault NullDeref
               else Ok (Inr ()) (s\<lparr>ar_privs := (ar_privs s)(a := None)\<rparr>)))"

definition mpsoc_axireg_module_init :: "axireg_state \<Rightarrow> rc \<times> axireg_state" where
  "mpsoc_axireg_module_init s = (Inr (), s\<lparr>ar_registered := True\<rparr>)"

definition mpsoc_axireg_module_exit :: "axireg_state \<Rightarrow> axireg_state" where
  "mpsoc_axireg_module_exit s = s\<lparr>ar_registered := False\<rparr>"

section \<open>Mapping the registers\<close>

record vm_area =
  vm_start :: u64
  vm_end :: u64
  vm_pgoff :: u64
  vm_flags :: u64
  vm_noncached :: bool

definition VMEM_FLAGS :: u64 where
  "VMEM_FLAGS = 0x4000 OR 0x40000 OR 0x4000000"

text \<open>What io_remap_pfn_range establishes: pages from \<open>map_pfn\<close> on appear at \<open>map_va\<close>.\<close>

record mapping =
  map_va :: u64
  map_pfn :: u64
  map_size :: u64

definition mpsoc_axireg_mmap :: "bool \<Rightarrow> vm_area \<Rightarrow> (errno + mapping) \<times> vm_area" where
  "mpsoc_axireg_mmap remap_ok vma =
     (let off = push_bit PAGE_SHIFT (vm_pgoff vma);
          phys = 0xA0000000 + off;
          vsize = vm_end vma - vm_start vma;
          vma1 = vma\<lparr>vm_noncached := True, vm_flags := vm_flags vma OR VMEM_FLAGS\<rparr> in
      if \<not> remap_ok then (Inl EINVAL, vma1)
      else (Inr \<lparr>map_va = vm_start vma, map_pfn = drop_bit PAGE_SHIFT phys, map_size = vsize\<rparr>, vma1))"

text \<open>The physical address behind a virtual one.\<close>

definition translate :: "mapping \<Rightarrow> u64 \<Rightarrow> u64 option" where
  "translate m va =
     (if map_va m \<le> va \<and> va - map_va m < map_size m
      then Some (push_bit PAGE_SHIFT (map_pfn m) + (va - map_va m)) else None)"

text \<open>
  The mmap system call on the device: the kernel picks \<open>base\<close>, refuses an offset that is not a
  multiple of the page size, rounds the length up to pages, refuses the length 0, and calls the
  driver. \<open>None\<close> is \<open>MAP_FAILED\<close>.
\<close>

definition page_up :: "u64 \<Rightarrow> u64" where
  "page_up n = page_start (n + page_mask)"

definition mmap_regs :: "bool \<Rightarrow> u64 \<Rightarrow> u64 \<Rightarrow> u64 \<Rightarrow> mapping option" where
  "mmap_regs remap_ok base len off =
     (if off AND page_mask \<noteq> 0 \<or> page_up len = 0 then None
      else
        case fst (mpsoc_axireg_mmap remap_ok
               \<lparr>vm_start = base, vm_end = base + page_up len, vm_pgoff = drop_bit PAGE_SHIFT off,
                vm_flags = 0, vm_noncached = False\<rparr>) of
          Inl e \<Rightarrow> None
        | Inr m \<Rightarrow> Some m)"

section \<open>Accesses through a mapping\<close>

text \<open>
  An access is of four bytes: all of them must be in the mapping, and the address a multiple of
  four (mappings start at a page, so the virtual address has the low bits of the physical one).
\<close>

definition access_addr :: "mapping \<Rightarrow> u64 \<Rightarrow> fault + u64" where
  "access_addr m va =
     (case (translate m va, translate m (va + 3)) of
        (Some pa, Some _) \<Rightarrow> if pa AND 3 = 0 then Inr pa else Inl Misaligned
      | _ \<Rightarrow> Inl OutOfBounds)"

definition load :: "'d physmem \<Rightarrow> mapping \<Rightarrow> u64 \<Rightarrow> 'd \<Rightarrow> (u32, 'd) outcome" where
  "load pm m va d =
     (case access_addr m va of
        Inl x \<Rightarrow> Fault x
      | Inr pa \<Rightarrow> (case pm_read pm pa d of (v, d1) \<Rightarrow> Ok v d1))"

definition store :: "'d physmem \<Rightarrow> mapping \<Rightarrow> u64 \<Rightarrow> u32 \<Rightarrow> 'd \<Rightarrow> (unit, 'd) outcome" where
  "store pm m va v d =
     (case access_addr m va of Inl x \<Rightarrow> Fault x | Inr pa \<Rightarrow> Ok () (pm_write pm pa v d))"

lemma and_3_dvd: "x AND 3 = 0 \<longleftrightarrow> 4 dvd unat x" for x :: u64
proof -
  have "(3 :: u64) = mask 2" by (simp add: mask_eq_exp_minus_1)
  then have "x AND 3 = take_bit 2 x" by (simp add: take_bit_eq_mask)
  then have "unat (x AND 3) = take_bit 2 (unat x)" by (simp only: unsigned_take_bit_eq)
  then have "unat (x AND 3) = unat x mod 4" by (simp add: take_bit_eq_mod)
  then show ?thesis by (metis dvd_eq_mod_eq_0 unat_eq_0)
qed

lemma unat_page_up:
  assumes "unat n + 4095 < 2 ^ 64"
  shows "unat (page_up n) = 4096 * ((unat n + 4095) div 4096)"
  using assms by (simp add: page_up_def unat_page_start unat_add_u64 page_simps)

text \<open>The pages cover the length, unless rounding wraps.\<close>

lemma page_up_le:
  assumes "page_up n \<noteq> 0"
  shows "n \<le> page_up n"
proof (cases "unat n + 4095 < 2 ^ 64")
  case True
  then show ?thesis by (simp add: word_le_nat_alt unat_page_up)
next
  case False
  then have "unat (n + page_mask) = unat n + 4095 - 2 ^ 64"
    using unat_lt_u64 [of n] by (simp add: unat_plus_if' page_simps)
  then have "unat (n + page_mask) div 4096 = 0" using unat_lt_u64 [of n] by simp
  then have "unat (page_up n) = 0" by (simp only: page_up_def unat_page_start)
  with assms show ?thesis by (simp add: unat_eq_0)
qed

lemma page_up_page [simp]: "page_up PAGE_SIZE = 4096" "page_up 4096 = 4096"
  by (simp_all add: page_up_def page_start_def page_simps)

section \<open>The interface\<close>

text \<open>
  A file whose pages are registers: offset \<open>off\<close> of the file is physical address
  \<open>origin + off\<close>.
\<close>

locale reg_map =
  fixes map_regs :: "u64 \<Rightarrow> u64 \<Rightarrow> u64 \<Rightarrow> mapping option"
    and origin :: u64
  assumes map_va_base: "map_regs base len off = Some m \<Longrightarrow> map_va m = base"
    and map_translate:
    "map_regs base len off = Some m \<Longrightarrow> unat base + unat (page_up len) < 2 ^ 64 \<Longrightarrow> k < page_up len \<Longrightarrow>
     translate m (base + k) = Some (origin + off + k)"
    and map_end:
    "map_regs base len off = Some m \<Longrightarrow> page_up len \<le> k \<Longrightarrow> translate m (base + k) = None"
    and map_aligned: "map_regs base len off = Some m \<Longrightarrow> off AND page_mask = 0"
begin

text \<open>
  Mapping the page of an address and adding the offset in the page reaches the address, with all
  its bytes when it is a multiple of four.
\<close>

lemma map_page_of:
  assumes "map_regs base PAGE_SIZE (page_start addr - origin) = Some m"
    and "unat base + 4096 < 2 ^ 64"
  shows "translate m (base + (addr AND page_mask)) = Some addr"
proof -
  have "unat (addr AND page_mask) < 4096" by (simp add: unat_and_page_mask)
  then have "addr AND page_mask < page_up PAGE_SIZE" by (simp add: word_less_nat_alt page_up_page)
  from map_translate [OF assms(1) _ this] assms(2)
  have "translate m (base + (addr AND page_mask)) =
      Some (origin + (page_start addr - origin) + (addr AND page_mask))"
    by (simp add: page_up_page)
  also have "origin + (page_start addr - origin) + (addr AND page_mask) = addr"
    using page_offset_eq [of addr] by (simp add: algebra_simps)
  finally show ?thesis .
qed

lemma map_page_access:
  assumes "map_regs base PAGE_SIZE (page_start addr - origin) = Some m"
    and "unat base + 4096 < 2 ^ 64" and "addr AND 3 = 0"
  shows "access_addr m (base + (addr AND page_mask)) = Inr addr"
proof -
  have "4 dvd unat (addr AND page_mask)"
    using assms(3) unfolding and_3_dvd unat_and_page_mask by (intro dvd_mod) auto
  moreover have "unat (addr AND page_mask) < 4096" by (simp add: unat_and_page_mask)
  ultimately have "unat (addr AND page_mask) + 3 < 4096" by auto
  then have "(addr AND page_mask) + 3 < page_up PAGE_SIZE"
    by (simp add: word_less_nat_alt page_up_page unat_add_u64)
  from map_translate [OF assms(1) _ this] assms(2)
  have "\<exists>x. translate m (base + (addr AND page_mask) + 3) = Some x"
    by (simp add: page_up_page add.assoc)
  with map_page_of [OF assms(1,2)] assms(3) show ?thesis by (auto simp: access_addr_def)
qed

text \<open>Mapping a block places its pages: every address of them is reached, and nothing past them.\<close>

lemma map_block:
  assumes "map_regs base len (pa - origin) = Some m" and "unat base + unat (page_up len) < 2 ^ 64"
    and "k < page_up len"
  shows "translate m (map_va m + k) = Some (pa + k)"
  using map_translate [OF assms] map_va_base [OF assms(1)] by simp

lemma map_block_end:
  "map_regs base len off = Some m \<Longrightarrow> page_up len \<le> k \<Longrightarrow> translate m (map_va m + k) = None"
  using map_end map_va_base by simp

end

lemma shift_back:
  assumes "x AND page_mask = 0"
  shows "push_bit PAGE_SHIFT (drop_bit PAGE_SHIFT x) = x"
proof -
  have "push_bit PAGE_SHIFT (drop_bit PAGE_SHIFT x) + (x AND page_mask) = x"
    unfolding page_mask_is_mask PAGE_SHIFT_def take_bit_eq_mask [symmetric]
    by (rule bits_ident)
  then show ?thesis using assms by simp
qed

lemma aligned_iff: "x AND page_mask = 0 \<longleftrightarrow> 4096 dvd unat x"
proof -
  have "x AND page_mask = 0 \<longleftrightarrow> unat (x AND page_mask) = 0" by (simp only: unat_eq_0)
  then show ?thesis by (simp add: unat_and_page_mask mod_eq_0_iff_dvd)
qed

lemma aligned_add: "a AND page_mask = 0 \<Longrightarrow> b AND page_mask = 0 \<Longrightarrow> (a + b) AND page_mask = 0"
  unfolding aligned_iff by (simp add: unat_word_ariths dvd_mod)

lemma aligned_base: "0xA0000000 AND page_mask = 0"
  by (simp add: page_simps)

lemma mmap_regs_eq:
  "mmap_regs ok base len off = Some m \<longleftrightarrow>
     ok \<and> off AND page_mask = 0 \<and> page_up len \<noteq> 0 \<and>
     m = \<lparr>map_va = base, map_pfn = drop_bit PAGE_SHIFT (0xA0000000 + off), map_size = page_up len\<rparr>"
  by (auto simp: mmap_regs_def mpsoc_axireg_mmap_def Let_def shift_back)

lemma le_add_no_wrap:
  fixes b k len :: u64
  assumes "unat b + unat len < 2 ^ 64" and "k < len"
  shows "b \<le> b + k"
  using assms by (simp add: word_le_nat_alt word_less_nat_alt unat_add_u64)

interpretation regs: reg_map "mmap_regs ok" "0xA0000000" for ok
  by unfold_locales
     (auto simp: mmap_regs_eq translate_def le_add_no_wrap shift_back aligned_add aligned_base)

end
