(* ===== verification/CStrings.thy ===== *)
theory CStrings
  imports Prelude
begin

text \<open>
  The parts of the C library's (and the kernel's) number formatting that the programs use:
  scanning a decimal or hexadecimal integer (sscanf, strtol) and printing one (sprintf).
  Strings are lists of characters without the terminating NUL.
\<close>

section \<open>Scanning\<close>

definition is_space :: "char \<Rightarrow> bool" where
  "is_space c \<longleftrightarrow> c \<in> {CHR '' '', CHR 0x09, CHR 0x0A, CHR 0x0B, CHR 0x0C, CHR 0x0D}"

text \<open>The value of a digit; 36 for a character that is none.\<close>

definition digit_val :: "char \<Rightarrow> nat" where
  "digit_val c =
     (let n = of_char c :: nat in
      if 48 \<le> n \<and> n \<le> 57 then n - 48
      else if 97 \<le> n \<and> n \<le> 102 then n - 87
      else if 65 \<le> n \<and> n \<le> 70 then n - 55
      else 36)"

definition digits_val :: "nat \<Rightarrow> string \<Rightarrow> nat" where
  "digits_val base ds = fold (\<lambda>c v. v * base + digit_val c) ds 0"

definition scan_digits :: "nat \<Rightarrow> string \<Rightarrow> nat option" where
  "scan_digits base s =
     (case takeWhile (\<lambda>c. digit_val c < base) s of [] \<Rightarrow> None | ds \<Rightarrow> Some (digits_val base ds))"

text \<open>With base 16 an optional \<open>0x\<close> before the digits is skipped.\<close>

definition scan_nat :: "nat \<Rightarrow> string \<Rightarrow> nat option" where
  "scan_nat base s =
     (if base = 16 \<and> (take 2 s = ''0x'' \<or> take 2 s = ''0X'') \<and> scan_digits 16 (drop 2 s) \<noteq> None
      then scan_digits 16 (drop 2 s) else scan_digits base s)"

definition scan_int :: "nat \<Rightarrow> string \<Rightarrow> int option" where
  "scan_int base s =
     (case dropWhile is_space s of
        [] \<Rightarrow> None
      | c # cs \<Rightarrow>
          if c = CHR ''-'' then map_option (\<lambda>n. - int n) (scan_nat base cs)
          else if c = CHR ''+'' then map_option int (scan_nat base cs)
          else map_option int (scan_nat base (c # cs)))"

text \<open>
  The conversions of the C library: \<open>%lx\<close> saturates at the largest unsigned long, \<open>%x\<close> and
  \<open>%u\<close> keep the low 32 bits. strtol with base 16 saturates at the bounds of long and gives 0
  when there is no number.
\<close>

definition saturate :: "int \<Rightarrow> u64" where
  "saturate i = (if 2 ^ 64 \<le> \<bar>i\<bar> then - 1 else word_of_int i)"

definition sscanf_lx :: "string \<Rightarrow> u64 option" where
  "sscanf_lx s = map_option saturate (scan_int 16 s)"

definition sscanf_x :: "string \<Rightarrow> u32 option" where
  "sscanf_x s = map_option (\<lambda>i. ucast (saturate i)) (scan_int 16 s)"

definition sscanf_u :: "string \<Rightarrow> u32 option" where
  "sscanf_u s = map_option (\<lambda>i. ucast (saturate i)) (scan_int 10 s)"

definition strtol16 :: "string \<Rightarrow> int" where
  "strtol16 s = (case scan_int 16 s of None \<Rightarrow> 0 | Some i \<Rightarrow> max (- (2 ^ 63)) (min (2 ^ 63 - 1) i))"

text \<open>The conversions of the kernel's sscanf: no saturation, and no sign with \<open>%lx\<close>.\<close>

definition ksscanf_d :: "string \<Rightarrow> int option" where
  "ksscanf_d s =
     (case dropWhile is_space s of
        [] \<Rightarrow> None
      | c # cs \<Rightarrow>
          map_option (\<lambda>i. sint (word_of_int i :: u32))
            (if c = CHR ''-'' then map_option (\<lambda>n. - int n) (scan_nat 10 cs)
             else map_option int (scan_nat 10 (c # cs))))"

definition ksscanf_lx :: "string \<Rightarrow> u64 option" where
  "ksscanf_lx s = map_option of_nat (scan_nat 16 (dropWhile is_space s))"

section \<open>Printing\<close>

definition digit_char :: "nat \<Rightarrow> char" where
  "digit_char d = char_of (if d < 10 then 48 + d else 87 + d)"

fun print_nat :: "nat \<Rightarrow> nat \<Rightarrow> string" where
  "print_nat base n =
     (if n < base \<or> base < 2 then [digit_char n]
      else print_nat base (n div base) @ [digit_char (n mod base)])"

declare print_nat.simps [simp del]

definition print_int :: "int \<Rightarrow> string" where
  "print_int i = (if i < 0 then CHR ''-'' # print_nat 10 (nat (- i)) else print_nat 10 (nat i))"

definition newline :: string where
  "newline = [CHR 0x0A]"

section \<open>Reading back what was printed\<close>

lemma digit_val_char:
  assumes "d < 16"
  shows "digit_val (digit_char d) = d"
proof -
  have "(of_char (digit_char d) :: nat) = (if d < 10 then 48 + d else 87 + d)"
    using assms by (simp add: digit_char_def of_char_of)
  with assms show ?thesis by (auto simp: digit_val_def)
qed

lemma digit_val_newline: "digit_val (CHR 0x0A) = 36"
  by (simp add: digit_val_def)

lemma digits_val_append: "digits_val b (xs @ [c]) = digits_val b xs * b + digit_val c"
  by (simp add: digits_val_def)

lemma print_nat_digits:
  assumes "2 \<le> base" and "base \<le> 16"
  shows "digits_val base (print_nat base n) = n \<and>
         (\<forall>c \<in> set (print_nat base n). digit_val c < base) \<and> print_nat base n \<noteq> []"
  using assms
proof (induction base n rule: print_nat.induct)
  case (1 base n)
  show ?case
  proof (cases "n < base")
    case True
    then show ?thesis
      using 1 by (simp add: print_nat.simps [of base n] digits_val_def digit_val_char)
  next
    case False
    have "n mod base < base" using 1(2) by simp
    then have "n mod base < 16" using 1(3) by linarith
    with \<open>n mod base < base\<close> 1 False show ?thesis
      by (simp add: print_nat.simps [of base n] digits_val_append digit_val_char)
  qed
qed

text \<open>What may follow the number: nothing, or a character that cannot belong to it.\<close>

definition ends_number :: "string \<Rightarrow> bool" where
  "ends_number sfx \<longleftrightarrow>
     sfx = [] \<or> digit_val (hd sfx) = 36 \<and> hd sfx \<noteq> CHR ''x'' \<and> hd sfx \<noteq> CHR ''X''"

lemma ends_number_Nil: "ends_number []"
  by (simp add: ends_number_def)

lemma ends_number_newline: "ends_number newline"
  by (simp add: ends_number_def newline_def digit_val_newline)

lemma scan_digits_printed:
  assumes "2 \<le> base" and "base \<le> 16" and "ends_number sfx"
  shows "scan_digits base (print_nat base n @ sfx) = Some n"
proof -
  have p: "digits_val base (print_nat base n) = n" "print_nat base n \<noteq> []"
    "\<And>c. c \<in> set (print_nat base n) \<Longrightarrow> digit_val c < base"
    using print_nat_digits [OF assms(1,2), of n] by auto
  have "takeWhile (\<lambda>c. digit_val c < base) (print_nat base n @ sfx) = print_nat base n"
    using p(3) assms(2,3) by (cases sfx) (auto simp: ends_number_def takeWhile_append2)
  with p show ?thesis by (auto simp: scan_digits_def split: list.splits)
qed

lemma digit_not_special:
  assumes "digit_val c < 16"
  shows "\<not> is_space c" "c \<noteq> CHR ''-''" "c \<noteq> CHR ''+''" "c \<noteq> CHR ''x''" "c \<noteq> CHR ''X''"
  using assms by (auto simp: is_space_def digit_val_def)

lemma scan_nat_printed:
  assumes "2 \<le> base" and "base \<le> 16" and "ends_number sfx"
  shows "scan_nat base (print_nat base n @ sfx) = Some n"
proof -
  have d: "\<forall>c \<in> set (print_nat base n). digit_val c < 16"
    using print_nat_digits [OF assms(1,2), of n] assms(2) by force
  have "take 2 (print_nat base n @ sfx) \<noteq> ''0x'' \<and> take 2 (print_nat base n @ sfx) \<noteq> ''0X''"
  proof (cases "print_nat base n")
    case Nil
    then show ?thesis using print_nat_digits [OF assms(1,2), of n] by simp
  next
    case (Cons a as)
    with d digit_not_special(4,5) assms(3) show ?thesis
      by (cases as; cases sfx) (auto simp: ends_number_def)
  qed
  then show ?thesis using scan_digits_printed [OF assms] by (simp add: scan_nat_def)
qed

lemma print_nat_Cons:
  assumes "2 \<le> base" and "base \<le> 16"
  obtains c cs where "print_nat base n = c # cs" and "\<not> is_space c" and "c \<noteq> CHR ''-''"
    and "c \<noteq> CHR ''+''"
proof -
  obtain c cs where c: "print_nat base n = c # cs"
    using print_nat_digits [OF assms, of n] by (cases "print_nat base n") auto
  then have "digit_val c < 16" using print_nat_digits [OF assms, of n] assms(2) by auto
  with c that digit_not_special(1-3) show thesis by blast
qed

lemma ksscanf_lx_printed: "ends_number sfx \<Longrightarrow> ksscanf_lx (print_nat 16 (unat x) @ sfx) = Some x"
proof -
  assume sfx: "ends_number sfx"
  obtain c cs where "print_nat 16 (unat x) = c # cs" "\<not> is_space c"
    by (rule print_nat_Cons [of 16 "unat x"]) simp_all
  then have "dropWhile is_space (print_nat 16 (unat x) @ sfx) = print_nat 16 (unat x) @ sfx"
    by simp
  then show ?thesis using sfx scan_nat_printed [of 16 sfx "unat x"] by (simp add: ksscanf_lx_def)
qed

lemma scan_int_printed:
  assumes "2 \<le> base" and "base \<le> 16"
  shows "scan_int base (print_nat base n) = Some (int n)"
proof -
  obtain c cs where c: "print_nat base n = c # cs" "\<not> is_space c" "c \<noteq> CHR ''-''" "c \<noteq> CHR ''+''"
    by (rule print_nat_Cons [OF assms])
  with scan_nat_printed [OF assms ends_number_Nil, of n] show ?thesis by (simp add: scan_int_def)
qed

lemma strtol16_printed:
  assumes "n < 2 ^ 63"
  shows "strtol16 (print_nat 16 n) = int n"
  using scan_int_printed [of 16 n] assms by (simp add: strtol16_def)

lemma sscanf_lx_printed: "sscanf_lx (print_nat 16 (unat x)) = Some x"
  using scan_int_printed [of 16 "unat x"] unsigned_less [of x, where ?'a = int]
  by (simp add: sscanf_lx_def saturate_def)

lemma saturate_u32: "ucast (saturate (int (unat x))) = x" for x :: u32
proof -
  have "uint x < 2 ^ 32" using unsigned_less [of x, where ?'a = int] by simp
  moreover have "(ucast (ucast x :: u64) :: u32) = x"
    by (rule bit_word_eqI) (simp add: bit_simps)
  ultimately show ?thesis by (simp add: saturate_def)
qed

lemma sscanf_x_printed: "sscanf_x (print_nat 16 (unat x)) = Some x"
  using scan_int_printed [of 16 "unat x"] saturate_u32 [of x] by (simp add: sscanf_x_def)

lemma sscanf_u_printed: "sscanf_u (print_nat 10 (unat x)) = Some x"
  using scan_int_printed [of 10 "unat x"] saturate_u32 [of x] by (simp add: sscanf_u_def)

lemma is_space_minus: "\<not> is_space (CHR ''-'')"
  by (simp add: is_space_def)

lemma ksscanf_d_printed:
  assumes "- (2 ^ 31) \<le> i" and "i < 2 ^ 31" and "ends_number sfx"
  shows "ksscanf_d (print_int i @ sfx) = Some i"
proof -
  have i: "sint (word_of_int i :: u32) = i"
    using assms(1,2) by (simp add: sint_sbintrunc' signed_take_bit_int_eq_self)
  show ?thesis
  proof (cases "i < 0")
    case True
    with i assms(3) scan_nat_printed [of 10 sfx "nat (- i)"] show ?thesis
      by (simp add: ksscanf_d_def print_int_def is_space_minus)
  next
    case False
    obtain c cs where "print_nat 10 (nat i) = c # cs" "\<not> is_space c" "c \<noteq> CHR ''-''"
      by (rule print_nat_Cons [of 10 "nat i"]) simp_all
    with False i assms(3) scan_nat_printed [of 10 sfx "nat i"] show ?thesis
      by (simp add: ksscanf_d_def print_int_def)
  qed
qed

end
