(* ===== verification/XvcStart.thy ===== *)
theory XvcStart
  imports XvcBridge Axiregs CStrings
begin

text \<open>
  Starting the XVC server: the URL and the listening socket (xvcserver_start and open_server
  of xvc_server.c), the loop over the connections, and the program's options and mapping
  (main of xvc_server2axi.c).
\<close>

section \<open>The URL\<close>

text \<open>The field up to the separator, and what follows it.\<close>

fun get_field :: "char \<Rightarrow> string \<Rightarrow> string \<times> string" where
  "get_field c [] = ([], [])"
| "get_field c (x # xs) = (if x = c then ([], xs) else case get_field c xs of (f, r) \<Rightarrow> (x # f, r))"

definition is_tcp :: "string \<Rightarrow> bool" where
  "is_tcp s \<longleftrightarrow>
     length s = 3 \<and> (s ! 0 = CHR ''T'' \<or> s ! 0 = CHR ''t'') \<and>
     (s ! 1 = CHR ''C'' \<or> s ! 1 = CHR ''c'') \<and> (s ! 2 = CHR ''P'' \<or> s ! 2 = CHR ''p'')"

text \<open>The host and the port of a URL; \<open>None\<close> when the server refuses it.\<close>

definition parse_url :: "string \<Rightarrow> (string \<times> string) option" where
  "parse_url url =
     (case get_field (CHR '':'') url of
        (transport, p) \<Rightarrow>
          (case (if is_tcp transport then Some (get_field (CHR '':'') p)
                 else if CHR '':'' \<notin> set p then Some (transport, p) else None) of
             None \<Rightarrow> None
           | Some (host, p1) \<Rightarrow>
               (case get_field (CHR '':'') p1 of
                  (port, p2) \<Rightarrow> if p2 \<noteq> [] then None else Some (host, port))))"

section \<open>The listening socket\<close>

text \<open>An address of the host: the socket (negative: none) and whether each call succeeds.\<close>

record addr_result =
  ai_sock :: int
  ai_reuse :: bool
  ai_bind :: bool
  ai_listen :: bool

text \<open>The loop over the addresses; the value is the socket and the descriptors closed.\<close>

fun open_loop :: "addr_result list \<Rightarrow> int \<Rightarrow> int list \<Rightarrow> int \<times> int list" where
  "open_loop [] sock closed = (sock, closed)"
| "open_loop (r # rs) sock closed =
     (if ai_sock r < 0 then open_loop rs (ai_sock r) closed
      else if ai_reuse r \<and> ai_bind r \<and> ai_listen r then (ai_sock r, closed)
      else open_loop rs (- 1) (closed @ [ai_sock r]))"

definition open_server :: "(string option \<Rightarrow> string \<Rightarrow> addr_result list option) \<Rightarrow> string \<Rightarrow> string \<Rightarrow>
    int \<times> int list" where
  "open_server gai host port =
     (case gai (if host = [] then None else Some host) port of
        None \<Rightarrow> (- 1, [])
      | Some rs \<Rightarrow> open_loop rs (- 1) [])"

section \<open>The connections\<close>

text \<open>
  A connection: what malloc returned for its buffer, what arrives on it and which sends
  succeed. They are served one after the other; the reply buffer and the device persist.
\<close>

record conn =
  cn_junk :: "u8 list"
  cn_net :: "net_event list"
  cn_sendok :: "nat \<Rightarrow> bool"

fun serve_conns :: "(nat \<Rightarrow> u8 list) \<Rightarrow> 'd handlers \<Rightarrow> conn list \<Rightarrow> u8 list \<Rightarrow> 'd \<Rightarrow>
    ((conn_end \<times> u8 list) list, u8 list \<times> 'd) outcome option" where
  "serve_conns rj h [] reply d = Some (Ok [] (reply, d))"
| "serve_conns rj h (c # cs) reply d =
     (case read_packet (cn_sendok c) rj h (cn_net c) (new_client (cn_junk c) reply d) of
        None \<Rightarrow> None
      | Some (Fault f) \<Rightarrow> Some (Fault f)
      | Some (Ok e x) \<Rightarrow>
          (case serve_conns rj h cs (x_reply x) (x_dev x) of
             None \<Rightarrow> None
           | Some (Fault f) \<Rightarrow> Some (Fault f)
           | Some (Ok es s) \<Rightarrow> Some (Ok ((e, concat (x_sent x)) # es) s)))"

definition xvcserver_start :: "(string option \<Rightarrow> string \<Rightarrow> addr_result list option) \<Rightarrow> (nat \<Rightarrow> u8 list) \<Rightarrow>
    'd handlers \<Rightarrow> string \<Rightarrow> conn list \<Rightarrow> u8 list \<Rightarrow> 'd \<Rightarrow>
    (int \<times> (conn_end \<times> u8 list) list, u8 list \<times> 'd) outcome option" where
  "xvcserver_start gai rj h url conns reply d =
     (case parse_url url of
        None \<Rightarrow> Some (Ok (- 1, []) (reply, d))
      | Some (host, port) \<Rightarrow>
          if fst (open_server gai host port) < 0 then Some (Ok (1, []) (reply, d))
          else
            (case serve_conns rj h conns reply d of
               None \<Rightarrow> None
             | Some (Fault f) \<Rightarrow> Some (Fault f)
             | Some (Ok es s) \<Rightarrow> Some (Ok (0, es) s)))"

section \<open>The program\<close>

record xvc_opts =
  op_url :: string
  op_addr :: u64
  op_daemon :: bool
  op_verbose :: bool

definition default_opts :: xvc_opts where
  "default_opts = \<lparr>op_url = ''tcp::2542'', op_addr = 0xA0000000, op_daemon = False, op_verbose = False\<rparr>"

text \<open>\<open>Inl rc\<close>: the program returns; the comparisons of the last two branches as written.\<close>

fun parse_args :: "string list \<Rightarrow> xvc_opts \<Rightarrow> int + xvc_opts" where
  "parse_args [] opts = Inr opts"
| "parse_args (a # as) opts =
     (if a = ''-s'' then
        (case as of [] \<Rightarrow> Inl 1 | v # vs \<Rightarrow> parse_args vs (opts\<lparr>op_url := v\<rparr>))
      else if a = ''-a'' then
        (case as of [] \<Rightarrow> Inl 1 | v # vs \<Rightarrow> parse_args vs (opts\<lparr>op_addr := word_of_int (strtol16 v)\<rparr>))
      else if a = ''-d'' then parse_args as (opts\<lparr>op_daemon := True\<rparr>)
      else if a = ''-v'' then parse_args as (opts\<lparr>op_verbose := True\<rparr>)
      else if a \<noteq> ''-help'' \<or> a \<noteq> ''--help'' \<or> a \<noteq> ''-h'' then Inl 0
      else Inl 1)"

text \<open>
  Up to the call of xvcserver_start: the exit code, or the URL and the mapping of the debug
  bridge. The result of mmap is compared with the null pointer: a failed mapping
  (MAP_FAILED, here \<open>None\<close>) is not noticed.
\<close>

definition xvc_main :: "bool \<Rightarrow> bool \<Rightarrow> u64 \<Rightarrow> string list \<Rightarrow> int + (string \<times> mapping option)" where
  "xvc_main open_ok remap_ok base argv =
     (case parse_args argv default_opts of
        Inl rc \<Rightarrow> Inl rc
      | Inr opts \<Rightarrow>
          if open_ok then
            Inr (op_url opts, mmap_regs remap_ok base 0x1000 (op_addr opts - 0xA0000000))
          else Inl 1)"

section \<open>Lemmas\<close>

lemma get_field_append:
  "c \<notin> set f \<Longrightarrow> get_field c (f @ c # r) = (f, r)"
  by (induction f) auto

lemma get_field_last: "c \<notin> set f \<Longrightarrow> get_field c f = (f, [])"
  by (induction f) auto

lemma get_field_no_sep: "get_field c s = (f, r) \<Longrightarrow> c \<notin> set f"
  by (induction s arbitrary: f) (auto split: if_splits prod.splits)

lemma parse_url_tcp:
  assumes "is_tcp tr" and "CHR '':'' \<notin> set host" and "CHR '':'' \<notin> set port"
  shows "parse_url (tr @ '':'' @ host @ '':'' @ port) = Some (host, port)"
proof -
  have "CHR '':'' \<notin> set tr" using assms(1) by (auto simp: is_tcp_def numeral_3_eq_3 length_Suc_conv)
  from get_field_append [OF this] have "get_field (CHR '':'') (tr @ '':'' @ host @ '':'' @ port) =
      (tr, host @ '':'' @ port)" by simp
  with assms get_field_append [OF assms(2), of port] get_field_last [OF assms(3)] show ?thesis
    by (simp add: parse_url_def)
qed

lemma parse_url_plain:
  assumes "\<not> is_tcp host" and "CHR '':'' \<notin> set host" and "CHR '':'' \<notin> set port"
  shows "parse_url (host @ '':'' @ port) = Some (host, port)"
  using get_field_append [OF assms(2), of port] get_field_last [OF assms(3)] assms
  by (simp add: parse_url_def)

lemma parse_url_fields:
  assumes "parse_url url = Some (host, port)"
  shows "CHR '':'' \<notin> set host \<and> CHR '':'' \<notin> set port"
  using assms get_field_no_sep
  by (fastforce simp: parse_url_def split: prod.splits if_splits)

text \<open>Every socket opened before the one returned is closed.\<close>

lemma open_loop_spec:
  "open_loop rs sock closed = (s, cl) \<Longrightarrow> sock < 0 \<Longrightarrow>
     (if \<exists>r \<in> set rs. 0 \<le> ai_sock r \<and> ai_reuse r \<and> ai_bind r \<and> ai_listen r
      then \<exists>pre r post. rs = pre @ r # post \<and> s = ai_sock r \<and> 0 \<le> s \<and>
             ai_reuse r \<and> ai_bind r \<and> ai_listen r \<and>
             cl = closed @ map ai_sock (filter (\<lambda>r. 0 \<le> ai_sock r) pre)
      else s < 0 \<and> cl = closed @ map ai_sock (filter (\<lambda>r. 0 \<le> ai_sock r) rs))"
proof (induction rs arbitrary: sock closed)
  case (Cons r rs)
  let ?good = "\<lambda>r. 0 \<le> ai_sock r \<and> ai_reuse r \<and> ai_bind r \<and> ai_listen r"
  show ?case
  proof (cases "?good r")
    case True
    with Cons.prems have "s = ai_sock r" "cl = closed" by auto
    with True show ?thesis by (auto intro!: exI [of _ "[]"])
  next
    case False
    define sock' where "sock' = (if ai_sock r < 0 then ai_sock r else - 1)"
    define closed' where "closed' = closed @ (if ai_sock r < 0 then [] else [ai_sock r])"
    have step: "open_loop rs sock' closed' = (s, cl)" and neg: "sock' < 0"
      using Cons.prems False by (auto simp: sock'_def closed'_def split: if_splits)
    have cl': "closed' = closed @ map ai_sock (filter (\<lambda>r. 0 \<le> ai_sock r) [r])"
      by (simp add: closed'_def)
    show ?thesis
    proof (cases "\<exists>r \<in> set rs. ?good r")
      case True
      with Cons.IH [OF step neg] obtain pre r' post where p: "rs = pre @ r' # post" "s = ai_sock r'"
        "?good r'" "cl = closed' @ map ai_sock (filter (\<lambda>r. 0 \<le> ai_sock r) pre)"
        by auto
      then have "r # rs = (r # pre) @ r' # post"
        "cl = closed @ map ai_sock (filter (\<lambda>r. 0 \<le> ai_sock r) (r # pre))"
        using cl' by simp_all
      moreover have ex: "\<exists>r \<in> set (r # rs). ?good r" using True by auto
      ultimately show ?thesis
        unfolding if_P [OF ex] using p(2,3)
        by (intro exI [of _ "r # pre"] exI [of _ r'] exI [of _ post]) simp
    next
      case none: False
      with Cons.IH [OF step neg] False cl' show ?thesis by auto
    qed
  qed
qed simp

end
