(* ===== verification/XvcSessions.thy ===== *)
theory XvcSessions
  imports XvcStart
begin

text \<open>
  The server over its whole life: clients connect one after the other, and each gets the
  replies to its own requests, computed on the device as the clients before left it.
\<close>

section \<open>The specification\<close>

fun session_replies :: "(u64 \<Rightarrow> u64) \<Rightarrow> (u32 \<Rightarrow> u8 list \<Rightarrow> u8 list \<Rightarrow> 'd \<Rightarrow> u8 list \<times> 'd) \<Rightarrow>
    request list list \<Rightarrow> 'd \<Rightarrow> (conn_end \<times> u8 list) list \<times> 'd" where
  "session_replies tck sf [] d = ([], d)"
| "session_replies tck sf (rs # rss) d =
     (case replies_of tck sf rs d of (out, d1) \<Rightarrow>
        (case session_replies tck sf rss d1 of (outs, d2) \<Rightarrow> ((ConnClosed, out) # outs, d2)))"

text \<open>
  The connection of a client that sends the encoding of \<open>rs\<close>, in whatever pieces, and then
  closes; sending to it succeeds.
\<close>

definition client_sends :: "conn \<Rightarrow> request list \<Rightarrow> bool" where
  "client_sends c rs \<longleftrightarrow>
     length (cn_junk c) = 10000 \<and> cn_sendok c = (\<lambda>_. True) \<and>
     (\<forall>r \<in> set rs. wf_request r) \<and> paced rs \<and>
     (\<exists>bss. cn_net c = map Data bss \<and> (\<forall>bs \<in> set bss. bs \<noteq> []) \<and> concat bss = encs rs)"

section \<open>The reply buffer\<close>

lemma reply_grow_step: "m < b \<Longrightarrow> reply_grow m b = reply_grow (m * 2) b"
  by (subst reply_grow.simps) simp

lemma reply_grow_stop: "\<not> m < b \<Longrightarrow> reply_grow m b = Some m"
  by (subst reply_grow.simps) simp

text \<open>From a power of two, the loop ends at the first power of two that is large enough.\<close>

lemma unat_pow2: "k \<le> 31 \<Longrightarrow> unat ((2 :: u32) ^ k) = 2 ^ k"
  using unat_of_nat_u32 [of "2 ^ k"] power_increasing [of k 31 "2 :: nat"] by simp

lemma reply_grow_power:
  "k \<le> j \<Longrightarrow> j \<le> 31 \<Longrightarrow> unat b \<le> 2 ^ j \<Longrightarrow> j = 0 \<or> 2 ^ (j - 1) < unat b \<Longrightarrow>
     reply_grow (2 ^ k) b = Some (2 ^ j)"
proof (induction "j - k" arbitrary: k)
  case 0
  then have "k = j" and "\<not> 2 ^ j < b" by (simp_all add: word_less_nat_alt unat_pow2)
  then show ?case by (simp add: reply_grow_stop)
next
  case (Suc n)
  then have k: "k < j" "k \<le> j - 1" "j \<noteq> 0" by linarith+
  have "(2 :: nat) ^ k \<le> 2 ^ (j - 1)" using k(2) by (intro power_increasing) simp_all
  then have "2 ^ k < unat b" using Suc.prems(4) k(3) by linarith
  then have "reply_grow (2 ^ k) b = reply_grow (2 ^ k * 2) b"
    using Suc.prems(1,2) by (intro reply_grow_step) (simp add: word_less_nat_alt unat_pow2)
  moreover have "(2 :: u32) ^ k * 2 = 2 ^ Suc k" by simp
  ultimately show ?case using Suc.hyps(1) [of "Suc k"] Suc.hyps(2) Suc.prems k(1)
    by simp
qed

lemma reply_grow_zero: "0 < b \<Longrightarrow> reply_grow 0 b = None"
proof (rule ccontr)
  assume "0 < b" and "reply_grow 0 b \<noteq> None"
  then obtain n where "reply_grow 0 b = Some n" by blast
  then have "(0 :: u32) = 0 \<longrightarrow> \<not> 0 < b"
    by (rule reply_grow.raw_induct [where P = "\<lambda>m b n. m = 0 \<longrightarrow> \<not> 0 < b", rotated])
       (auto split: if_splits)
  with \<open>0 < b\<close> show False by simp
qed

text \<open>Beyond \<open>2 ^ 31\<close> the size wraps to 0 and the loop never ends.\<close>

lemma reply_grow_never: "k \<le> 31 \<Longrightarrow> 2 ^ 31 < b \<Longrightarrow> reply_grow (2 ^ k) b = None"
proof (induction "31 - k" arbitrary: k)
  case 0
  then have k: "k = 31" by simp
  have zero: "(2 :: u32) ^ 31 * 2 = 0" by simp
  have "reply_grow (2 ^ 31) b = reply_grow 0 b"
    using 0(3) by (rule reply_grow_step [of "2 ^ 31" b, unfolded zero])
  moreover have "0 < b" using 0(3) by (rule order.strict_trans1 [rotated]) simp
  ultimately show ?case unfolding k using reply_grow_zero by simp
next
  case (Suc n)
  have "unat ((2 :: u32) ^ k) = 2 ^ k" using Suc.prems(1) by (rule unat_pow2)
  then have "(2 :: u32) ^ k \<le> 2 ^ 31"
    using Suc.prems(1) power_increasing [of k 31 "2 :: nat"] by (simp add: word_le_nat_alt)
  then have "reply_grow (2 ^ k) b = reply_grow (2 ^ k * 2) b"
    using Suc.prems(2) by (intro reply_grow_step) (rule order.strict_trans1)
  moreover have "(2 :: u32) ^ k * 2 = 2 ^ Suc k" by simp
  ultimately show ?case using Suc.hyps(1) [of "Suc k"] Suc.hyps(2) Suc.prems by simp
qed

lemma reply_buf_first: "reply_buf_size 0 MAX_PACKET_LEN = Some 16384"
proof -
  have "reply_grow (2 ^ 0) 10000 = Some (2 ^ 14)" by (rule reply_grow_power) simp_all
  then show ?thesis by (simp add: reply_buf_size_def MAX_PACKET_LEN_def)
qed

lemma reply_buf_again: "reply_buf_size 16384 MAX_PACKET_LEN = Some 16384"
  by (simp add: reply_buf_size_def MAX_PACKET_LEN_def)

section \<open>Serving the clients\<close>

context xvc_handlers
begin

lemma replies_ready: "ready d \<Longrightarrow> ready (snd (replies_of (set_tck h) sf rs d))"
proof (induction rs arbitrary: d)
  case (Cons r rs)
  obtain out d1 where "reply_of (set_tck h) sf r d = (out, d1)" by fastforce
  with Cons.IH [OF reply_ready [OF Cons.prems this]] show ?case by (simp add: split_beta)
qed simp

lemma client_served:
  assumes "client_sends c rs" and "ready d" and "length r0 = 16384"
  shows "\<exists>y. read_more (cn_sendok c) h (cn_net c) (new_client (cn_junk c) r0 d) = Ok ConnClosed y \<and>
     concat (x_sent y) = fst (replies_of (set_tck h) sf rs d) \<and>
     x_dev y = snd (replies_of (set_tck h) sf rs d) \<and> length (x_reply y) = 16384"
proof -
  let ?x = "new_client (cn_junk c) r0 d"
  obtain bss where bss: "cn_net c = map Data bss" "\<forall>bs \<in> set bss. bs \<noteq> []" "concat bss = encs rs"
    using assms(1) by (auto simp: client_sends_def)
  have x: "sound ?x" "window 0 ?x = []" "x_sent ?x = []" "x_dev ?x = d"
    using assms(1,3) by (simp_all add: sound_def new_client_def window_def client_sends_def)
  have "\<exists>y. read_more (\<lambda>_. True) h (map Data bss @ []) ?x = Ok ConnClosed y \<and>
     concat (x_sent y) = concat (x_sent ?x) @ fst (replies_of (set_tck h) sf rs (x_dev ?x)) \<and>
     x_dev y = snd (replies_of (set_tck h) sf rs (x_dev ?x)) \<and> x_len y = 0 \<and> sound y"
    by (rule read_more_stream) (use x bss assms(1,2) in \<open>simp_all add: client_sends_def\<close>)
  then show ?thesis using bss(1) assms(1) x by (auto simp: client_sends_def sound_def)
qed

lemma clients_served:
  assumes "list_all2 client_sends cs rss" and "ready d"
    and "r0 = [] \<or> length r0 = 16384" and "\<And>n. length (rj n) = n"
  shows "\<exists>r1. serve_conns rj h cs r0 d =
     Some (Ok (fst (session_replies (set_tck h) sf rss d)) (r1, snd (session_replies (set_tck h) sf rss d)))"
  using assms(1-3)
proof (induction cs rss arbitrary: d r0 rule: list_all2_induct)
  case Nil
  show ?case by simp
next
  case (Cons c cs rs rss)
  define r where "r = r0 @ rj (16384 - length r0)"
  have r: "length r = 16384" using Cons.prems(2) assms(4) by (auto simp: r_def)
  have pkt: "read_packet (cn_sendok c) rj h (cn_net c) (new_client (cn_junk c) r0 d) =
      Some (read_more (cn_sendok c) h (cn_net c) (new_client (cn_junk c) r d))"
    using Cons.prems(2) reply_buf_first reply_buf_again assms(4) [of 0]
    by (auto simp: read_packet_def new_client_def r_def)
  obtain y where y: "read_more (cn_sendok c) h (cn_net c) (new_client (cn_junk c) r d) = Ok ConnClosed y"
     "concat (x_sent y) = fst (replies_of (set_tck h) sf rs d)"
     "x_dev y = snd (replies_of (set_tck h) sf rs d)" "length (x_reply y) = 16384"
    using client_served [OF Cons.hyps(1) Cons.prems(1) r] by blast
  have "\<exists>r1. serve_conns rj h cs (x_reply y) (x_dev y) =
     Some (Ok (fst (session_replies (set_tck h) sf rss (x_dev y)))
              (r1, snd (session_replies (set_tck h) sf rss (x_dev y))))"
    by (rule Cons.IH) (use y replies_ready Cons.prems(1) in simp_all)
  with pkt y show ?case by (auto simp: split_beta)
qed

end

end
