(* ===== verification/XvcDemo.thy ===== *)
theory XvcDemo
  imports XvcStart
begin

text \<open>
  A simulated debug bridge for the witnesses: a register file whose control register always
  reads 0 and whose TDO register reads the exclusive or of TMS and TDI; and one that never
  ends a shift.
\<close>

definition demo_bridge :: "(nat \<Rightarrow> u32) mmio" where
  "demo_bridge = \<lparr>mm_read = (\<lambda>off d. (if off = 0x10 then 0 else if off = 0x0C then d 4 XOR d 8 else d off, d)),
     mm_write = (\<lambda>off v d. d(off := v))\<rparr>"

definition stuck_bridge :: "(nat \<Rightarrow> u32) mmio" where
  "stuck_bridge = \<lparr>mm_read = (\<lambda>off d. (1, d)), mm_write = (\<lambda>off v d. d(off := v))\<rparr>"

lemma demo_bridge_responsive: "responsive demo_bridge d"
  by (simp add: responsive_def xil_xvc_shift_bits_def Let_def axilite_read_def axilite_write_def
      demo_bridge_def CONTROL_REG_OFFSET_def numeral_eq_Suc split_beta)

definition demo_client :: "(nat \<Rightarrow> u32) xvc" where
  "demo_client = new_client (replicate 10000 0) (replicate 16384 0) (\<lambda>_. 0)"

lemma demo_client_sound: "sound demo_client"
  by (simp add: sound_def demo_client_def new_client_def)

definition demo_requests :: "request list" where
  "demo_requests = [GetInfo, SetTck 100, Shift 12 [3, 1] [5, 0]]"

end
