(* ===== verification/XvcClaims.thy ===== *)
theory XvcClaims
  imports XvcSessions XvcDemo
begin

text \<open>
  The properties of the XVC server: what clients get, what a shift does to the bridge and to
  the reply buffer, the start of the program, and the inputs that break it.
\<close>

section \<open>Serving clients\<close>

text \<open>
  C17. The server started with a URL it accepts serves its clients one after the other: each
  client gets exactly the replies to the requests it sent, in order, whatever way the network
  cut its requests into packets, computed on the debug bridge as the clients before left it;
  the server returns 0 when no connection is left. Each client sends complete requests (each
  fitting the receive buffer, and in no 10000 bytes more than 490 of them getinfo) and the bridge
  is responsive.
\<close>

theorem xvc_clients_get_replies:
  assumes "parse_url url = Some (host, port)" and "0 \<le> fst (open_server gai host port)"
    and "responsive dev d" and "list_all2 client_sends conns rss" and "\<forall>n. length (rj n) = n"
  shows "\<exists>reply. xvcserver_start gai rj (axi_handlers dev) url conns [] d =
    Some (Ok (0, fst (session_replies axi_set_tck (axi_sf dev) rss d))
             (reply, snd (session_replies axi_set_tck (axi_sf dev) rss d)))"
proof -
  have "set_tck (axi_handlers dev) = axi_set_tck" by (simp add: axi_handlers_def)
  then obtain r1 where "serve_conns rj (axi_handlers dev) conns [] d =
     Some (Ok (fst (session_replies axi_set_tck (axi_sf dev) rss d))
        (r1, snd (session_replies axi_set_tck (axi_sf dev) rss d)))"
    using axi.clients_served [OF assms(4,3), of "[]" rj] assms(5) by auto
  then show ?thesis using assms(1,2) by (auto simp: xvcserver_start_def)
qed

definition demo_conn :: "u8 list list \<Rightarrow> conn" where
  "demo_conn bss = \<lparr>cn_junk = replicate 10000 7, cn_net = map Data bss, cn_sendok = (\<lambda>_. True)\<rparr>"

lemma demo_conn_sends:
  assumes "\<forall>bs \<in> set bss. bs \<noteq> []" and "concat bss = encs rs"
    and "\<forall>r \<in> set rs. wf_request r" and "paced rs"
  shows "client_sends (demo_conn bss) rs"
  using assms by (auto simp: client_sends_def demo_conn_def)

theorem xvc_clients_get_replies_witness:
  "\<exists>reply. xvcserver_start (\<lambda>host port. Some [\<lparr>ai_sock = 3, ai_reuse = True, ai_bind = True, ai_listen = True\<rparr>])
      (\<lambda>n. replicate n 0) (axi_handlers demo_bridge) ''tcp::2542''
      [demo_conn [bytes_of ''getin'', bytes_of ''fo:'' @ encs [Shift 12 [3, 1] [5, 0]]], demo_conn [enc (SetTck 100)]]
      [] (\<lambda>_. 0) =
    Some (Ok (0, fst (session_replies axi_set_tck (axi_sf demo_bridge) [[GetInfo, Shift 12 [3, 1] [5, 0]], [SetTck 100]] (\<lambda>_. 0)))
      (reply, snd (session_replies axi_set_tck (axi_sf demo_bridge) [[GetInfo, Shift 12 [3, 1] [5, 0]], [SetTck 100]] (\<lambda>_. 0))))"
proof (rule xvc_clients_get_replies [where host = "[]" and port = "''2542''"])
  show "responsive demo_bridge (\<lambda>_. 0)" by (rule demo_bridge_responsive)
  show "list_all2 client_sends
     [demo_conn [bytes_of ''getin'', bytes_of ''fo:'' @ encs [Shift 12 [3, 1] [5, 0]]], demo_conn [enc (SetTck 100)]]
     [[GetInfo, Shift 12 [3, 1] [5, 0]], [SetTck 100]]"
    by (auto intro!: demo_conn_sends simp: bytes_of_def vec_bytes_def)
qed (simp_all add: parse_url_def is_tcp_def open_server_def)

section \<open>Shifting\<close>

text \<open>
  C18. A shift returns and touches only its own bytes of the reply buffer: whatever the bridge
  answers, there is no access outside the buffers, and the bytes before and after the
  \<open>(bits + 7) / 8\<close> bytes of TDO keep their values; when the bridge is responsive, these bytes
  are the TDO words the bridge returned for the words of TMS and TDI, in order.
\<close>

theorem xvc_shift_frame:
  assumes "tms + vec_bytes bits \<le> length buf" and "tdi + vec_bytes bits \<le> length buf"
    and "tdo + vec_bytes bits \<le> length r"
  shows "\<exists>r' d'. axi_shift_tms_tdi dev (ucast bits) buf tms tdi r tdo d = Ok r' d' \<and>
    length r' = length r \<and> take tdo r' = take tdo r \<and>
    drop (tdo + vec_bytes bits) r' = drop (tdo + vec_bytes bits) r \<and>
    (responsive dev d \<longrightarrow> (slice tdo (vec_bytes bits) r', d') =
      axi_sf dev bits (slice tms (vec_bytes bits) buf) (slice tdi (vec_bytes bits) buf) d)"
proof -
  obtain out d' where sf:
    "axi_sf dev bits (slice tms (vec_bytes bits) buf) (slice tdi (vec_bytes bits) buf) d = (out, d')"
    by fastforce
  have len: "length out \<le> vec_bytes bits"
    using axi_words_length sf by (fastforce simp: axi_sf_def vec_bytes_def split: prod.splits)
  have "axi_shift_tms_tdi dev (ucast bits) buf tms tdi r tdo d = Ok (patch tdo out r) d'"
    by (rule axi_shift_eq [OF assms sf])
  moreover have "responsive dev d \<Longrightarrow> length out = vec_bytes bits" by (rule axi_sf_ready(1) [OF _ sf])
  ultimately show ?thesis
    using sf len assms(3) by (auto simp: patch_def slice_def drop_append add.commute)
qed

theorem xvc_shift_frame_witness:
  "\<exists>r' d'. axi_shift_tms_tdi demo_bridge (ucast (12 :: u32)) [3, 1, 5, 0] 0 2 [9, 9, 9, 9] 1 (\<lambda>_. 0) = Ok r' d' \<and>
    length r' = 4 \<and> take 1 r' = [9] \<and> drop 3 r' = [9] \<and>
    (responsive demo_bridge (\<lambda>_. 0) \<longrightarrow> (slice 1 2 r', d') = axi_sf demo_bridge 12 [3, 1] [5, 0] (\<lambda>_. 0))"
proof -
  have "vec_bytes 12 = 2" by (simp add: vec_bytes_def)
  then show ?thesis
    using xvc_shift_frame [of 0 12 "[3, 1, 5, 0]" 2 1 "[9, 9, 9, 9]" demo_bridge "\<lambda>_. 0"]
    by (simp add: slice_def numeral_eq_Suc)
qed

lemma stuck_poll: "\<forall>d. fst (mm_read dev CONTROL_REG_OFFSET d) AND 1 \<noteq> 0 \<Longrightarrow> fst (poll_control dev n d) = 0"
  by (induction n arbitrary: d) (auto simp: axilite_read_def split_beta)

lemma axi_words_stuck:
  assumes "\<forall>d. fst (mm_read dev CONTROL_REG_OFFSET d) AND 1 \<noteq> 0" and "n \<noteq> 0"
  shows "\<exists>d'. axi_words dev n a b d = ([], False, d')"
proof -
  let ?nb = "(min 32 n + 7) div 8"
  let ?d1 = "if n < 32 then axilite_write dev LENGTH_REG_OFFSET (of_nat (min 32 n)) d else d"
  have "fst (xil_xvc_shift_bits dev (get_uint_le a ?nb) (get_uint_le b ?nb) ?d1) = None"
    using stuck_poll [OF assms(1)] by (simp add: xil_xvc_shift_bits_def Let_def split_beta)
  then obtain d2 where "xil_xvc_shift_bits dev (get_uint_le a ?nb) (get_uint_le b ?nb) ?d1 = (None, d2)"
    by (metis prod.collapse)
  with assms(2) show ?thesis by (simp add: axi_words.simps [of dev n] Let_def)
qed

text \<open>
  C21. When the bridge never ends a shift, the time-out is not reported: the shift counts as
  executed, its TDO bytes are added to the reply, and they are whatever the reply buffer held
  before.
\<close>

theorem xvc_timeout_stale_reply:
  assumes "\<forall>d. fst (mm_read dev CONTROL_REG_OFFSET d) AND 1 \<noteq> 0" and "\<not> x_pending x"
    and "bits = get_uint_le (drop p (x_buf x)) 4" and "0 < bits" and "unat bits + 7 < 2 ^ 32"
    and "p + 4 + 2 * vec_bytes bits \<le> unat (x_len x)" and "unat (x_len x) \<le> length (x_buf x)"
    and "x_rlen x + vec_bytes bits \<le> length (x_reply x)"
  shows "\<exists>d. do_shift (axi_handlers dev) cbuf p x =
    Ok (TNext (p + 4 + 2 * vec_bytes bits)) (x\<lparr>x_dev := d, x_rlen := x_rlen x + vec_bytes bits\<rparr>)"
proof -
  let ?v = "vec_bytes bits" and ?b = "x_buf x"
  have "unat bits \<noteq> 0" using assms(4) by (simp add: unat_eq_0 word_neq_0_conv)
  from axi_words_stuck [OF assms(1) this]
  obtain d' where sf: "axi_sf dev bits (slice (p + 4) ?v ?b) (slice (p + 4 + ?v) ?v ?b) (x_dev x) = ([], d')"
    unfolding axi_sf_def by (metis (no_types, lifting) case_prod_conv)
  have vb: "unat ((bits + 7) div 8) = ?v" using assms(5) by (simp add: word_div_8 vec_bytes_def)
  have "axi_shift_tms_tdi dev (ucast bits) ?b (p + 4) (p + 4 + ?v) (x_reply x) (x_rlen x) (x_dev x) =
      Ok (patch (x_rlen x) [] (x_reply x)) d'"
    by (rule axi_shift_eq) (use sf assms(6-8) in simp_all)
  then show ?thesis
    using assms(2,6,7) by (intro exI [of _ d'])
      (simp add: do_shift_def assms(3) [symmetric] vb Let_def mult.commute axi_handlers_def)
qed

definition stuck_client :: "(nat \<Rightarrow> u32) xvc" where
  "stuck_client = (new_client ([8, 0, 0, 0, 1, 2] @ replicate 9994 0) [9, 9] (\<lambda>_. 0))\<lparr>x_len := 6\<rparr>"

theorem xvc_timeout_stale_reply_witness:
  "\<exists>d. do_shift (axi_handlers stuck_bridge) 0 0 stuck_client =
     Ok (TNext 6) (stuck_client\<lparr>x_dev := d, x_rlen := 1\<rparr>)"
proof -
  have "get_uint_le (drop 0 (x_buf stuck_client)) 4 = 8"
    by (simp add: stuck_client_def new_client_def get_uint_le_4)
  then show ?thesis
    using xvc_timeout_stale_reply [of stuck_bridge stuck_client 8 0 0]
    by (simp add: stuck_bridge_def stuck_client_def new_client_def vec_bytes_def)
qed

end
