(* ===== verification/XvcLimits.thy ===== *)
theory XvcLimits
  imports XvcSessions
begin

text \<open>
  The edges of the XVC server: the inputs from the network that break it, the size of its
  reply buffer, the URL, and the options of the program.
\<close>

section \<open>The first packet of a connection\<close>

lemma first_packet:
  assumes "length junk = 10000" and "length reply = 16384" and "0 < length bs" and "length bs \<le> 10000"
  obtains y where "read_more sendok h (Data bs # es) (new_client junk reply d) = read_more sendok h es y"
    and "sound y" and "window 0 y = bs" and "x_reply y = reply" and "x_dev y = d"
    and "unat (x_len y) = length bs" and "x_sent y = []"
proof -
  let ?x = "new_client junk reply d"
  have x: "sound ?x" "x_len ?x = 0" "?x\<lparr>x_rlen := 0\<rparr> = ?x" "window 0 ?x = []"
    "x_reply ?x = reply" "x_dev ?x = d" "x_buf ?x = junk" "x_sent ?x = []"
    using assms(1,2) by (simp_all add: sound_def new_client_def window_def)
  have loop: "parse_loop h 0 ?x = Ok (Some (0, True)) ?x"
    using parse_turn_empty [OF x(1), of h] x(2) by (simp add: parse_loop.simps [of h 0 ?x])
  from recv_data [OF x(1), of bs es] x(2) assms(3) obtain new rest len where
    d: "new @ rest = bs" "recv (unat (of_nat (length (x_buf ?x)) - x_len ?x)) (Data bs # es) =
        (len, new, if rest = [] then es else Data rest # es)" "0 < len"
      "unat (x_len ?x) + length new \<le> length (x_buf ?x)"
      "sound (?x\<lparr>x_buf := patch (unat (x_len ?x)) new (x_buf ?x), x_len := x_len ?x + len\<rparr>)"
      "window 0 (?x\<lparr>x_buf := patch (unat (x_len ?x)) new (x_buf ?x), x_len := x_len ?x + len\<rparr>) =
        window 0 ?x @ new" "new \<noteq> []"
    by auto
  have "new = bs \<and> rest = []"
  proof -
    have "new = take 10000 bs"
      using d(2) assms(1) x(2,7) by (simp add: recv_def)
    then show ?thesis using d(1) assms(4) by simp
  qed
  with d have "read_more sendok h (Data bs # es) ?x = read_more sendok h es
      (?x\<lparr>x_buf := patch 0 bs junk, x_len := len\<rparr>)"
    using loop x by (simp add: read_more.simps [of _ h _ ?x] send_reply_def)
  moreover have "length (window 0 (?x\<lparr>x_buf := patch 0 bs junk, x_len := len\<rparr>)) = length bs"
    using d(6) x \<open>new = bs \<and> rest = []\<close> by simp
  then have "unat len = length bs"
    using d(5) x \<open>new = bs \<and> rest = []\<close> by (simp add: sound_def)
  ultimately show ?thesis
    using that d(5,6) x \<open>new = bs \<and> rest = []\<close> by simp
qed

section \<open>Hostile clients\<close>

text \<open>Each getinfo request adds 21 bytes to the reply and needs a 22nd.\<close>

lemma flood_overruns:
  assumes "length (x_buf x) = 10000" and "unat (x_len x) \<le> 10000" and "cbuf \<le> unat (x_len x)"
    and "window cbuf x = concat (replicate m (enc GetInfo))"
    and "x_rlen x < length (x_reply x)" and "length (x_reply x) < x_rlen x + 21 * m + 1"
  shows "parse_loop h cbuf x = Fault OutOfBounds"
  using assms
proof (induction m arbitrary: cbuf x)
  case (Suc m)
  let ?W = "window cbuf x"
  have xlen: "unat (x_len x) \<le> length (x_buf x)" using Suc.prems(1,2) by simp
  have W: "?W @ [] = enc GetInfo @ concat (replicate m (enc GetInfo))" using Suc.prems(4) by simp
  have len: "8 \<le> length ?W" using Suc.prems(4) by (simp add: bytes_of_def)
  have turn: "parse_turn h cbuf x = do_getinfo (cbuf + 8) x"
    using parse_turn_commands(1) [OF xlen Suc.prems(3) W, where h = h] len by simp
  show ?case
  proof (cases "x_rlen x + 22 \<le> length (x_reply x)")
    case True
    from do_getinfo_served [OF Suc.prems(1) this, of "cbuf + 8"] obtain y where
      y: "do_getinfo (cbuf + 8) x = Ok (TNext (cbuf + 8)) y"
      "served x (bytes_of ''xvcServer_v1.0:10000'' @ [10]) (x_dev x) y" by blast
    have "parse_loop h cbuf x = parse_loop h (cbuf + 8) y"
      using turn y(1) by (simp add: parse_loop.simps [of h cbuf x])
    also have "\<dots> = Fault OutOfBounds"
    proof (rule Suc.IH)
      show "window (cbuf + 8) y = concat (replicate m (enc GetInfo))"
      proof -
        have "window (cbuf + 8) y = drop 8 ?W"
          using y(2) by (simp add: served_def window_def add.commute)
        then show ?thesis using Suc.prems(4) by (simp add: bytes_of_def)
      qed
      show "cbuf + 8 \<le> unat (x_len y)"
        using y(2) len xlen Suc.prems(3) by (simp add: served_def)
    qed (use y(2) Suc.prems True in \<open>auto simp: served_def bytes_of_def\<close>)
    finally show ?thesis .
  next
    case False
    then have "do_getinfo (cbuf + 8) x = Fault OutOfBounds"
      using Suc.prems(1)
      by (simp add: do_getinfo_def server_info_10000 store_reply_def bytes_of_def)
    then show ?thesis using turn by (simp add: parse_loop.simps [of h cbuf x])
  qed
qed simp

text \<open>
  The parser answers every request of the receive buffer before it sends, a reply is longer
  than its request, and nothing checks the room that is left.
\<close>

lemma getinfo_flood:
  assumes "length junk = 10000" and "length reply = 16384" and "781 \<le> n" and "n \<le> 1250"
  shows "read_more sendok h (Data (concat (replicate n (bytes_of ''getinfo:''))) # es)
           (new_client junk reply d) = Fault OutOfBounds"
proof -
  let ?bs = "concat (replicate n (bytes_of ''getinfo:''))"
  have len: "length ?bs = 8 * n" by (simp add: length_concat sum_list_replicate bytes_of_def)
  have "0 < length ?bs" "length ?bs \<le> 10000" using len assms(3,4) by linarith+
  from first_packet [OF assms(1,2) this, of sendok h es d] obtain y where
    y: "read_more sendok h (Data ?bs # es) (new_client junk reply d) = read_more sendok h es y"
      "sound y" "window 0 y = ?bs" by metis
  have "parse_loop h 0 (y\<lparr>x_rlen := 0\<rparr>) = Fault OutOfBounds"
    by (rule flood_overruns [where m = n])
       (use y assms(3) in \<open>simp_all add: sound_def window_def\<close>)
  then show ?thesis using y(1) by (simp add: read_more.simps [of _ h es y])
qed

text \<open>As soon as the header of a shift that is too large is there, the parser fails an assertion.\<close>

lemma oversize_shift_aborts:
  assumes "length junk = 10000" and "length reply = 16384"
    and "unat bits + 7 < 2 ^ 32" and "10000 < 10 + 2 * vec_bytes bits" and "length bs \<le> 9990"
  shows "read_more sendok h (Data (bytes_of ''shift:'' @ set_uint_le 4 bits @ bs) # es)
           (new_client junk reply d) = Fault AssertFailed"
proof -
  let ?bs = "bytes_of ''shift:'' @ set_uint_le 4 bits @ bs"
  have len: "length ?bs = 10 + length bs" by (simp add: bytes_of_def)
  have "0 < length ?bs" "length ?bs \<le> 10000" using len assms(5) by linarith+
  from first_packet [OF assms(1,2) this, of sendok h es d] obtain y0 where
    y0: "read_more sendok h (Data ?bs # es) (new_client junk reply d) = read_more sendok h es y0"
      "sound y0" "window 0 y0 = ?bs" "unat (x_len y0) = length ?bs" by metis
  define y where "y = y0\<lparr>x_rlen := 0\<rparr>"
  have y: "length (x_buf y) = 10000" "unat (x_len y) = 10 + length bs" "window 0 y = ?bs"
    using y0 len by (simp_all add: y_def sound_def window_def)
  have xlen: "unat (x_len y) \<le> length (x_buf y)" using y assms(5) by simp
  have W: "window 0 y @ [] = enc (Shift bits bs []) @ []" using y(3) by simp
  have turn: "parse_turn h 0 y = do_shift h 0 6 y"
    using parse_turn_commands(3) [OF xlen _ W, where h = h] y(2) xlen by (simp add: len)
  have "slice 6 4 (x_buf y) = slice 6 4 (window 0 y)"
    using slice_window [of 0 6 4 y] y(2) by simp
  also have "\<dots> = set_uint_le 4 bits" by (simp add: y(3) slice_def bytes_of_def)
  finally have "get_uint_le (drop 6 (x_buf y)) 4 = bits"
    using get_set_uint_le [of bits] get_uint_le_take [of 4 4 "drop 6 (x_buf y)"]
    by (simp add: slice_def)
  moreover have "unat ((bits + 7) div 8) = vec_bytes bits"
    using assms(3) by (simp add: word_div_8 vec_bytes_def)
  moreover have "\<not> unat (x_len y) < 6 + 4" "\<not> length (x_buf y) < 6 + 4"
    "unat (x_len y) < 6 + 4 + vec_bytes bits * 2" "\<not> 6 + 4 + vec_bytes bits * 2 - 0 \<le> length (x_buf y)"
    using y(1,2) assms(4,5) by linarith+
  ultimately have "do_shift h 0 6 y = Fault AssertFailed" unfolding do_shift_def Let_def by simp
  then have "parse_loop h 0 y = Fault AssertFailed" using turn by (simp add: parse_loop.simps [of h 0 y])
  then show ?thesis using y0(1) by (simp add: read_more.simps [of _ h es y0] y_def)
qed

text \<open>
  C19. Two packets from the network break the server. 781 getinfo requests or more in one
  packet make it write beyond its reply buffer; a shift request whose announced vectors do
  not fit the receive buffer stops it by a failed assertion.
\<close>

theorem xvc_hostile_packets:
  assumes "length junk = 10000" and "length reply = 16384"
  shows "(781 \<le> n \<and> n \<le> 1250 \<longrightarrow>
      read_more sendok h (Data (concat (replicate n (bytes_of ''getinfo:''))) # es)
        (new_client junk reply d) = Fault OutOfBounds) \<and>
    (unat bits + 7 < 2 ^ 32 \<and> 10000 < 10 + 2 * vec_bytes bits \<and> length bs \<le> 9990 \<longrightarrow>
      read_more sendok h (Data (bytes_of ''shift:'' @ set_uint_le 4 bits @ bs) # es)
        (new_client junk reply d) = Fault AssertFailed)"
  by (auto intro: getinfo_flood [OF assms] oversize_shift_aborts [OF assms])

theorem xvc_hostile_packets_witness:
  "(read_more (\<lambda>_. True) (axi_handlers (undefined :: nat mmio))
      [Data (concat (replicate 1000 (bytes_of ''getinfo:'')))]
      (new_client (replicate 10000 0) (replicate 16384 0) 0) = Fault OutOfBounds) \<and>
   (read_more (\<lambda>_. True) (axi_handlers (undefined :: nat mmio))
      [Data (bytes_of ''shift:'' @ set_uint_le 4 40000 @ [])]
      (new_client (replicate 10000 0) (replicate 16384 0) 0) = Fault AssertFailed)"
  using xvc_hostile_packets [of "replicate 10000 0" "replicate 16384 0" 1000 "\<lambda>_. True"
      "axi_handlers (undefined :: nat mmio)" "[]" 0 40000 "[]"]
  by (simp add: vec_bytes_def)

text \<open>
  C20. An error of recv is not noticed: its value is kept in an unsigned variable, so the
  connection is not closed, the number of bytes in the empty buffer becomes \<open>2 ^ 32 - 1\<close>, and
  the parser works on what the buffer held before. A settck request that was executed and
  dropped before, and that the buffer still holds, is executed again.
\<close>

theorem xvc_recv_error_replays:
  assumes "x_len x = 0" and "length (x_buf x) = 10000" and "length (x_reply x) = 16384"
    and "take 11 (x_buf x) = enc (SetTck n)" and "\<not> x_pending x"
  shows "read_more sendok h (RecvError # es) x = read_more sendok h es (x\<lparr>x_rlen := 0, x_len := 2 ^ 32 - 1\<rparr>) \<and>
    parse_turn h 0 (x\<lparr>x_rlen := 0, x_len := 2 ^ 32 - 1\<rparr>) =
      Ok (TNext 11) (x\<lparr>x_len := 2 ^ 32 - 1, x_rlen := 4,
        x_reply := patch 0 (set_uint_le 4 (ucast (set_tck h (ucast n)))) (x_reply x)\<rparr>)"
proof
  let ?y = "x\<lparr>x_rlen := 0, x_len := 2 ^ 32 - 1\<rparr>" and ?x = "x\<lparr>x_rlen := 0\<rparr>"
  have "parse_turn h 0 ?x = Ok TFill ?x"
    using assms(1) by (simp add: parse_turn_def scan_colon.simps Let_def)
  then have "parse_loop h 0 ?x = Ok (Some (0, True)) ?x" by (simp add: parse_loop.simps [of h 0])
  moreover have m1: "(- 1 :: u32) = 4294967295" by simp
  ultimately show "read_more sendok h (RecvError # es) x = read_more sendok h es ?y"
    using assms(1) by (simp add: read_more.simps [of _ h _ x] send_reply_def recv_def m1)
  obtain bs where buf: "x_buf x = enc (SetTck n) @ bs"
    using assms(4) append_take_drop_id [of 11 "x_buf x"] by metis
  have "scan_colon (x_buf x) 0 30 = Some (0 + length (takeWhile (\<lambda>b. b \<noteq> 58) (slice 0 (30 - 0) (x_buf x))))"
    by (rule scan_colon_eq) (simp_all add: assms(2))
  then have scan: "scan_colon (x_buf x) 0 30 = Some 6"
    by (simp add: buf slice_def bytes_of_def)
  have name: "slice 0 7 (x_buf x) = bytes_of ''settck:''"
    by (simp add: buf slice_def bytes_of_def)
  have "take 4 (drop 7 (x_buf x)) = set_uint_le 4 n" by (simp add: buf bytes_of_def)
  then have "get_uint_le (drop 7 (x_buf x)) 4 = n"
    using get_set_uint_le [of n] get_uint_le_take [of 4 4 "drop 7 (x_buf x)"] by simp
  then have cmd: "do_settck h 7 ?y = Ok (TNext 11) (x\<lparr>x_len := 2 ^ 32 - 1, x_rlen := 4,
        x_reply := patch 0 (set_uint_le 4 (ucast (set_tck h (ucast n)))) (x_reply x)\<rparr>)"
    using assms(2,3,5) by (simp add: do_settck_def store_reply_def Let_def)
  have "unat (x_len ?y) = 4294967295" by simp
  then have "parse_turn h 0 ?y = do_settck h 7 ?y"
    using scan name by (simp add: parse_turn_def Let_def bytes_of_def)
  then show "parse_turn h 0 ?y = Ok (TNext 11) (x\<lparr>x_len := 2 ^ 32 - 1, x_rlen := 4,
        x_reply := patch 0 (set_uint_le 4 (ucast (set_tck h (ucast n)))) (x_reply x)\<rparr>)"
    using cmd by simp
qed

theorem xvc_recv_error_replays_witness:
  "\<exists>x :: nat xvc. read_more (\<lambda>_. True) (axi_handlers undefined) [RecvError] x =
     read_more (\<lambda>_. True) (axi_handlers undefined) [] (x\<lparr>x_rlen := 0, x_len := 2 ^ 32 - 1\<rparr>)"
proof -
  let ?x = "new_client (enc (SetTck 100) @ replicate 9989 0) (replicate 16384 0) 0 :: nat xvc"
  have "read_more (\<lambda>_. True) (axi_handlers undefined) [RecvError] ?x =
     read_more (\<lambda>_. True) (axi_handlers undefined) [] (?x\<lparr>x_rlen := 0, x_len := 2 ^ 32 - 1\<rparr>)"
    by (rule xvc_recv_error_replays [where n = 100, THEN conjunct1])
       (simp_all add: new_client_def bytes_of_def)
  then show ?thesis by blast
qed

section \<open>The reply buffer, the URL and the options\<close>

text \<open>
  The growth of the reply buffer returns the first power of two that is large enough
  when the size asked for is at most \<open>2 ^ 31\<close>, and never returns for a larger one: the doubled
  size wraps to 0. The server asks for 10000 bytes and gets 16384, once.
\<close>

theorem xvc_reply_buf_size:
  assumes "k \<le> 31" and "2 ^ k < b"
  shows "(b \<le> 2 ^ 31 \<longrightarrow> (\<exists>j. k < j \<and> j \<le> 31 \<and> reply_buf_size (2 ^ k) b = Some (2 ^ j) \<and>
           unat b \<le> 2 ^ j \<and> 2 ^ (j - 1) < unat b)) \<and>
         (2 ^ 31 < b \<longrightarrow> reply_buf_size (2 ^ k) b = None) \<and>
         reply_buf_size 0 MAX_PACKET_LEN = Some 16384"
proof (intro conjI impI)
  have nz: "(2 :: u32) ^ k \<noteq> 0" using unat_pow2 [OF assms(1)] by (metis power_not_zero unat_0 zero_neq_numeral)
  have size: "reply_buf_size (2 ^ k) b = reply_grow (2 ^ k) b"
    using assms(2) nz by (simp add: reply_buf_size_def)
  show "reply_buf_size (2 ^ k) b = None" if "2 ^ 31 < b"
    using reply_grow_never [OF assms(1) that] size by simp
  show "reply_buf_size 0 MAX_PACKET_LEN = Some 16384" by (rule reply_buf_first)
  assume "b \<le> 2 ^ 31"
  then have top: "unat b \<le> 2 ^ 31" by (simp add: word_le_nat_alt)
  define j where "j = (LEAST j. unat b \<le> 2 ^ j)"
  have j: "unat b \<le> 2 ^ j" "j \<le> 31"
    unfolding j_def using top by (rule LeastI [of _ 31], rule Least_le)
  have low: "2 ^ k < unat b" using assms unat_pow2 by (simp add: word_less_nat_alt)
  then have "(2 :: nat) ^ k < 2 ^ j" using j(1) by linarith
  then have kj: "k < j" by simp
  then have "\<not> unat b \<le> 2 ^ (j - 1)"
    unfolding j_def using not_less_Least [of "j - 1" "\<lambda>j. unat b \<le> 2 ^ j"] by (simp add: j_def)
  then have "2 ^ (j - 1) < unat b" by simp
  moreover have "reply_grow (2 ^ k) b = Some (2 ^ j)"
    by (rule reply_grow_power) (use kj j calculation in simp_all)
  ultimately show "\<exists>j. k < j \<and> j \<le> 31 \<and> reply_buf_size (2 ^ k) b = Some (2 ^ j) \<and>
           unat b \<le> 2 ^ j \<and> 2 ^ (j - 1) < unat b"
    using kj j size by auto
qed

theorem xvc_reply_buf_size_witness:
  "\<exists>j. 4 < j \<and> j \<le> 31 \<and> reply_buf_size 16 100 = Some (2 ^ j) \<and> (100 :: nat) \<le> 2 ^ j \<and> (2 :: nat) ^ (j - 1) < 100"
  using xvc_reply_buf_size [of 4 100] by simp

text \<open>
  C22. Both forms of the server's URL are read back: transport, host and port with the
  transport tcp in any case, and host and port without it (unless the host is itself called
  tcp); no field that is read contains the separator.
\<close>

theorem xvc_url_fields:
  assumes "CHR '':'' \<notin> set host" and "CHR '':'' \<notin> set port"
  shows "(is_tcp tr \<longrightarrow> parse_url (tr @ '':'' @ host @ '':'' @ port) = Some (host, port)) \<and>
    (\<not> is_tcp host \<longrightarrow> parse_url (host @ '':'' @ port) = Some (host, port)) \<and>
    (\<forall>hst prt. parse_url url = Some (hst, prt) \<longrightarrow> CHR '':'' \<notin> set hst \<and> CHR '':'' \<notin> set prt)"
  using assms parse_url_tcp parse_url_plain parse_url_fields by blast

theorem xvc_url_fields_witness:
  "parse_url ''TcP:board:2542'' = Some (''board'', ''2542'')"
  using xvc_url_fields [of "''board''" "''2542''" "''TcP''" "''''"] by (simp add: is_tcp_def)

lemma main_maps:
  assumes "unat addr < 2 ^ 63" and "unat base + 4096 < 2 ^ 64"
  shows "\<exists>mp. xvc_main True remap base [''-s'', url, ''-a'', print_nat 16 (unat addr)] = Inr (url, mp) \<and>
    (if remap \<and> addr AND page_mask = 0
     then \<exists>m. mp = Some m \<and> map_va m = base \<and>
            (\<forall>k < 0x1000. translate m (map_va m + k) = Some (addr + k)) \<and>
            translate m (map_va m + 0x1000) = None
     else mp = None)"
proof -
  have "word_of_int (strtol16 (print_nat 16 (unat addr))) = addr"
    using assms(1) by (simp add: strtol16_printed)
  then have run: "xvc_main True remap base [''-s'', url, ''-a'', print_nat 16 (unat addr)] =
      Inr (url, mmap_regs remap base 0x1000 (addr - 0xA0000000))"
    by (simp add: xvc_main_def default_opts_def)
  have al: "(addr - 0xA0000000) AND page_mask = 0 \<longleftrightarrow> addr AND page_mask = 0"
    using aligned_add [of "addr - 0xA0000000" "0xA0000000"] aligned_add [of addr "- 0xA0000000"]
    by (auto simp: page_simps)
  show ?thesis
  proof (cases "mmap_regs remap base 0x1000 (addr - 0xA0000000)")
    case None
    then show ?thesis using run al mmap_regs_eq [of remap base "0x1000" "addr - 0xA0000000"] by auto
  next
    case (Some m)
    then have "remap \<and> addr AND page_mask = 0" using al by (simp add: mmap_regs_eq)
    moreover have "translate m (map_va m + k) = Some (addr + k)" if "k < 0x1000" for k
      using regs.map_block [OF Some] assms(2) that by simp
    ultimately show ?thesis
      using run Some regs.map_va_base [OF Some] regs.map_block_end [OF Some] by auto
  qed
qed

text \<open>
  C23. Started with the address of the debug bridge in hexadecimal, the program serves the URL
  it was given on a mapping that puts the bridge's 4096 bytes of registers at the mapped base,
  when the address starts a page; when it does not, or the driver refuses, the failed mapping
  is not noticed and the server is started without one. Any other option than the four, a
  misspelt one included, ends the program with the exit code of success.
\<close>

theorem xvc_main_maps:
  assumes "unat addr < 2 ^ 63" and "unat base + 4096 < 2 ^ 64"
  shows "(\<exists>mp. xvc_main True remap base [''-s'', url, ''-a'', print_nat 16 (unat addr)] = Inr (url, mp) \<and>
    (if remap \<and> addr AND page_mask = 0
     then \<exists>m. mp = Some m \<and> map_va m = base \<and>
            (\<forall>k < 0x1000. translate m (map_va m + k) = Some (addr + k)) \<and>
            translate m (map_va m + 0x1000) = None
     else mp = None)) \<and>
    (opt \<notin> {''-s'', ''-a'', ''-d'', ''-v''} \<longrightarrow> xvc_main ok remap base (opt # args) = Inl 0)"
  using main_maps [OF assms] by (simp add: xvc_main_def)

theorem xvc_main_maps_witness:
  "\<exists>m. xvc_main True True 0x7000 [''-s'', ''tcp::1'', ''-a'', print_nat 16 0xA0010000] = Inr (''tcp::1'', Some m) \<and>
     translate m 0x7010 = Some 0xA0010010"
proof -
  obtain m where "xvc_main True True 0x7000 [''-s'', ''tcp::1'', ''-a'', print_nat 16 0xA0010000] =
      Inr (''tcp::1'', Some m)" "map_va m = 0x7000"
    "\<forall>k < 0x1000. translate m (map_va m + k) = Some (0xA0010000 + k)"
    using xvc_main_maps [of "0xA0010000" "0x7000" True "''tcp::1''" "''-x''" True "[]"] by (auto simp: page_simps)
  moreover from this(2,3) have "translate m 0x7010 = Some 0xA0010010"
    by (auto dest: spec [of _ "0x10"])
  ultimately show ?thesis by blast
qed

end
