(* ===== verification/Poke.thy ===== *)
theory Poke
  imports Axiregs CStrings
begin

text \<open>
  The command line tools poke/poke.c and poke/dpoke.c, which read or write one register
  through the axiregs driver.
\<close>

section \<open>The programs\<close>

text \<open>
  What the operating system answers: the descriptor open returns, whether the driver's
  remapping works, and where the mapping is placed.
\<close>

record poke_env =
  pk_fd :: int
  pk_remap :: bool
  pk_base :: u64

datatype poke_msg =
    Usage | BadAddress string | OutOfRange | Unaligned | BadData string | ReadIn u32
  | OpenFailed | MmapFailed | ReadBack u32

definition poke_parse_addr :: "string \<Rightarrow> poke_msg + u64" where
  "poke_parse_addr arg =
     (case sscanf_lx arg of
        None \<Rightarrow> Inl (BadAddress arg)
      | Some addr \<Rightarrow>
          if addr < 0xA0000000 \<or> addr > 0xA0FFFFFF then Inl OutOfRange
          else if addr AND 3 \<noteq> 0 then Inl Unaligned
          else Inr addr)"

text \<open>Step 2 of both programs: map the page of the register, access it, read it back.\<close>

definition poke_access :: "poke_env \<Rightarrow> 'd physmem \<Rightarrow> u64 \<Rightarrow> u32 option \<Rightarrow> 'd \<Rightarrow>
    (int \<times> poke_msg list, 'd) outcome" where
  "poke_access env pm addr data d =
     (if pk_fd env < 0 then Ok (- 1, [OpenFailed]) d
      else
        let pg_aligned = (addr OR 0xFFF) - 0xFFF;
            pg_off = addr AND 0xFFF in
        case mmap_regs (pk_remap env) (pk_base env) 4096 (pg_aligned - 0xA0000000) of
          None \<Rightarrow> Ok (- 1, [MmapFailed]) d
        | Some m \<Rightarrow>
            obind (case data of
                     None \<Rightarrow> Ok () d
                   | Some v \<Rightarrow> store pm m (pk_base env + pg_off) v d)
              (\<lambda>_ d1. obind (load pm m (pk_base env + pg_off) d1)
                 (\<lambda>res d2. Ok (0, [ReadBack res]) d2)))"

text \<open>\<open>argv\<close> is without the program's name; the result is the exit code and what is printed.\<close>

definition poke_main :: "poke_env \<Rightarrow> 'd physmem \<Rightarrow> string list \<Rightarrow> 'd \<Rightarrow>
    (int \<times> poke_msg list, 'd) outcome" where
  "poke_main env pm argv d =
     (if length argv \<noteq> 1 \<and> length argv \<noteq> 2 then Ok (0, [Usage]) d
      else
        case poke_parse_addr (argv ! 0) of
          Inl e \<Rightarrow> Ok (- 1, [e]) d
        | Inr addr \<Rightarrow>
            if length argv = 2 then
              (case sscanf_x (argv ! 1) of
                 None \<Rightarrow> Ok (- 1, [BadData (argv ! 1)]) d
               | Some data \<Rightarrow> poke_access env pm addr (Some data) d)
            else poke_access env pm addr None d)"

definition dpoke_main :: "poke_env \<Rightarrow> 'd physmem \<Rightarrow> string list \<Rightarrow> 'd \<Rightarrow>
    (int \<times> poke_msg list, 'd) outcome" where
  "dpoke_main env pm argv d =
     (if length argv \<noteq> 1 \<and> length argv \<noteq> 2 then Ok (0, [Usage]) d
      else
        case poke_parse_addr (argv ! 0) of
          Inl e \<Rightarrow> Ok (- 1, [e]) d
        | Inr addr \<Rightarrow>
            if length argv = 2 then
              (case sscanf_u (argv ! 1) of
                 None \<Rightarrow> Ok (- 1, [BadData (argv ! 1)]) d
               | Some data \<Rightarrow>
                   obind (poke_access env pm addr (Some data) d)
                     (\<lambda>(rc, msgs) d1. Ok (rc, ReadIn data # msgs) d1))
            else poke_access env pm addr None d)"

section \<open>Lemmas\<close>

lemma poke_page: "(addr OR 0xFFF) - 0xFFF = page_start addr" "addr AND 0xFFF = addr AND page_mask"
  by (simp_all add: page_start_def page_simps)

text \<open>With a working device, the access is to the physical address asked for.\<close>

lemma poke_access_run:
  assumes "0 \<le> pk_fd env" and "pk_remap env" and "unat (pk_base env) + 4096 < 2 ^ 64"
    and "addr AND 3 = 0"
  shows "poke_access env pm addr data d =
    (let d1 = (case data of None \<Rightarrow> d | Some v \<Rightarrow> pm_write pm addr v d);
         (res, d2) = pm_read pm addr d1 in
     Ok (0, [ReadBack res]) d2)"
proof -
  have "(page_start addr - 0xA0000000) AND page_mask = 0"
  proof -
    have "page_start addr AND page_mask = 0" by (simp add: aligned_iff unat_page_start)
    moreover have "(- 0xA0000000 :: u64) AND page_mask = 0" by (simp add: page_simps)
    ultimately have "(page_start addr + - 0xA0000000) AND page_mask = 0" by (rule aligned_add)
    then show ?thesis by simp
  qed
  then obtain m where m: "mmap_regs True (pk_base env) PAGE_SIZE (page_start addr - 0xA0000000) = Some m"
    by (simp add: mmap_regs_eq)
  have "access_addr m (pk_base env + (addr AND page_mask)) = Inr addr"
    by (rule regs.map_page_access [OF m assms(3,4)])
  with m assms(1,2) show ?thesis
    unfolding poke_access_def poke_page
    by (simp add: page_simps store_def load_def split_beta Let_def split: option.splits)
qed

lemma poke_parse_addr_Inr:
  "poke_parse_addr arg = Inr addr \<longleftrightarrow>
     sscanf_lx arg = Some addr \<and> 0xA0000000 \<le> addr \<and> addr \<le> 0xA0FFFFFF \<and> addr AND 3 = 0"
  by (auto simp: poke_parse_addr_def not_less split: option.splits)

end
