(* ===== verification/Sysfs.thy ===== *)
theory Sysfs
  imports CStrings
begin

text \<open>
  The contract of a sysfs attribute that can be read and written: the interface
  \<open>sysfs_attr\<close>. The drivers uio_with_sysfs/axidma_module.c and mpsoc_PSRegs.c provide it.
\<close>

text \<open>
  \<open>val\<close> is the value behind the file, \<open>busy\<close> the states in which the driver refuses to change
  it and \<open>ok\<close> the driver's invariant.
\<close>

locale sysfs_attr =
  fixes show_attr :: "'s \<Rightarrow> string"
    and store_attr :: "string \<Rightarrow> 's \<Rightarrow> 's"
    and val :: "'s \<Rightarrow> 'v"
    and busy :: "'s \<Rightarrow> bool"
    and ok :: "'s \<Rightarrow> bool"
  assumes show_val: "val s = val t \<Longrightarrow> show_attr s = show_attr t"
    and store_shown: "ok s \<Longrightarrow> ok t \<Longrightarrow> \<not> busy t \<Longrightarrow> val (store_attr (show_attr s) t) = val s"
    and store_busy: "busy s \<Longrightarrow> store_attr buf s = s"
    and store_ok: "ok s \<Longrightarrow> ok (store_attr buf s)"
    and busy_store: "busy (store_attr buf s) = busy s"
begin

lemma stores_ok: "ok s \<Longrightarrow> ok (fold store_attr bufs s)"
  by (induction bufs arbitrary: s) (auto intro: store_ok)

lemma busy_stores: "busy (fold store_attr bufs s) = busy s"
  by (induction bufs arbitrary: s) (auto simp: busy_store)

text \<open>What was read can be written back later, whatever was written in between.\<close>

lemma restore:
  assumes "ok s" and "\<not> busy s"
  shows "show_attr (store_attr (show_attr s) (fold store_attr bufs s)) = show_attr s"
  using assms by (intro show_val store_shown) (auto simp: stores_ok busy_stores)

lemma stores_busy: "busy s \<Longrightarrow> fold store_attr bufs s = s"
  by (induction bufs) (auto simp: store_busy)

end

end
