(* ===== verification/PSRegs.thy ===== *)
theory PSRegs
  imports Sysfs
begin

text \<open>
  The driver drivers/mpsoc_PSRegs/mpsoc_PSRegs.c: the four clocks of the programmable logic,
  each a register with an enable bit and a divider, behind the sysfs files "enable" and
  "frequency". Signed C integers are \<open>int\<close> where they are compared and divided (the
  difference of frequencies wraps like the kernel's arithmetic) and words where they are
  masked.
\<close>

section \<open>Data\<close>

definition CLK_BASE :: u64 where "CLK_BASE = 0xFF5E0000"
definition PLCLK :: "nat \<Rightarrow> u64" where "PLCLK i = 0xC0 + 4 * of_nat i"
definition ENABLE_MASK :: u32 where "ENABLE_MASK = 0x01000000"
definition ENABLE_MASK_INV :: u32 where "ENABLE_MASK_INV = 0xFEFFFFFF"
definition ENABLE_AWAYS_TRUE :: u32 where "ENABLE_AWAYS_TRUE = 0x00010002"
definition ENABLE_AWAYS_TRUE_INV :: u32 where "ENABLE_AWAYS_TRUE_INV = 0xFFC0FFFD"
definition FREQ_MASK :: u32 where "FREQ_MASK = 0x00003F00"

text \<open>The constant has nine hexadecimal digits: as a C constant it is an unsigned long.\<close>

definition FREQ_MASK_INV :: u64 where "FREQ_MASK_INV = 0xFFFFFC0FF"

definition base_freq :: int where "base_freq = 800"

text \<open>\<open>clk_virt\<close> is what ioremap_nocache returned: \<open>None\<close> is NULL, \<open>Some pa\<close> maps \<open>pa\<close>.\<close>

record plclk =
  clk_hex :: u32
  clk_freq :: int
  clk_ena :: int
  clk_virt :: "u64 option"

text \<open>The registers, and the clock's register in them.\<close>

type_synonym regs = "u64 \<Rightarrow> u32"

definition writel :: "u32 \<Rightarrow> u64 option \<Rightarrow> regs \<Rightarrow> (unit, regs) outcome" where
  "writel v virt r = (case virt of None \<Rightarrow> Fault NullDeref | Some pa \<Rightarrow> Ok () (r(pa := v)))"

definition readl :: "u64 option \<Rightarrow> regs \<Rightarrow> (u32, regs) outcome" where
  "readl virt r = (case virt of None \<Rightarrow> Fault NullDeref | Some pa \<Rightarrow> Ok (r pa) r)"

section \<open>Choosing the divider\<close>

definition s32 :: "int \<Rightarrow> int" where
  "s32 i = sint (word_of_int i :: u32)"

definition freq_distance :: "int \<Rightarrow> int \<Rightarrow> int" where
  "freq_distance freq i = s32 \<bar>s32 (base_freq div i - freq)\<bar>"

fun freq_find_loop :: "int \<Rightarrow> int list \<Rightarrow> int \<times> int \<Rightarrow> int \<times> int" where
  "freq_find_loop freq [] (minIndex, mn) = (minIndex, mn)"
| "freq_find_loop freq (i # is) (minIndex, mn) =
     freq_find_loop freq is
       (if mn > freq_distance freq i then (i, freq_distance freq i) else (minIndex, mn))"

definition freq_find :: "int \<Rightarrow> int" where
  "freq_find freq = fst (freq_find_loop freq [1..32] (32, 9999))"

section \<open>The sysfs files\<close>

definition ena_show :: "plclk \<Rightarrow> string" where
  "ena_show clk = print_int (clk_ena clk) @ newline"

text \<open>
  A store reads a number from the buffer and leaves the clock alone when there is none; it
  returns the number of bytes written in every case.
\<close>

definition ena_hex :: "u32 \<Rightarrow> int \<Rightarrow> u32" where
  "ena_hex hex ena =
     (((hex AND ENABLE_MASK_INV) OR (push_bit 24 (word_of_int ena) AND ENABLE_MASK))
        AND ENABLE_AWAYS_TRUE_INV) OR ENABLE_AWAYS_TRUE"

definition ena_store :: "string \<Rightarrow> plclk \<Rightarrow> regs \<Rightarrow> (nat, plclk \<times> regs) outcome" where
  "ena_store buf clk r =
     (case ksscanf_d buf of
        None \<Rightarrow> Ok (length buf) (clk, r)
      | Some enatmp \<Rightarrow>
          let ena = (if enatmp \<noteq> 0 then 1 else 0);
              clk1 = clk\<lparr>clk_ena := ena, clk_hex := ena_hex (clk_hex clk) ena\<rparr> in
          obind (writel (clk_hex clk1) (clk_virt clk1) r)
            (\<lambda>_ r1. Ok (length buf) (clk1, r1)))"

definition freq_show :: "plclk \<Rightarrow> string" where
  "freq_show clk = print_int (clk_freq clk) @ '' MHz'' @ newline"

definition freq_hex :: "u32 \<Rightarrow> int \<Rightarrow> u32" where
  "freq_hex hex divider =
     ucast (((scast hex :: u64) AND FREQ_MASK_INV) OR
            ucast (push_bit 8 (word_of_int divider) AND FREQ_MASK))"

definition freq_store :: "string \<Rightarrow> plclk \<Rightarrow> regs \<Rightarrow> (nat, plclk \<times> regs) outcome" where
  "freq_store buf clk r =
     (case ksscanf_d buf of
        None \<Rightarrow> Ok (length buf) (clk, r)
      | Some freqtmp \<Rightarrow>
          let divider = freq_find freqtmp;
              clk1 = clk\<lparr>clk_freq := base_freq div divider,
                         clk_hex := freq_hex (clk_hex clk) divider\<rparr> in
          obind (writel (clk_hex clk1) (clk_virt clk1) r)
            (\<lambda>_ r1. Ok (length buf) (clk1, r1)))"

section \<open>Loading the module\<close>

text \<open>
  \<open>base_freq / ((hex & FREQ_MASK) >> 8)\<close> is an unsigned division. The enable field of the new
  clock is all of the upper byte of the register, with its sign.
\<close>

definition read_clock :: "u64 option \<Rightarrow> regs \<Rightarrow> (plclk, regs) outcome" where
  "read_clock virt r =
     obind (readl virt r) (\<lambda>hex r1.
       let d = drop_bit 8 (hex AND FREQ_MASK) in
       if d = 0 then Fault DivByZero
       else Ok \<lparr>clk_hex = hex, clk_freq = uint (word_of_int base_freq div d),
                clk_ena = sint (signed_drop_bit 24 hex), clk_virt = virt\<rparr> r1)"

text \<open>
  The loop over the clocks: \<open>files\<close> are the results of the two sysfs_create_file calls of
  each clock; a failure returns at once and leaves everything as it is.
\<close>

fun init_clocks :: "(u64 option \<times> int \<times> int) list \<Rightarrow> plclk list \<Rightarrow> regs \<Rightarrow>
    (int, plclk list \<times> regs) outcome" where
  "init_clocks [] cs r = Ok 0 (cs, r)"
| "init_clocks ((virt, ret1, ret2) # vs) cs r =
     obind (read_clock virt r) (\<lambda>c r1.
       if ret1 \<noteq> 0 then Ok ret1 (cs @ [c], r1)
       else if ret2 \<noteq> 0 then Ok ret2 (cs @ [c], r1)
       else init_clocks vs (cs @ [c]) r1)"

text \<open>\<open>remap\<close> says which of the four ioremap calls work.\<close>

definition mpsoc_psregs_init :: "(nat \<Rightarrow> bool) \<Rightarrow> (nat \<Rightarrow> int \<times> int) \<Rightarrow> regs \<Rightarrow>
    (int, plclk list \<times> regs) outcome" where
  "mpsoc_psregs_init remap files r =
     init_clocks
       (map (\<lambda>i. (if remap i then Some (CLK_BASE + PLCLK i) else None, files i)) [0..<4]) [] r"

text \<open>Unloading unmaps the four registers; the kobjects are not part of the state.\<close>

definition mpsoc_psregs_exit :: "plclk list \<Rightarrow> plclk list" where
  "mpsoc_psregs_exit cs = map (\<lambda>c. c\<lparr>clk_virt := None\<rparr>) cs"

section \<open>The divider\<close>

text \<open>The loop finds the first index with the smallest distance below the initial bound.\<close>

lemma freq_find_loop_min:
  "freq_find_loop f is (k, m) = (k', m') \<Longrightarrow>
     m' \<le> m \<and> (\<forall>i \<in> set is. m' \<le> freq_distance f i) \<and>
     (m' = m \<and> k' = k \<or> k' \<in> set is \<and> m' = freq_distance f k' \<and> m' < m)"
proof (induction "is" arbitrary: k m)
  case (Cons i "is")
  let ?p = "if m > freq_distance f i then (i, freq_distance f i) else (k, m)"
  obtain k1 m1 where p: "?p = (k1, m1)" by fastforce
  with Cons.prems have "freq_find_loop f is (k1, m1) = (k', m')" by simp
  from Cons.IH [OF this] p show ?case by (auto split: if_splits)
qed simp

lemma freq_find_loop_far:
  "(\<forall>i \<in> set is. m \<le> freq_distance f i) \<Longrightarrow> freq_find_loop f is (k, m) = (k, m)"
  by (induction "is") (auto simp: not_less [symmetric] split: if_splits)

lemma freq_find_range: "1 \<le> freq_find f \<and> freq_find f \<le> 32"
proof -
  obtain k m where km: "freq_find_loop f [1..32] (32, 9999) = (k, m)" by fastforce
  from freq_find_loop_min [OF this] have "k = 32 \<or> k \<in> set [1..32]" by auto
  then show ?thesis using km by (auto simp: freq_find_def)
qed

lemma freq_find_best:
  assumes "j \<in> {1..32}" and "freq_distance f j < 9999" and "i \<in> {1..32}"
  shows "freq_distance f (freq_find f) \<le> freq_distance f i"
proof -
  obtain k m where km: "freq_find_loop f [1..32] (32, 9999) = (k, m)" by fastforce
  note min = freq_find_loop_min [OF km]
  have "m \<le> freq_distance f j" using min assms(1) by simp
  with assms(2) have "m < 9999" by simp
  with min have "m = freq_distance f k" by auto
  then show ?thesis using min assms(3) km by (auto simp: freq_find_def)
qed

lemma s32_id: "- (2 ^ 31) \<le> i \<Longrightarrow> i < 2 ^ 31 \<Longrightarrow> s32 i = i"
  by (simp add: s32_def sint_sbintrunc' signed_take_bit_int_eq_self)

lemma div_base_freq: "i \<in> {1..32} \<Longrightarrow> 25 \<le> base_freq div i \<and> base_freq div i \<le> 800"
proof -
  assume i: "i \<in> {1..32}"
  have "base_freq div i \<le> base_freq div 1" unfolding base_freq_def using i by (intro zdiv_mono2) auto
  moreover have "800 div 32 \<le> base_freq div i"
    unfolding base_freq_def using i by (intro zdiv_mono2) auto
  ultimately show ?thesis by (simp add: base_freq_def)
qed

text \<open>Without overflow the distance is the distance.\<close>

lemma freq_distance_eq:
  assumes "- (2 ^ 31) + 801 \<le> f" and "f < 2 ^ 31" and "i \<in> {1..32}"
  shows "freq_distance f i = \<bar>base_freq div i - f\<bar>"
proof -
  have d: "25 \<le> base_freq div i" "base_freq div i \<le> 800" using div_base_freq [OF assms(3)] by auto
  then have "s32 (base_freq div i - f) = base_freq div i - f"
    using assms(1,2) by (intro s32_id) simp_all
  moreover have "s32 \<bar>base_freq div i - f\<bar> = \<bar>base_freq div i - f\<bar>"
    using assms(1,2) d by (intro s32_id) (simp_all add: abs_if)
  ultimately show ?thesis by (simp add: freq_distance_def)
qed

section \<open>The fields of the register\<close>

lemma FREQ_MASK_bits: "bit FREQ_MASK n \<longleftrightarrow> 8 \<le> n \<and> n < 14"
proof -
  have eq: "FREQ_MASK = push_bit 8 (mask 6)" by (simp add: FREQ_MASK_def mask_eq_exp_minus_1)
  show ?thesis
    unfolding eq bit_push_bit_iff bit_and_iff bit_or_iff bit_not_iff bit_mask_iff bit_1_iff
    by (auto simp: possible_bit_word)
qed

lemma FREQ_MASK_INV_bits: "bit FREQ_MASK_INV n \<longleftrightarrow> n < 36 \<and> \<not> (8 \<le> n \<and> n < 14)"
proof -
  have eq: "FREQ_MASK_INV = mask 36 AND NOT (push_bit 8 (mask 6))"
    by (simp add: FREQ_MASK_INV_def mask_eq_exp_minus_1)
  show ?thesis
    unfolding eq bit_push_bit_iff bit_and_iff bit_or_iff bit_not_iff bit_mask_iff bit_1_iff
    by (auto simp: possible_bit_word)
qed

text \<open>A new divider changes the divider field only.\<close>

lemma freq_hex_bit:
  assumes "n < 32"
  shows "bit (freq_hex hex d) n =
    (if 8 \<le> n \<and> n < 14 then bit (word_of_int d :: u32) (n - 8) else bit hex n)"
  using assms by (auto simp: freq_hex_def bit_simps FREQ_MASK_bits FREQ_MASK_INV_bits)

definition divider_field :: "u32 \<Rightarrow> u32" where
  "divider_field hex = drop_bit 8 (hex AND FREQ_MASK)"

lemma divider_field_bit: "bit (divider_field hex) n = (n < 6 \<and> bit hex (n + 8))"
  by (auto simp: divider_field_def bit_simps FREQ_MASK_bits add.commute)

lemma divider_field_freq_hex:
  assumes "0 \<le> d" and "d < 64"
  shows "divider_field (freq_hex hex d) = word_of_int d"
proof (rule bit_word_eqI)
  fix n assume n: "n < LENGTH(32)"
  have "bit d n \<Longrightarrow> n < 6"
  proof -
    assume "bit d n"
    moreover have "take_bit 6 d = d" using assms by (simp add: take_bit_int_eq_self)
    ultimately show "n < 6" by (metis bit_take_bit_iff)
  qed
  with n show "bit (divider_field (freq_hex hex d)) n = bit (word_of_int d :: u32) n"
    by (auto simp: divider_field_bit freq_hex_bit bit_simps)
qed

lemma ENABLE_MASK_bits: "bit ENABLE_MASK n \<longleftrightarrow> n = 24"
proof -
  have eq: "ENABLE_MASK = push_bit 24 1" by (simp add: ENABLE_MASK_def)
  show ?thesis
    unfolding eq bit_push_bit_iff bit_and_iff bit_or_iff bit_not_iff bit_mask_iff bit_1_iff
    by (auto simp: possible_bit_word)
qed

lemma ENABLE_AWAYS_TRUE_bits: "bit ENABLE_AWAYS_TRUE n \<longleftrightarrow> n = 1 \<or> n = 16"
proof -
  have eq: "ENABLE_AWAYS_TRUE = push_bit 1 1 OR push_bit 16 1"
    by (simp add: ENABLE_AWAYS_TRUE_def)
  show ?thesis
    unfolding eq bit_push_bit_iff bit_and_iff bit_or_iff bit_not_iff bit_mask_iff bit_1_iff
    by (auto simp: possible_bit_word)
qed

lemma ENABLE_AWAYS_TRUE_INV_bits:
  "bit ENABLE_AWAYS_TRUE_INV n \<longleftrightarrow> n < 32 \<and> n \<noteq> 1 \<and> \<not> (16 \<le> n \<and> n < 22)"
proof -
  have eq: "ENABLE_AWAYS_TRUE_INV = NOT (push_bit 1 1 OR push_bit 16 (mask 6))"
    by (simp add: ENABLE_AWAYS_TRUE_INV_def mask_eq_exp_minus_1)
  show ?thesis
    unfolding eq bit_push_bit_iff bit_and_iff bit_or_iff bit_not_iff bit_mask_iff bit_1_iff
    by (auto simp: possible_bit_word)
qed

lemma ENABLE_MASK_INV_bits: "bit ENABLE_MASK_INV n \<longleftrightarrow> n < 32 \<and> n \<noteq> 24"
proof -
  have eq: "ENABLE_MASK_INV = NOT (push_bit 24 1)" by (simp add: ENABLE_MASK_INV_def)
  show ?thesis
    unfolding eq bit_push_bit_iff bit_and_iff bit_or_iff bit_not_iff bit_mask_iff bit_1_iff
    by (auto simp: possible_bit_word)
qed

text \<open>
  Enabling or disabling sets bit 24, the second divider (bits 16 to 21) to 1 and bit 1, and
  changes nothing else.
\<close>

lemma ena_hex_bit:
  assumes "n < 32" and "ena \<in> {0, 1}"
  shows "bit (ena_hex hex ena) n =
    (if n = 24 then ena = 1 else if n = 1 \<or> n = 16 then True
     else if 16 < n \<and> n < 22 then False else bit hex n)"
  using assms
  by (auto simp: ena_hex_def bit_simps ENABLE_MASK_bits ENABLE_MASK_INV_bits
      ENABLE_AWAYS_TRUE_bits ENABLE_AWAYS_TRUE_INV_bits)

lemma divider_field_ena_hex: "ena \<in> {0, 1} \<Longrightarrow> divider_field (ena_hex hex ena) = divider_field hex"
  by (rule bit_word_eqI) (auto simp: divider_field_bit ena_hex_bit)

section \<open>The shown frequency is the register's\<close>

definition freq_sync :: "plclk \<Rightarrow> regs \<Rightarrow> bool" where
  "freq_sync c r \<longleftrightarrow>
     (\<exists>pa. clk_virt c = Some pa \<and> r pa = clk_hex c) \<and> divider_field (clk_hex c) \<noteq> 0 \<and>
     clk_freq c = base_freq div uint (divider_field (clk_hex c))"

lemma freq_sync_read:
  "read_clock virt r = Ok c r' \<Longrightarrow> freq_sync c r' \<and> r' = r \<and> clk_virt c = virt"
  by (auto simp: read_clock_def readl_def freq_sync_def divider_field_def Let_def obind_Ok
      base_freq_def uint_div split: option.splits if_splits)

lemma freq_sync_ena: 
  assumes "freq_sync c r" and "ena_store buf c r = Ok n (c', r')"
  shows "freq_sync c' r'"
  using assms
  by (auto simp: ena_store_def writel_def freq_sync_def Let_def divider_field_ena_hex
      split: option.splits)

lemma freq_sync_freq:
  assumes "freq_sync c r" and "freq_store buf c r = Ok n (c', r')"
  shows "freq_sync c' r'"
proof (cases "ksscanf_d buf")
  case None
  with assms show ?thesis by (simp add: freq_store_def)
next
  case (Some f)
  let ?d = "freq_find f"
  have d: "1 \<le> ?d" "?d \<le> 32" using freq_find_range [of f] by auto
  then have "uint (word_of_int ?d :: u32) = ?d" by (simp add: uint_word_of_int_eq take_bit_int_eq_self)
  moreover have "divider_field (freq_hex (clk_hex c) ?d) = word_of_int ?d"
    using d by (intro divider_field_freq_hex) auto
  moreover have "(word_of_int ?d :: u32) \<noteq> 0" using d calculation(1) by auto
  ultimately show ?thesis
    using assms Some by (auto simp: freq_store_def writel_def freq_sync_def Let_def)
qed

section \<open>The frequency file as an attribute\<close>

text \<open>A write to the file, as a step on the clock and its register.\<close>

definition freq_step :: "string \<Rightarrow> plclk \<times> regs \<Rightarrow> plclk \<times> regs" where
  "freq_step buf s = (case freq_store buf (fst s) (snd s) of Ok n s' \<Rightarrow> s' | Fault x \<Rightarrow> s)"

definition freq_ok :: "plclk \<times> regs \<Rightarrow> bool" where
  "freq_ok s \<longleftrightarrow> freq_sync (fst s) (snd s) \<and> (\<exists>i \<in> {1..32}. clk_freq (fst s) = base_freq div i)"

lemma ends_number_MHz: "ends_number ('' MHz'' @ newline)"
  by (simp add: ends_number_def digit_val_def)

text \<open>Asking for a frequency that a divider gives, one gets it.\<close>

lemma freq_find_exact:
  assumes "i \<in> {1..32}"
  shows "base_freq div freq_find (base_freq div i) = base_freq div i"
proof -
  let ?f = "base_freq div i"
  have f: "25 \<le> ?f" "?f \<le> 800" using div_base_freq [OF assms] by auto
  have zero: "freq_distance ?f i = 0" using assms f by (simp add: freq_distance_eq)
  have "freq_distance ?f (freq_find ?f) \<le> freq_distance ?f i"
    using assms zero by (intro freq_find_best) auto
  moreover have "freq_distance ?f (freq_find ?f) = \<bar>base_freq div freq_find ?f - ?f\<bar>"
    using f freq_find_range [of ?f] by (intro freq_distance_eq) auto
  ultimately show ?thesis using zero by simp
qed

lemma freq_step_Some:
  assumes "freq_ok s" and "ksscanf_d buf = Some f"
  shows "clk_freq (fst (freq_step buf s)) = base_freq div freq_find f"
  using assms
  by (auto simp: freq_step_def freq_ok_def freq_sync_def freq_store_def writel_def Let_def)

lemma freq_step_ok:
  assumes "freq_ok s"
  shows "freq_ok (freq_step buf s)"
proof (cases "freq_store buf (fst s) (snd s)")
  case (Fault x)
  with assms show ?thesis by (simp add: freq_step_def)
next
  case (Ok n s')
  then have s': "freq_step buf s = s'" by (simp add: freq_step_def)
  obtain c' r' where cr: "s' = (c', r')" by fastforce
  have "freq_sync c' r'" using assms Ok unfolding cr by (auto simp: freq_ok_def intro: freq_sync_freq)
  moreover have "\<exists>i \<in> {1..32}. clk_freq (fst s') = base_freq div i"
  proof (cases "ksscanf_d buf")
    case None
    with Ok assms show ?thesis by (auto simp: freq_store_def freq_ok_def)
  next
    case (Some f)
    from freq_step_Some [OF assms this] freq_find_range [of f] show ?thesis
      unfolding s' by (intro bexI [of _ "freq_find f"]) auto
  qed
  ultimately show ?thesis unfolding s' by (simp add: freq_ok_def cr)
qed

interpretation frequency: sysfs_attr "\<lambda>s. freq_show (fst s)" freq_step "\<lambda>s. clk_freq (fst s)"
    "\<lambda>s. False" freq_ok
proof unfold_locales
  fix s t :: "plclk \<times> regs"
  assume s: "freq_ok s" and t: "freq_ok t"
  then obtain i where i: "i \<in> {1..32}" "clk_freq (fst s) = base_freq div i"
    by (auto simp: freq_ok_def)
  have "ksscanf_d (freq_show (fst s)) = Some (base_freq div i)"
    unfolding freq_show_def i(2)
    using div_base_freq [OF i(1)] by (intro ksscanf_d_printed ends_number_MHz) auto
  from freq_step_Some [OF t this] show "clk_freq (fst (freq_step (freq_show (fst s)) t)) = clk_freq (fst s)"
    using i by (simp add: freq_find_exact)
qed (simp_all add: freq_show_def freq_step_ok)

text \<open>Writing the shown frequency back chooses the first divider that gives it.\<close>

lemma freq_restored_divider:
  assumes "freq_ok s" and "freq_ok t"
  shows "divider_field (clk_hex (fst (freq_step (freq_show (fst s)) t))) = word_of_int (freq_find (clk_freq (fst s)))"
proof -
  obtain i where i: "i \<in> {1..32}" "clk_freq (fst s) = base_freq div i" using assms(1) by (auto simp: freq_ok_def)
  have "ksscanf_d (freq_show (fst s)) = Some (clk_freq (fst s))"
    unfolding freq_show_def i(2)
    using div_base_freq [OF i(1)] by (intro ksscanf_d_printed ends_number_MHz) auto
  moreover obtain pa where "clk_virt (fst t) = Some pa" using assms(2) by (auto simp: freq_ok_def freq_sync_def)
  moreover have "0 \<le> freq_find f" "freq_find f < 64" for f using freq_find_range [of f] by auto
  ultimately show ?thesis
    by (simp add: freq_step_def freq_store_def writel_def Let_def divider_field_freq_hex)
qed

section \<open>The enable file as an attribute\<close>

definition ena_step :: "string \<Rightarrow> plclk \<times> regs \<Rightarrow> plclk \<times> regs" where
  "ena_step buf s = (case ena_store buf (fst s) (snd s) of Ok n s' \<Rightarrow> s' | Fault x \<Rightarrow> s)"

definition ena_ok :: "plclk \<times> regs \<Rightarrow> bool" where
  "ena_ok s \<longleftrightarrow> clk_virt (fst s) \<noteq> None \<and> - 128 \<le> clk_ena (fst s) \<and> clk_ena (fst s) < 128"

lemma ena_step_Some:
  assumes "ena_ok s" and "ksscanf_d buf = Some v"
  shows "clk_ena (fst (ena_step buf s)) = (if v = 0 then 0 else 1)"
  using assms by (auto simp: ena_step_def ena_ok_def ena_store_def writel_def Let_def)

lemma ena_step_ok: "ena_ok s \<Longrightarrow> ena_ok (ena_step buf s)"
  by (auto simp: ena_step_def ena_ok_def ena_store_def writel_def Let_def split: option.splits)

lemma ena_steps_ok: "ena_ok s \<Longrightarrow> ena_ok (fold ena_step bufs s)"
  by (induction bufs arbitrary: s) (simp_all add: ena_step_ok)

text \<open>The number shown after loading is the upper byte of the register, with its sign.\<close>

lemma ena_ok_read: "read_clock virt r = Ok c r' \<Longrightarrow> ena_ok (c, r')"
proof -
  assume read: "read_clock virt r = Ok c r'"
  have "sint (signed_drop_bit 24 h) \<in> {- 128..<128}" for h :: u32
  proof -
    have "sint h \<in> {- (2 ^ 31)..<2 ^ 31}" using sint_greater_eq [of h] sint_less [of h] by simp
    then have "- 128 \<le> sint h div 2 ^ 24" "sint h div 2 ^ 24 < 128" by auto
    then show ?thesis by (simp add: sint_signed_drop_bit_eq drop_bit_eq_div)
  qed
  with read show ?thesis
    by (auto simp: read_clock_def readl_def ena_ok_def Let_def obind_Ok split: option.splits if_splits)
qed

lemma ena_restored:
  assumes "ena_ok s" and "ena_ok t"
  shows "clk_ena (fst (ena_step (ena_show (fst s)) t)) = (if clk_ena (fst s) = 0 then 0 else 1)"
    and "bit (clk_hex (fst (ena_step (ena_show (fst s)) t))) 24 \<longleftrightarrow> clk_ena (fst s) \<noteq> 0"
proof -
  have scan: "ksscanf_d (ena_show (fst s)) = Some (clk_ena (fst s))"
    using assms(1) unfolding ena_show_def ena_ok_def by (intro ksscanf_d_printed ends_number_newline) auto
  show "clk_ena (fst (ena_step (ena_show (fst s)) t)) = (if clk_ena (fst s) = 0 then 0 else 1)"
    by (rule ena_step_Some [OF assms(2) scan])
  obtain pa where "clk_virt (fst t) = Some pa" using assms(2) by (auto simp: ena_ok_def)
  then show "bit (clk_hex (fst (ena_step (ena_show (fst s)) t))) 24 \<longleftrightarrow> clk_ena (fst s) \<noteq> 0"
    by (simp add: ena_step_def ena_store_def scan writel_def Let_def ena_hex_bit)
qed

interpretation enable_file: sysfs_attr "\<lambda>s. ena_show (fst s)" ena_step "\<lambda>s. clk_ena (fst s)"
    "\<lambda>s. False" "\<lambda>s. ena_ok s \<and> clk_ena (fst s) \<in> {0, 1}"
proof unfold_locales
  fix s :: "plclk \<times> regs" and buf
  assume s: "ena_ok s \<and> clk_ena (fst s) \<in> {0, 1}"
  have "clk_ena (fst (ena_step buf s)) \<in> {0, 1}"
    using s ena_step_Some [of s buf] by (cases "ksscanf_d buf") (auto simp: ena_step_def ena_store_def)
  with s show "ena_ok (ena_step buf s) \<and> clk_ena (fst (ena_step buf s)) \<in> {0, 1}" by (simp add: ena_step_ok)
next
  fix s t :: "plclk \<times> regs"
  assume "ena_ok s \<and> clk_ena (fst s) \<in> {0, 1}" and "ena_ok t \<and> clk_ena (fst t) \<in> {0, 1}"
  then show "clk_ena (fst (ena_step (ena_show (fst s)) t)) = clk_ena (fst s)"
    using ena_restored(1) [of s t] by auto
qed (simp_all add: ena_show_def)

end
