(* ===== verification/AxidmaUio.thy ===== *)
theory AxidmaUio
  imports Sysfs
begin

text \<open>
  The driver drivers/uio_with_sysfs/axidma_module.c: a UIO device for an AXI DMA whose
  address and interrupt are set through sysfs files. The kernel's answers are arguments.
\<close>

section \<open>State\<close>

text \<open>
  \<open>us_virt\<close> is \<open>axidma_virt\<close> (\<open>None\<close> is NULL, \<open>Some pa\<close> maps \<open>pa\<close>); \<open>us_irq\<close> and
  \<open>us_mem_addr\<close> are the fields of \<open>axidma_uio_info\<close>; \<open>us_registered\<close> counts the
  uio_register_device calls not yet undone, \<open>us_device\<close> the device registrations and
  \<open>us_files\<close> the sysfs files created.
\<close>

record uio_state =
  us_virt :: "u64 option"
  us_in_use :: bool
  us_enable :: int
  us_phys_base :: u64
  us_irq_line :: int
  us_irq :: int
  us_mem_addr :: u64
  us_registered :: nat
  us_device :: bool
  us_kobject :: bool
  us_files :: nat

definition axidma_unloaded :: uio_state where
  "axidma_unloaded = \<lparr>us_virt = None, us_in_use = False, us_enable = 0, us_phys_base = 0xA0000000,
     us_irq_line = 0, us_irq = 0, us_mem_addr = 0, us_registered = 0, us_device = False,
     us_kobject = False, us_files = 0\<rparr>"

section \<open>The interrupt handler\<close>

datatype irqreturn = IRQ_NONE | IRQ_HANDLED

text \<open>
  The two pointers are named after the status registers; they point to offsets 0 and 0x30.
  The second register is read only when the first shows no interrupt.
\<close>

definition axidma_irq_handler :: "'d physmem \<Rightarrow> uio_state \<Rightarrow> 'd \<Rightarrow> irqreturn \<times> 'd" where
  "axidma_irq_handler pm s d =
     (case us_virt s of
        None \<Rightarrow> (IRQ_NONE, d)
      | Some base \<Rightarrow>
          (case pm_read pm base d of
             (v1, d1) \<Rightarrow>
               (case (if drop_bit 12 v1 AND 7 \<noteq> 0 then (True, d1)
                      else (case pm_read pm (base + 0x30) d1 of
                              (v2, d2) \<Rightarrow> (drop_bit 12 v2 AND 7 \<noteq> 0, d2))) of
                  (pending, d3) \<Rightarrow>
                    if pending then
                      (IRQ_HANDLED,
                       pm_write pm (base + 0x30) 0xFFFFFFFF (pm_write pm base 0xFFFFFFFF d3))
                    else (IRQ_NONE, d3))))"

section \<open>Opening and closing\<close>

definition axidma_open :: "uio_state \<Rightarrow> rc \<times> uio_state" where
  "axidma_open s = (if us_in_use s then (Inl EBUSY, s) else (Inr (), s\<lparr>us_in_use := True\<rparr>))"

definition axidma_release :: "uio_state \<Rightarrow> rc \<times> uio_state" where
  "axidma_release s = (Inr (), s\<lparr>us_in_use := False\<rparr>)"

section \<open>The sysfs files\<close>

definition enable_show :: "uio_state \<Rightarrow> string" where
  "enable_show s = print_int (us_enable s) @ newline"

text \<open>
  What the kernel answers while the UIO device is set up: whether the interrupt controller's
  node and its domain exist, the interrupt number, the result of uio_register_device, and
  whether the registers can be mapped.
\<close>

record enable_env =
  en_node :: bool
  en_domain :: bool
  en_virq :: "int \<Rightarrow> int"
  en_register :: int
  en_remap :: bool

text \<open>
  A store checks, under the mutex, that the device is not open, releases the mutex and goes
  on; what it does then is its commit. Every store returns the number of bytes written; the
  value here is the new state.
\<close>

definition enable_commit :: "enable_env \<Rightarrow> string \<Rightarrow> uio_state \<Rightarrow> uio_state" where
  "enable_commit ev buf s =
     (case ksscanf_d buf of
        None \<Rightarrow> s
      | Some tmp \<Rightarrow>
          if tmp \<noteq> 0 then
            if us_enable s = 0 then
              if \<not> en_node ev then s\<lparr>us_enable := 0\<rparr>
              else if \<not> en_domain ev then s\<lparr>us_enable := 0\<rparr>
              else
                let s1 = s\<lparr>us_irq := en_virq ev (89 + us_irq_line s), us_mem_addr := us_phys_base s\<rparr> in
                if en_register ev < 0 then s1\<lparr>us_enable := 0\<rparr>
                else
                  let s2 = s1\<lparr>us_registered := us_registered s1 + 1\<rparr> in
                  if \<not> en_remap ev then s2\<lparr>us_virt := None, us_enable := 0\<rparr>
                  else s2\<lparr>us_virt := Some (us_phys_base s2), us_enable := 1\<rparr>
            else s\<lparr>us_enable := 1\<rparr>
          else if us_enable s \<noteq> 0 then
            s\<lparr>us_registered := us_registered s - 1, us_virt := None, us_enable := 0\<rparr>
          else s\<lparr>us_enable := 0\<rparr>)"

definition enable_store :: "enable_env \<Rightarrow> string \<Rightarrow> uio_state \<Rightarrow> uio_state" where
  "enable_store ev buf s = (if us_in_use s then s else enable_commit ev buf s)"

definition phys_base_show :: "uio_state \<Rightarrow> string" where
  "phys_base_show s = print_nat 16 (unat (us_phys_base s)) @ newline"

definition phys_base_commit :: "string \<Rightarrow> uio_state \<Rightarrow> uio_state" where
  "phys_base_commit buf s =
     (case ksscanf_lx buf of
        None \<Rightarrow> s
      | Some tmp \<Rightarrow>
          if tmp < 0xA0000000 \<or> tmp > 0xB0000000 then s else s\<lparr>us_phys_base := tmp\<rparr>)"

definition phys_base_store :: "string \<Rightarrow> uio_state \<Rightarrow> uio_state" where
  "phys_base_store buf s = (if us_in_use s then s else phys_base_commit buf s)"

definition irq_line_show :: "uio_state \<Rightarrow> string" where
  "irq_line_show s = print_int (us_irq_line s) @ newline"

definition irq_line_commit :: "string \<Rightarrow> uio_state \<Rightarrow> uio_state" where
  "irq_line_commit buf s =
     (case ksscanf_d buf of
        None \<Rightarrow> s
      | Some tmp \<Rightarrow> if tmp < 0 \<or> tmp > 7 then s else s\<lparr>us_irq_line := tmp\<rparr>)"

definition irq_line_store :: "string \<Rightarrow> uio_state \<Rightarrow> uio_state" where
  "irq_line_store buf s = (if us_in_use s then s else irq_line_commit buf s)"

section \<open>Loading and unloading\<close>

text \<open>
  \<open>rc\<close> is the result of device_register, \<open>files\<close> those of the three sysfs_create_file calls.
  A failure unregisters the device and drops the kobject (and with it the files); a kobject that
  could not be created makes the first of these calls fail. Unloading undoes the mapping and
  leaves the pointer to it, but nothing of the module runs after it.
\<close>

fun create_files :: "int list \<Rightarrow> uio_state \<Rightarrow> int \<times> uio_state" where
  "create_files [] s = (0, s)"
| "create_files (rc # rcs) s =
     (if rc \<noteq> 0 then (rc, s\<lparr>us_device := False, us_kobject := False, us_files := 0\<rparr>)
      else create_files rcs (s\<lparr>us_files := us_files s + 1\<rparr>))"

definition axidma_init :: "int \<Rightarrow> int \<times> int \<times> int \<Rightarrow> uio_state \<Rightarrow> int \<times> uio_state" where
  "axidma_init rc files s =
     (if rc < 0 then (rc, s)
      else
        case files of (rc1, rc2, rc3) \<Rightarrow>
          create_files [rc1, rc2, rc3] (s\<lparr>us_device := True, us_kobject := True\<rparr>))"

definition axidma_exit :: "uio_state \<Rightarrow> uio_state" where
  "axidma_exit s =
     (let s1 = (if us_enable s \<noteq> 0
                then s\<lparr>us_registered := us_registered s - 1, us_virt := None\<rparr> else s) in
      s1\<lparr>us_kobject := False, us_files := 0, us_device := False\<rparr>)"

section \<open>The invariant\<close>

text \<open>
  The address is in the range the driver accepts, the interrupt line is one of eight, and
  the registers are mapped exactly when the device is enabled, which it is only while it is
  registered with UIO.
\<close>

definition uio_inv :: "uio_state \<Rightarrow> bool" where
  "uio_inv s \<longleftrightarrow>
     0xA0000000 \<le> us_phys_base s \<and> us_phys_base s \<le> 0xB0000000 \<and>
     0 \<le> us_irq_line s \<and> us_irq_line s \<le> 7 \<and> us_enable s \<in> {0, 1} \<and>
     (us_enable s = 1 \<longleftrightarrow> us_virt s \<noteq> None) \<and> (us_enable s = 1 \<longrightarrow> 0 < us_registered s)"

datatype uio_op =
    OpOpen | OpRelease | OpEnable enable_env string | OpPhysBase string | OpIrqLine string

fun uio_step :: "uio_op \<Rightarrow> uio_state \<Rightarrow> uio_state" where
  "uio_step OpOpen s = snd (axidma_open s)"
| "uio_step OpRelease s = snd (axidma_release s)"
| "uio_step (OpEnable ev buf) s = enable_store ev buf s"
| "uio_step (OpPhysBase buf) s = phys_base_store buf s"
| "uio_step (OpIrqLine buf) s = irq_line_store buf s"

lemma uio_inv_commits:
  assumes "uio_inv s"
  shows "uio_inv (enable_commit ev buf s)" and "uio_inv (phys_base_commit buf s)"
    and "uio_inv (irq_line_commit buf s)"
  using assms
  by (auto simp: enable_commit_def phys_base_commit_def irq_line_commit_def uio_inv_def Let_def not_less
      split: option.splits)

lemma uio_inv_stores:
  assumes "uio_inv s"
  shows "uio_inv (enable_store ev buf s)" and "uio_inv (phys_base_store buf s)"
    and "uio_inv (irq_line_store buf s)"
  using assms
  by (simp_all add: enable_store_def phys_base_store_def irq_line_store_def uio_inv_commits)

lemma uio_inv_in_use [simp]: "uio_inv (s\<lparr>us_in_use := b\<rparr>) = uio_inv s"
  by (simp add: uio_inv_def)

lemma uio_inv_step: "uio_inv s \<Longrightarrow> uio_inv (uio_step x s)"
  by (cases x)
     (simp_all add: uio_inv_stores axidma_open_def axidma_release_def)

lemma uio_inv_steps: "uio_inv s \<Longrightarrow> uio_inv (fold uio_step xs s)"
  by (induction xs arbitrary: s) (auto intro: uio_inv_step)

lemma uio_inv_unloaded: "uio_inv axidma_unloaded"
  by (simp add: axidma_unloaded_def uio_inv_def)

text \<open>With a kernel that can always map the registers, registrations are balanced.\<close>

fun remap_works :: "uio_op \<Rightarrow> bool" where
  "remap_works (OpEnable ev buf) = en_remap ev"
| "remap_works _ = True"

definition uio_balanced :: "uio_state \<Rightarrow> bool" where
  "uio_balanced s \<longleftrightarrow> uio_inv s \<and> us_registered s = (if us_enable s = 1 then 1 else 0)"

lemma uio_balanced_step:
  assumes "uio_balanced s" and "remap_works x"
  shows "uio_balanced (uio_step x s)"
proof -
  have "uio_inv (uio_step x s)" using assms(1) by (simp add: uio_balanced_def uio_inv_step)
  moreover have "us_enable s \<in> {0, 1}" using assms(1) by (auto simp: uio_balanced_def uio_inv_def)
  ultimately show ?thesis
    using assms
    by (cases x)
       (auto simp: uio_balanced_def axidma_open_def axidma_release_def enable_store_def enable_commit_def
         phys_base_store_def phys_base_commit_def irq_line_store_def irq_line_commit_def Let_def split: option.splits)
qed

lemma uio_balanced_steps:
  "uio_balanced s \<Longrightarrow> \<forall>x \<in> set xs. remap_works x \<Longrightarrow> uio_balanced (fold uio_step xs s)"
  by (induction xs arbitrary: s) (auto intro: uio_balanced_step)

section \<open>The files as attributes\<close>

interpretation phys_base: sysfs_attr phys_base_show phys_base_store us_phys_base us_in_use uio_inv
proof unfold_locales
  fix s t :: uio_state
  assume "uio_inv s" and "uio_inv t" and "\<not> us_in_use t"
  then show "us_phys_base (phys_base_store (phys_base_show s) t) = us_phys_base s"
    by (auto simp: phys_base_store_def phys_base_commit_def phys_base_show_def ksscanf_lx_printed ends_number_newline
        uio_inv_def)
next
  fix s :: uio_state and buf
  show "us_in_use (phys_base_store buf s) = us_in_use s"
    by (simp add: phys_base_store_def phys_base_commit_def split: option.splits)
qed (simp_all add: phys_base_show_def uio_inv_stores, simp add: phys_base_store_def phys_base_commit_def)

interpretation irq_line: sysfs_attr irq_line_show irq_line_store us_irq_line us_in_use uio_inv
proof unfold_locales
  fix s t :: uio_state
  assume "uio_inv s" and "uio_inv t" and "\<not> us_in_use t"
  then show "us_irq_line (irq_line_store (irq_line_show s) t) = us_irq_line s"
    by (auto simp: irq_line_store_def irq_line_commit_def irq_line_show_def ksscanf_d_printed ends_number_newline
        uio_inv_def)
next
  fix s :: uio_state and buf
  show "us_in_use (irq_line_store buf s) = us_in_use s"
    by (simp add: irq_line_store_def irq_line_commit_def split: option.splits)
qed (simp_all add: irq_line_show_def uio_inv_stores, simp add: irq_line_store_def irq_line_commit_def)

text \<open>The enable file depends on the kernel: it is written back when the device can be set up.\<close>

definition sets_up :: "enable_env \<Rightarrow> bool" where
  "sets_up ev \<longleftrightarrow> en_node ev \<and> en_domain ev \<and> 0 \<le> en_register ev \<and> en_remap ev"

lemma enable_store_in_use: "us_in_use (enable_store ev buf s) = us_in_use s"
  by (simp add: enable_store_def enable_commit_def Let_def split: option.splits)

lemma enable_stores:
  assumes "uio_inv s"
  shows "uio_inv (fold (\<lambda>(ev, buf). enable_store ev buf) xs s)"
    and "us_in_use (fold (\<lambda>(ev, buf). enable_store ev buf) xs s) = us_in_use s"
  using assms by (induction xs arbitrary: s) (auto simp: uio_inv_stores enable_store_in_use)

lemma enable_shown:
  assumes "uio_inv s" and "uio_inv t" and "\<not> us_in_use t" and "sets_up ev"
  shows "us_enable (enable_store ev (enable_show s) t) = us_enable s"
proof -
  have "us_enable s \<in> {0, 1}" "us_enable t \<in> {0, 1}" using assms(1,2) by (auto simp: uio_inv_def)
  then show ?thesis
    using assms(3,4)
    by (auto simp: enable_store_def enable_commit_def enable_show_def ksscanf_d_printed ends_number_newline
        sets_up_def Let_def)
qed

text \<open>The bits that the interrupt handler looks at.\<close>

lemma irq_pending: "drop_bit 12 v AND 7 \<noteq> 0 \<longleftrightarrow> (\<exists>n \<in> {12, 13, 14}. bit v n)" for v :: u32
proof -
  have seven: "(7 :: u32) = mask 3" by (simp add: mask_eq_exp_minus_1)
  have nz: "w \<noteq> 0 \<longleftrightarrow> (\<exists>n. bit w n)" for w :: u32
    by (auto intro: bit_eqI)
  have "bit (drop_bit 12 v AND mask 3) k \<longleftrightarrow> k < 3 \<and> bit v (12 + k)" for k
    by (auto simp: bit_simps)
  then have "drop_bit 12 v AND 7 \<noteq> 0 \<longleftrightarrow> (\<exists>k. k < 3 \<and> bit v (12 + k))"
    unfolding seven nz by (rule iff_exI)
  also have "\<dots> \<longleftrightarrow> (\<exists>n \<in> {12, 13, 14}. bit v n)"
    by (auto simp: numeral_eq_Suc less_Suc_eq)
  finally show ?thesis .
qed

end
