(* ===== verification/AxidmaRace.thy ===== *)
theory AxidmaRace
  imports AxidmaUio
begin

text \<open>
  Concurrent users of drivers/uio_with_sysfs/axidma_module.c. A store holds the mutex only
  while it checks that the device is not open; other operations can come between the check
  and the rest of the store. Here the check and the commit are two steps, and any number of
  stores can be between them. The mutex makes the check, open and release atomic; a commit is
  one step too, so what is shown to be possible is possible with smaller steps.
\<close>

datatype uio_store = SEnable enable_env string | SPhysBase string | SIrqLine string

fun uio_commit :: "uio_store \<Rightarrow> uio_state \<Rightarrow> uio_state" where
  "uio_commit (SEnable ev buf) s = enable_commit ev buf s"
| "uio_commit (SPhysBase buf) s = phys_base_commit buf s"
| "uio_commit (SIrqLine buf) s = irq_line_commit buf s"

text \<open>The state of the driver, and the stores that passed their check.\<close>

inductive race_step :: "uio_state \<times> uio_store list \<Rightarrow> uio_state \<times> uio_store list \<Rightarrow> bool" where
  check: "\<not> us_in_use s \<Longrightarrow> race_step (s, ws) (s, w # ws)"
| commit: "race_step (s, ws @ w # vs) (uio_commit w s, ws @ vs)"
| race_open: "race_step (s, ws) (snd (axidma_open s), ws)"
| race_release: "race_step (s, ws) (snd (axidma_release s), ws)"

lemma commit_in_use: "uio_commit w (s\<lparr>us_in_use := b\<rparr>) = (uio_commit w s)\<lparr>us_in_use := b\<rparr>"
  by (cases w) (simp_all add: enable_commit_def phys_base_commit_def irq_line_commit_def Let_def
      split: option.split)

lemma commit_inv: "uio_inv s \<Longrightarrow> uio_inv (uio_commit w s)"
  by (cases w) (simp_all add: uio_inv_commits)

text \<open>Whatever the interleaving, the invariant of the driver holds.\<close>

lemma race_step_inv: "race_step c d \<Longrightarrow> uio_inv (fst c) \<Longrightarrow> uio_inv (fst d)"
  by (induction rule: race_step.induct) (simp_all add: commit_inv axidma_open_def axidma_release_def)

lemma race_inv: "race_step\<^sup>*\<^sup>* c d \<Longrightarrow> uio_inv (fst c) \<Longrightarrow> uio_inv (fst d)"
  by (induction rule: rtranclp_induct) (auto intro: race_step_inv)

text \<open>A store that was checked before the device was opened takes effect while it is open.\<close>

lemma commit_while_open:
  assumes "\<not> us_in_use s"
  shows "race_step\<^sup>*\<^sup>* (s, []) ((uio_commit w s)\<lparr>us_in_use := True\<rparr>, [])"
proof -
  have "race_step (s, []) (s, [w])" using check [OF assms, of "[]" w] .
  moreover have "race_step (s, [w]) (s\<lparr>us_in_use := True\<rparr>, [w])"
    using race_open [of s "[w]"] assms by (simp add: axidma_open_def)
  moreover have "race_step (s\<lparr>us_in_use := True\<rparr>, [w]) ((uio_commit w s)\<lparr>us_in_use := True\<rparr>, [])"
    using commit [of "s\<lparr>us_in_use := True\<rparr>" "[]" w "[]"] by (simp add: commit_in_use)
  ultimately show ?thesis by (meson converse_rtranclp_into_rtranclp rtranclp.rtrancl_refl)
qed

end
