(* ===== verification/AxiTimer.thy ===== *)
theory AxiTimer
  imports Prelude
begin

text \<open>
  The AXI timer: the UIO driver drivers/uio/axitimer_module.c and the program
  axitimer_user.c that programs a periodic interrupt through it.
\<close>

section \<open>The driver\<close>

text \<open>
  \<open>tm_mapped\<close> and \<open>tm_device\<close>, \<open>tm_uio\<close>: the registers are mapped, the struct device and the
  UIO device are registered. \<open>tm_reg\<close> is the control register the driver maps.
\<close>

record timer_state =
  tm_mapped :: bool
  tm_device :: bool
  tm_uio :: bool
  tm_irq :: int
  tm_reg :: u32

definition T0INT_MASK :: u32 where
  "T0INT_MASK = push_bit 8 1"

datatype timer_irqreturn = TIMER_IRQ_NONE | TIMER_IRQ_HANDLED

text \<open>
  The handler, on the register's value: what is returned and what is written (the flag is
  cleared by writing a one).
\<close>

definition axitimer_irq :: "u32 \<Rightarrow> timer_irqreturn \<times> u32 option" where
  "axitimer_irq reg =
     (if reg AND T0INT_MASK \<noteq> 0 then (TIMER_IRQ_HANDLED, Some (reg OR T0INT_MASK))
      else (TIMER_IRQ_NONE, None))"

text \<open>
  What the kernel answers while the module is loaded: the mapping, device_register, the
  interrupt controller's node and domain, the existing interrupt number (0: none), a newly
  created one, and uio_register_device.
\<close>

record timer_env =
  te_remap :: bool
  te_device :: int
  te_node :: bool
  te_domain :: bool
  te_find :: int
  te_create :: int
  te_uio :: int

definition timer_init :: "timer_env \<Rightarrow> timer_state \<Rightarrow> int \<times> timer_state" where
  "timer_init ev s =
     (if \<not> te_remap ev then (- 12, s\<lparr>tm_mapped := False\<rparr>)
      else
        let s1 = s\<lparr>tm_mapped := True, tm_reg := 0\<rparr>; rc = te_device ev in
        if rc < 0 then (rc, s1\<lparr>tm_mapped := False\<rparr>)
        else
          let s2 = s1\<lparr>tm_device := True\<rparr> in
          if \<not> te_node ev then (rc, s2\<lparr>tm_mapped := False\<rparr>)
          else if \<not> te_domain ev then (rc, s2\<lparr>tm_mapped := False\<rparr>)
          else
            let virq = (if te_find ev = 0 then te_create ev else te_find ev) in
            if virq \<le> 0 then
              (if virq = 0 then - 125 else virq, s2\<lparr>tm_mapped := False\<rparr>)
            else
              let s3 = s2\<lparr>tm_irq := virq\<rparr> in
              if te_uio ev < 0 then (te_uio ev, s3\<lparr>tm_device := False, tm_mapped := False\<rparr>)
              else (0, s3\<lparr>tm_uio := True\<rparr>))"

text \<open>Undoing what was not done is a fault.\<close>

definition timer_exit :: "timer_state \<Rightarrow> (unit, timer_state) outcome" where
  "timer_exit s =
     (if \<not> tm_uio s then Fault RefUnderflow
      else if \<not> tm_device s then Fault RefUnderflow
      else if \<not> tm_mapped s then Fault DoubleFree
      else Ok () (s\<lparr>tm_uio := False, tm_device := False, tm_mapped := False\<rparr>))"

definition timer_unloaded :: timer_state where
  "timer_unloaded = \<lparr>tm_mapped = False, tm_device = False, tm_uio = False, tm_irq = 0, tm_reg = 0\<rparr>"

section \<open>The program\<close>

text \<open>The control register's bit fields, from bit 0 on.\<close>

record TCSR_bits =
  MD :: bool
  UD :: bool
  GEN :: bool
  CAP :: bool
  ARH :: bool
  LOAD :: bool
  ENI :: bool
  EN :: bool
  T_INT :: bool
  PWM :: bool
  ENALL :: bool
  CASC :: bool

definition tcsr_word :: "TCSR_bits \<Rightarrow> u32" where
  "tcsr_word t =
     horner_sum of_bool 2 [MD t, UD t, GEN t, CAP t, ARH t, LOAD t, ENI t, EN t, T_INT t, PWM t, ENALL t, CASC t]"

definition tcsr_disable :: TCSR_bits where
  "tcsr_disable = \<lparr>MD = False, UD = False, GEN = False, CAP = False, ARH = False, LOAD = False,
     ENI = False, EN = False, T_INT = True, PWM = False, ENALL = False, CASC = False\<rparr>"

definition tcsr_load :: TCSR_bits where
  "tcsr_load = \<lparr>MD = False, UD = False, GEN = False, CAP = False, ARH = False, LOAD = True,
     ENI = False, EN = False, T_INT = False, PWM = False, ENALL = False, CASC = False\<rparr>"

definition one_int_per_sec :: TCSR_bits where
  "one_int_per_sec = \<lparr>MD = False, UD = True, GEN = False, CAP = False, ARH = True, LOAD = False,
     ENI = True, EN = True, T_INT = False, PWM = False, ENALL = True, CASC = False\<rparr>"

definition period_1s :: u32 where
  "period_1s = 100000000"

datatype timer_event =
    WriteTCSR u32 | WriteTLR u32 | ReadFile | ReadTCR | Munmap | Close

text \<open>
  The program's run: \<open>nargs\<close> arguments, whether open and mmap work; the value is the return
  code and the accesses in order.
\<close>

definition timer_main :: "nat \<Rightarrow> bool \<Rightarrow> bool \<Rightarrow> int \<times> timer_event list" where
  "timer_main nargs open_ok mmap_ok =
     (if nargs \<noteq> 1 then (0, [])
      else if \<not> open_ok then (- 1, [])
      else if \<not> mmap_ok then (- 1, [Close])
      else
        (0, [WriteTCSR (tcsr_word tcsr_disable), WriteTLR period_1s, WriteTCSR (tcsr_word tcsr_load),
             WriteTCSR (tcsr_word one_int_per_sec)] @
            concat (replicate 10 [ReadFile, ReadTCR]) @
            [WriteTCSR (tcsr_word tcsr_disable), Munmap, Close]))"

text \<open>
  The bits of the control words: EN is bit 7, ENI bit 6, INT bit 8, LOAD bit 5. The last one
  counts down (UD, bit 1), reloads by itself (ARH, bit 4) and enables all timers (bit 10).
\<close>

lemma tcsr_word_bit:
  "bit (tcsr_word t) n \<longleftrightarrow>
     n < 12 \<and> [MD t, UD t, GEN t, CAP t, ARH t, LOAD t, ENI t, EN t, T_INT t, PWM t, ENALL t, CASC t] ! n"
  unfolding tcsr_word_def bit_horner_sum_bit_word_iff by (simp add: eval_nat_numeral)

lemma tcsr_word_bits:
  assumes "n < 12"
  shows "bit (tcsr_word one_int_per_sec) n = (n \<in> {1, 4, 6, 7, 10})"
    and "bit (tcsr_word tcsr_disable) n = (n = 8)" and "bit (tcsr_word tcsr_load) n = (n = 5)"
  using assms unfolding tcsr_word_bit one_int_per_sec_def tcsr_disable_def tcsr_load_def
  by (simp_all add: numeral_eq_Suc less_Suc_eq) auto

end
