(* ===== verification/BasicDriver.thy ===== *)
theory BasicDriver
  imports Prelude
begin

text \<open>
  The example driver linux_kernel_programming/basic_driver.c: a device whose read delivers a
  fixed message.
\<close>

section \<open>The driver\<close>

record basic_state =
  bd_registered :: bool
  bd_device :: bool

definition basic_open :: int where "basic_open = 0"
definition basic_release :: int where "basic_release = 0"

definition basic_init :: "int \<Rightarrow> basic_state \<Rightarrow> int \<times> basic_state" where
  "basic_init err s =
     (if err < 0 then (err, s) else (err, s\<lparr>bd_registered := True, bd_device := True\<rparr>))"

definition basic_exit :: "basic_state \<Rightarrow> basic_state" where
  "basic_exit s = (if bd_registered s then s\<lparr>bd_device := False\<rparr> else s)"

section \<open>Reading\<close>

text \<open>The array includes the terminating NUL.\<close>

definition msg :: "u8 list" where
  "msg = map of_char ''Lorem Ipsum'' @ [10, 0]"

text \<open>
  The offset fits an int: it only takes the values this function stores. \<open>sz_to_send\<close> is the
  smaller of the two as the code computes it: \<open>sz\<close> compared as an int, and the result
  truncated to an int.
\<close>

definition as_int :: "u64 \<Rightarrow> int" where
  "as_int x = sint (ucast x :: u32)"

definition our_read :: "u64 \<Rightarrow> int \<Rightarrow> int \<times> u8 list \<times> int" where
  "our_read sz off =
     (let sz_left = int (length msg) - off;
          sz_to_send = (if as_int sz > sz_left then sz_left else as_int sz) in
      if sz_to_send \<le> 0 then (0, [], 0)
      else (sz_to_send, take (nat sz_to_send) (drop (nat off) msg), off + sz_to_send))"

text \<open>Reading until the end of the file, as a user program does: the bytes it gets.\<close>

function read_to_end :: "u64 \<Rightarrow> int \<Rightarrow> u8 list \<times> int" where
  "read_to_end sz off =
     (case our_read sz off of
        (n, bytes, off') \<Rightarrow>
          if n \<le> 0 then ([], off')
          else (case read_to_end sz off' of (rest, o2) \<Rightarrow> (bytes @ rest, o2)))"
  by pat_completeness auto
termination
  by (relation "measure (\<lambda>(sz, off). nat (int (length msg) - off))")
     (auto simp: our_read_def Let_def split: if_splits)

declare read_to_end.simps [simp del]

lemma length_msg: "length msg = 13"
  by (simp add: msg_def)

lemma as_int_small:
  assumes "unat sz < 2 ^ 31"
  shows "as_int sz = int (unat sz)"
proof -
  have "unat (ucast sz :: u32) = unat sz"
    using assms by (simp add: unsigned_ucast_eq take_bit_nat_eq_self)
  moreover have "uint (ucast sz :: u32) = int (unat (ucast sz :: u32))" by simp
  ultimately have "uint (ucast sz :: u32) = int (unat sz)" by (simp only:)
  moreover have "signed_take_bit 31 (int (unat sz)) = int (unat sz)"
  proof (rule signed_take_bit_int_eq_self)
    have "int (unat sz) < int (2 ^ 31)" using assms by (simp only: of_nat_less_iff)
    then show "int (unat sz) < 2 ^ 31" by (simp only: of_nat_power of_nat_numeral)
    show "- (2 ^ 31) \<le> int (unat sz)" by (rule order_trans [OF _ of_nat_0_le_iff]) simp
  qed
  ultimately show ?thesis unfolding as_int_def sint_uint by simp
qed

lemma read_to_end_rest:
  assumes "0 < as_int sz" and "0 \<le> off" and "off \<le> 13"
  shows "read_to_end sz off = (drop (nat off) msg, 0)"
  using assms(2,3)
proof (induction "nat (13 - off)" arbitrary: off rule: less_induct)
  case less
  show ?case
  proof (cases "off = 13")
    case True
    then show ?thesis by (simp add: read_to_end.simps our_read_def length_msg)
  next
    case False
    let ?n = "min (13 - off) (as_int sz)"
    have n: "0 < ?n" using False less.prems assms(1) by simp
    have r: "our_read sz off = (?n, take (nat ?n) (drop (nat off) msg), off + ?n)"
      using n by (auto simp: our_read_def length_msg Let_def min_def)
    have "read_to_end sz (off + ?n) = (drop (nat (off + ?n)) msg, 0)"
      using n less.prems by (intro less.hyps) auto
    moreover have "take (nat ?n) (drop (nat off) msg) @ drop (nat (off + ?n)) msg = drop (nat off) msg"
    proof -
      have "nat (off + ?n) = nat ?n + nat off"
        using nat_add_distrib [of off ?n] n less.prems(1) by (simp only: less_imp_le add.commute)
      then show ?thesis by (simp flip: drop_drop)
    qed
    moreover have "\<not> ?n \<le> 0" using n by (simp only: not_le)
    ultimately show ?thesis using r by (subst read_to_end.simps) simp
  qed
qed

text \<open>
  Reading the device to the end delivers its message exactly once, whatever the size of the
  reads, as long as it is positive and fits an int.
\<close>

lemma basic_read_delivers:
  assumes "0 < unat sz" and "unat sz < 2 ^ 31"
  shows "read_to_end sz 0 = (msg, 0)"
proof -
  have "0 < as_int sz" unfolding as_int_small [OF assms(2)] using assms(1) by (simp only: of_nat_0_less_iff)
  then show ?thesis using read_to_end_rest [of sz 0] by simp
qed

end
