(* ===== verification/DeviceClaims.thy ===== *)
theory DeviceClaims
  imports Poke PSRegs AxidmaRace AxiTimer BasicDriver
begin

text \<open>
  The properties of the small drivers and of the programs that use them: poke and dpoke, the
  clock registers, the two UIO drivers, and the example driver.
\<close>

section \<open>poke and dpoke\<close>

text \<open>
  C24. Given an address the programs accept, in hexadecimal, they access exactly that physical
  address: poke writes the hexadecimal and dpoke the decimal word of the second argument, once,
  and both read the register back, once; without a second argument nothing is written. Given an
  argument that is no such address, they access nothing.
\<close>

theorem poke_exact_access:
  assumes "0 \<le> pk_fd env" and "pk_remap env" and "unat (pk_base env) + 4096 < 2 ^ 64"
    and "0xA0000000 \<le> addr" and "addr \<le> 0xA0FFFFFF" and "addr AND 3 = 0"
  shows "poke_main env pm [print_nat 16 (unat addr)] d =
      (case pm_read pm addr d of (res, d1) \<Rightarrow> Ok (0, [ReadBack res]) d1) \<and>
    poke_main env pm [print_nat 16 (unat addr), print_nat 16 (unat v)] d =
      (case pm_read pm addr (pm_write pm addr v d) of (res, d1) \<Rightarrow> Ok (0, [ReadBack res]) d1) \<and>
    dpoke_main env pm [print_nat 16 (unat addr), print_nat 10 (unat v)] d =
      (case pm_read pm addr (pm_write pm addr v d) of (res, d1) \<Rightarrow> Ok (0, [ReadIn v, ReadBack res]) d1) \<and>
    (poke_parse_addr bad = Inl e \<longrightarrow> poke_main env pm [bad, data] d = Ok (- 1, [e]) d \<and>
      dpoke_main env pm [bad, data] d = Ok (- 1, [e]) d)"
proof -
  have addr: "poke_parse_addr (print_nat 16 (unat addr)) = Inr addr"
    using assms(4-6) by (simp add: poke_parse_addr_Inr sscanf_lx_printed)
  note run = poke_access_run [OF assms(1-3,6), of pm]
  show ?thesis
    by (simp add: poke_main_def dpoke_main_def addr run sscanf_x_printed sscanf_u_printed
        split_beta Let_def)
qed

definition demo_mem :: "(u64 \<Rightarrow> u32) physmem" where
  "demo_mem = \<lparr>pm_read = (\<lambda>a d. (d a, d)), pm_write = (\<lambda>a v d. d(a := v))\<rparr>"

theorem poke_exact_access_witness:
  "poke_main \<lparr>pk_fd = 3, pk_remap = True, pk_base = 0x7000\<rparr> demo_mem
     [print_nat 16 (unat (0xA0000010 :: u64)), print_nat 16 (unat (7 :: u32))] (\<lambda>_. 0) =
   Ok (0, [ReadBack 7]) ((\<lambda>_. 0)(0xA0000010 := 7))"
  using poke_exact_access [where env = "\<lparr>pk_fd = 3, pk_remap = True, pk_base = 0x7000\<rparr>" and
      addr = "0xA0000010" and pm = demo_mem and v = 7 and d = "\<lambda>_. 0"]
  by (simp add: demo_mem_def)

section \<open>The clocks\<close>

lemma freq_find_nearest:
  assumes "- (2 ^ 31) + 801 \<le> f" and "f \<le> 10798" and "i \<in> {1..32}"
  shows "\<bar>base_freq div freq_find f - f\<bar> \<le> \<bar>base_freq div i - f\<bar>"
proof -
  have eq: "freq_distance f j = \<bar>base_freq div j - f\<bar>" if "j \<in> {1..32}" for j
    using assms(1,2) that by (intro freq_distance_eq) auto
  have rng: "freq_find f \<in> {1..32}" using freq_find_range [of f] by simp
  show ?thesis
  proof (cases "\<exists>j \<in> {1..32}. freq_distance f j < 9999")
    case True
    then show ?thesis using freq_find_best [of _ f i] assms(3) eq rng by auto
  next
    case False
    then have far: "\<forall>j \<in> set [1..32]. 9999 \<le> freq_distance f j" by auto
    then have "freq_find f = 32" by (simp only: freq_find_def freq_find_loop_far fst_conv)
    moreover have "9999 \<le> \<bar>base_freq div 1 - f\<bar>" using far eq [of 1] bspec [OF far, of 1] by simp
    then have "f \<le> 25" using assms(2) by (simp add: base_freq_def)
    ultimately show ?thesis using div_base_freq [OF assms(3)] by (simp add: base_freq_def)
  qed
qed

lemma freq_store_number:
  assumes "freq_sync c r" and "- (2 ^ 31) \<le> f" and "f < 2 ^ 31"
  obtains c' r' where "freq_store (print_int f @ newline) c r = Ok (length (print_int f @ newline)) (c', r')"
    and "freq_sync c' r'" and "clk_freq c' = base_freq div freq_find f"
proof -
  obtain pa where pa: "clk_virt c = Some pa" using assms(1) by (auto simp: freq_sync_def)
  let ?c = "c\<lparr>clk_freq := base_freq div freq_find f, clk_hex := freq_hex (clk_hex c) (freq_find f)\<rparr>"
  have run: "freq_store (print_int f @ newline) c r =
      Ok (length (print_int f @ newline)) (?c, r(pa := freq_hex (clk_hex c) (freq_find f)))"
    using pa ksscanf_d_printed [OF assms(2,3) ends_number_newline]
    by (simp add: freq_store_def writel_def Let_def)
  then show thesis using that freq_sync_freq [OF assms(1) run] by simp
qed

text \<open>
  C25. Writing a frequency to the file "frequency" gives the clock the frequency nearest to it
  that a divider from 1 to 32 makes of the 800 MHz of the source, for every number up to 10798.
  Asked for more, the driver gives the slowest clock, 25 MHz: every distance is at least the
  bound the search starts with, so no divider is ever chosen.
\<close>

theorem psregs_frequency_nearest:
  assumes "freq_sync c r" and "- (2 ^ 31) + 801 \<le> f" and "f < 2 ^ 31"
  shows "\<exists>c' r'. freq_store (print_int f @ newline) c r = Ok (length (print_int f @ newline)) (c', r') \<and>
    freq_sync c' r' \<and> (\<exists>i \<in> {1..32}. clk_freq c' = base_freq div i) \<and>
    (if f \<le> 10798 then \<forall>i \<in> {1..32}. \<bar>clk_freq c' - f\<bar> \<le> \<bar>base_freq div i - f\<bar>
     else clk_freq c' = 25)"
proof -
  obtain c' r' where run: "freq_store (print_int f @ newline) c r = Ok (length (print_int f @ newline)) (c', r')"
    "freq_sync c' r'" "clk_freq c' = base_freq div freq_find f"
    by (rule freq_store_number [OF assms(1), of f]) (use assms(2,3) in simp_all)
  have "freq_find f = 32" if "\<not> f \<le> 10798"
  proof -
    have "\<forall>i \<in> set [1..32]. 9999 \<le> freq_distance f i"
    proof
      fix i :: int assume "i \<in> set [1..32]"
      then have i: "i \<in> {1..32}" by simp
      then show "9999 \<le> freq_distance f i"
        using freq_distance_eq [OF _ assms(3) i] div_base_freq [OF i] that by simp
    qed
    then show ?thesis by (simp only: freq_find_def freq_find_loop_far fst_conv)
  qed
  moreover have "freq_find f \<in> {1..32}" using freq_find_range [of f] by simp
  then have "\<exists>i \<in> {1..32}. clk_freq c' = base_freq div i" using run(3) by blast
  ultimately show ?thesis
    using run freq_find_nearest [OF assms(2)] by (auto simp: base_freq_def)
qed

definition demo_clock :: plclk where
  "demo_clock = \<lparr>clk_hex = 0x01010800, clk_freq = 100, clk_ena = 1, clk_virt = Some 0xFF5E00C0\<rparr>"

lemma demo_clock_sync: "freq_sync demo_clock (\<lambda>_. 0x01010800)"
  by (simp add: freq_sync_def demo_clock_def divider_field_def FREQ_MASK_def base_freq_def)

theorem psregs_frequency_nearest_witness:
  "\<exists>c' r'. freq_store (print_int 270 @ newline) demo_clock (\<lambda>_. 0x01010800) =
     Ok (length (print_int 270 @ newline)) (c', r') \<and> \<bar>clk_freq c' - 270\<bar> \<le> 4"
  using psregs_frequency_nearest [OF demo_clock_sync, of 270]
  by (auto simp: base_freq_def dest!: bspec [of _ _ 3])

datatype clock_write = WriteEnable string | WriteFrequency string

fun clock_writes :: "clock_write list \<Rightarrow> plclk \<Rightarrow> regs \<Rightarrow> (unit, plclk \<times> regs) outcome" where
  "clock_writes [] c r = Ok () (c, r)"
| "clock_writes (WriteEnable buf # ws) c r = obind (ena_store buf c r) (\<lambda>n (c1, r1). clock_writes ws c1 r1)"
| "clock_writes (WriteFrequency buf # ws) c r = obind (freq_store buf c r) (\<lambda>n (c1, r1). clock_writes ws c1 r1)"

definition clock_frame :: "plclk \<Rightarrow> regs \<Rightarrow> plclk \<Rightarrow> regs \<Rightarrow> bool" where
  "clock_frame c r c' r' \<longleftrightarrow>
     freq_sync c' r' \<and> clk_virt c' = clk_virt c \<and> (\<forall>pa. clk_virt c \<noteq> Some pa \<longrightarrow> r' pa = r pa) \<and>
     (\<forall>n. n < 32 \<and> n \<notin> {1, 24} \<and> n \<notin> {8..<14} \<and> n \<notin> {16..<22} \<longrightarrow> bit (clk_hex c') n = bit (clk_hex c) n)"

lemma clock_frame_trans: "clock_frame c r c1 r1 \<Longrightarrow> clock_frame c1 r1 c2 r2 \<Longrightarrow> clock_frame c r c2 r2"
  by (auto simp: clock_frame_def)

lemma ena_store_frame:
  assumes "freq_sync c r"
  obtains n c' r' where "ena_store buf c r = Ok n (c', r')" and "clock_frame c r c' r'"
proof -
  obtain n c' r' where run: "ena_store buf c r = Ok n (c', r')"
    using assms by (cases "ksscanf_d buf") (auto simp: ena_store_def writel_def freq_sync_def Let_def)
  have "clock_frame c r c' r'"
    using freq_sync_ena [OF assms run] run assms
    by (auto simp: clock_frame_def ena_store_def writel_def freq_sync_def Let_def ena_hex_bit
        split: option.splits if_splits)
  then show thesis by (rule that [OF run])
qed

lemma freq_store_frame:
  assumes "freq_sync c r"
  obtains n c' r' where "freq_store buf c r = Ok n (c', r')" and "clock_frame c r c' r'"
proof -
  obtain n c' r' where run: "freq_store buf c r = Ok n (c', r')"
    using assms by (cases "ksscanf_d buf") (auto simp: freq_store_def writel_def freq_sync_def Let_def)
  have "clock_frame c r c' r'"
    using freq_sync_freq [OF assms run] run assms
    by (auto simp: clock_frame_def freq_store_def writel_def freq_sync_def Let_def freq_hex_bit
        split: option.splits if_splits)
  then show thesis by (rule that [OF run])
qed

text \<open>
  C26. After a clock was read at load time, any sequence of writes to its two files runs
  without a fault, keeps the shown frequency equal to what the register's divider makes, and
  changes no other register and no bit of this one outside the enable bit, the two dividers
  and bit 1.
\<close>

theorem psregs_writes_frame:
  assumes "read_clock virt r = Ok c r0"
  shows "\<exists>c' r'. clock_writes ws c r0 = Ok () (c', r') \<and> clock_frame c r0 c' r'"
proof -
  have "freq_sync c r0" using freq_sync_read [OF assms] by blast
  then show ?thesis
  proof (induction ws arbitrary: c r0)
    case Nil
    then show ?case by (simp add: clock_frame_def)
  next
    case (Cons w ws)
    obtain n c1 r1 where first: "(case w of WriteEnable buf \<Rightarrow> ena_store buf c r0
        | WriteFrequency buf \<Rightarrow> freq_store buf c r0) = Ok n (c1, r1)" "clock_frame c r0 c1 r1"
      by (cases w) (auto intro: ena_store_frame [OF Cons.prems] freq_store_frame [OF Cons.prems])
    then have "freq_sync c1 r1" by (simp add: clock_frame_def)
    from Cons.IH [OF this] first show ?case
      by (cases w) (auto intro: clock_frame_trans)
  qed
qed

theorem psregs_writes_frame_witness:
  "\<exists>c' r'. clock_writes [WriteEnable ''0'', WriteFrequency ''50'']
      \<lparr>clk_hex = 0x01010800, clk_freq = 100, clk_ena = 1, clk_virt = Some 0xFF5E00C0\<rparr> (\<lambda>_. 0x01010800) = Ok () (c', r')"
proof -
  have "read_clock (Some 0xFF5E00C0) (\<lambda>_. 0x01010800) =
      Ok \<lparr>clk_hex = 0x01010800, clk_freq = 100, clk_ena = 1, clk_virt = Some 0xFF5E00C0\<rparr> (\<lambda>_. 0x01010800)"
    by (simp add: read_clock_def readl_def FREQ_MASK_def base_freq_def Let_def)
  from psregs_writes_frame [OF this] show ?thesis by blast
qed

section \<open>The AXI DMA through UIO\<close>

text \<open>
  C27. After loading, whatever is done with the files, in whatever order: the address stays in
  the accepted range, the interrupt line is one of eight, the registers are mapped exactly when
  the device is enabled, and an enabled device is registered with UIO.
\<close>

theorem uio_invariant:
  "uio_inv (fold uio_step xs (snd (axidma_init rc files axidma_unloaded)))"
proof (rule uio_inv_steps)
  have upd: "uio_inv (s\<lparr>us_files := n\<rparr>) = uio_inv s"
    "uio_inv (s\<lparr>us_device := False, us_kobject := False\<rparr>) = uio_inv s" for s n
    by (simp_all add: uio_inv_def)
  have "uio_inv (snd (create_files rcs s))" if "uio_inv s" for rcs s
    using that by (induction rcs arbitrary: s) (simp_all add: upd)
  moreover have "uio_inv (axidma_unloaded\<lparr>us_device := True, us_kobject := True\<rparr>)"
    by (simp add: axidma_unloaded_def uio_inv_def)
  ultimately show "uio_inv (snd (axidma_init rc files axidma_unloaded))"
    by (cases files) (simp add: axidma_init_def uio_inv_unloaded del: create_files.simps)
qed

text \<open>
  C28. Unloading undoes every UIO registration when the registers can always be mapped. When
  the mapping fails while the device is being enabled, the registration stays: the device is
  shown as disabled, and unloading leaves it registered.
\<close>

theorem uio_registrations:
  assumes "uio_balanced s" and "us_enable s = 0" and "\<not> us_in_use s"
    and "ksscanf_d buf = Some tmp" and "tmp \<noteq> 0"
    and "en_node ev" and "en_domain ev" and "0 \<le> en_register ev"
  shows "(\<forall>xs. (\<forall>x \<in> set xs. remap_works x) \<longrightarrow> us_registered (axidma_exit (fold uio_step xs s)) = 0) \<and>
    (\<not> en_remap ev \<longrightarrow> us_enable (enable_store ev buf s) = 0 \<and>
       us_registered (axidma_exit (enable_store ev buf s)) = 1)"
proof (intro conjI allI impI)
  fix xs assume "\<forall>x \<in> set xs. remap_works x"
  with assms(1) have "uio_balanced (fold uio_step xs s)" by (rule uio_balanced_steps)
  then show "us_registered (axidma_exit (fold uio_step xs s)) = 0"
    by (auto simp: uio_balanced_def uio_inv_def axidma_exit_def Let_def)
next
  assume "\<not> en_remap ev"
  then show "us_enable (enable_store ev buf s) = 0"
    and "us_registered (axidma_exit (enable_store ev buf s)) = 1"
    using assms by (simp_all add: enable_store_def enable_commit_def axidma_exit_def uio_balanced_def Let_def)
qed

theorem uio_registrations_witness:
  "us_registered (axidma_exit (enable_store
     \<lparr>en_node = True, en_domain = True, en_virq = (\<lambda>i. i), en_register = 0, en_remap = False\<rparr>
     (print_int 1 @ newline) axidma_unloaded)) = 1"
proof -
  have "uio_balanced axidma_unloaded"
    by (simp add: uio_balanced_def uio_inv_unloaded) (simp add: axidma_unloaded_def)
  from uio_registrations [OF this, of "print_int 1 @ newline" 1
      "\<lparr>en_node = True, en_domain = True, en_virq = (\<lambda>i. i), en_register = 0, en_remap = False\<rparr>"]
  show ?thesis by (simp add: axidma_unloaded_def ksscanf_d_printed ends_number_newline)
qed



text \<open>
  C29. Operations that run one at a time change no setting of an open device. With operations
  that interleave the driver's invariant still holds, but the settings of an open device do
  change: a store that was checked before the open takes effect after it. So the device can be
  unregistered and its registers unmapped while a user has it open.
\<close>

theorem uio_settings_race:
  assumes "uio_inv s" and "\<not> us_in_use s" and "us_enable s = 1"
    and "ksscanf_d buf = Some 0"
  shows "(\<forall>x. us_in_use t \<longrightarrow> uio_step x t = t \<or> x = OpRelease) \<and>
    (\<forall>u ws. race_step\<^sup>*\<^sup>* (s, []) (u, ws) \<longrightarrow> uio_inv u) \<and>
    (\<exists>u. race_step\<^sup>*\<^sup>* (s, []) (u, []) \<and> us_in_use u \<and> us_virt u = None \<and>
       us_registered u = us_registered s - 1)"
proof (intro conjI allI impI)
  fix x assume "us_in_use t"
  then show "uio_step x t = t \<or> x = OpRelease"
    by (cases x) (simp_all add: axidma_open_def enable_store_def phys_base_store_def irq_line_store_def)
next
  fix u ws assume "race_step\<^sup>*\<^sup>* (s, []) (u, ws)"
  from race_inv [OF this] assms(1) show "uio_inv u" by simp
next
  let ?u = "s\<lparr>us_registered := us_registered s - 1, us_virt := None, us_enable := 0, us_in_use := True\<rparr>"
  have "uio_commit (SEnable ev buf) s = s\<lparr>us_registered := us_registered s - 1, us_virt := None, us_enable := 0\<rparr>" for ev
    using assms(3,4) by (simp add: enable_commit_def)
  with commit_while_open [OF assms(2), of "SEnable _ buf"] have "race_step\<^sup>*\<^sup>* (s, []) (?u, [])" by simp
  then show "\<exists>u. race_step\<^sup>*\<^sup>* (s, []) (u, []) \<and> us_in_use u \<and> us_virt u = None \<and>
       us_registered u = us_registered s - 1"
    by (intro exI [of _ ?u]) simp
qed

theorem uio_settings_race_witness:
  "\<exists>u. race_step\<^sup>*\<^sup>* (axidma_unloaded\<lparr>us_enable := 1, us_virt := Some 0xA0000000, us_registered := 1\<rparr>, []) (u, []) \<and>
     us_in_use u \<and> us_virt u = None \<and> us_registered u = 0"
proof -
  let ?s = "axidma_unloaded\<lparr>us_enable := 1, us_virt := Some 0xA0000000, us_registered := 1\<rparr>"
  have "uio_inv ?s" "\<not> us_in_use ?s" "us_enable ?s = 1"
    by (simp_all add: uio_inv_def axidma_unloaded_def)
  from uio_settings_race [OF this, of "print_int 0 @ newline" axidma_unloaded]
  show ?thesis by (simp add: ksscanf_d_printed ends_number_newline)
qed

section \<open>The AXI timer\<close>

text \<open>
  C38. Loading and unloading the timer driver, for every answer of the kernel. When the registers
  cannot be mapped or the device cannot be registered, the error is returned and nothing is held.
  When the interrupt controller's node or domain is missing, loading returns the result of
  device_register, which is no error: the module stays loaded with its registers unmapped and its
  device registered, and unloading it is a fault. When the interrupt and UIO are set up, loading
  returns 0 with everything held, and unloading gives everything back. Every other failure
  returns a negative number with the registers unmapped; the device stays registered when it is
  the interrupt that is missing.
\<close>

theorem timer_load_unload:
  "let (rc, s) = timer_init ev timer_unloaded;
       virq = (if te_find ev = 0 then te_create ev else te_find ev) in
    (if \<not> te_remap ev then rc = - 12 \<and> \<not> tm_mapped s \<and> \<not> tm_device s \<and> \<not> tm_uio s
     else if te_device ev < 0 then rc = te_device ev \<and> \<not> tm_mapped s \<and> \<not> tm_device s \<and> \<not> tm_uio s
     else if \<not> (te_node ev \<and> te_domain ev)
     then rc = te_device ev \<and> 0 \<le> rc \<and> \<not> tm_mapped s \<and> tm_device s \<and> \<not> tm_uio s \<and> faulty (timer_exit s)
     else if 0 < virq \<and> 0 \<le> te_uio ev
     then rc = 0 \<and> tm_mapped s \<and> tm_device s \<and> tm_uio s \<and> tm_irq s = virq \<and> tm_reg s = 0 \<and>
          timer_exit s = Ok () (timer_unloaded\<lparr>tm_irq := virq\<rparr>)
     else rc < 0 \<and> \<not> tm_mapped s \<and> \<not> tm_uio s \<and> (tm_device s \<longleftrightarrow> virq \<le> 0))"
  by (auto simp: timer_init_def timer_exit_def timer_unloaded_def Let_def)

theorem timer_load_unload_witness:
  "timer_init \<lparr>te_remap = True, te_device = 0, te_node = False, te_domain = True, te_find = 0,
     te_create = 40, te_uio = 0\<rparr> timer_unloaded = (0, timer_unloaded\<lparr>tm_device := True\<rparr>) \<and>
   faulty (timer_exit (timer_unloaded\<lparr>tm_device := True\<rparr>))"
  using timer_load_unload [of "\<lparr>te_remap = True, te_device = 0, te_node = False, te_domain = True, te_find = 0,
     te_create = 40, te_uio = 0\<rparr>"]
  by (simp add: timer_init_def timer_unloaded_def)

end
