(* ===== verification/LibAxidma.thy ===== *)
theory LibAxidma
  imports Prelude
begin

text \<open>
  The user library ps_to_pl/util/libaxidma.c over the AXI DMA driver: discovery of the
  channels, callbacks and transfers. The driver is not in the repository: what its ioctls
  answer is an argument, the calls made are recorded.
\<close>

section \<open>Data\<close>

datatype axidma_dir = AXIDMA_WRITE | AXIDMA_READ

datatype axidma_type = AXIDMA_DMA | AXIDMA_VDMA

record axidma_chan =
  ac_dir :: axidma_dir
  ac_type :: axidma_type
  ac_id :: int

record axidma_num_channels =
  nc_channels :: int
  nc_dma_tx :: int
  nc_dma_rx :: int
  nc_vdma_tx :: int
  nc_vdma_rx :: int

record axidma_video_frame =
  vf_height :: int
  vf_width :: int
  vf_depth :: int

text \<open>
  A pointer to a heap block: null, pointing to a live block with its contents, or dangling
  after a free. A block of ints has as many elements as were asked for.
\<close>

datatype 'a ptr = Null | Dangling | Block 'a

record array_t =
  arr_len :: nat
  arr_data :: "int list ptr"

text \<open>A callback is named by a number; \<open>None\<close> is NULL.\<close>

record dma_channel =
  dc_dir :: axidma_dir
  dc_type :: axidma_type
  dc_id :: int
  dc_callback :: "nat option"
  dc_user_data :: u64

record axidma_transaction =
  tr_wait :: bool
  tr_channel_id :: int
  tr_buf :: u64
  tr_buf_len :: u64

record axidma_inout_transaction =
  io_wait :: bool
  io_tx_channel_id :: int
  io_tx_buf :: u64
  io_tx_buf_len :: u64
  io_tx_frame :: axidma_video_frame
  io_rx_channel_id :: int
  io_rx_buf :: u64
  io_rx_buf_len :: u64
  io_rx_frame :: axidma_video_frame

record axidma_video_transaction =
  vt_channel_id :: int
  vt_num_frame_buffers :: int
  vt_frame_buffers :: u64
  vt_frame :: axidma_video_frame

datatype ioctl_call =
    GET_NUM_DMA_CHANNELS
  | GET_DMA_CHANNELS
  | SET_DMA_SIGNAL
  | REGISTER_BUFFER int u64 u64
  | DMA_READ axidma_transaction
  | DMA_WRITE axidma_transaction
  | DMA_READWRITE axidma_inout_transaction
  | DMA_VIDEO_READ axidma_video_transaction
  | DMA_VIDEO_WRITE axidma_video_transaction
  | STOP_DMA_CHANNEL axidma_chan
  | UNREGISTER_BUFFER u64

text \<open>The global \<open>axidma_dev\<close>, with \<open>d_log\<close> the ioctls issued, the last one last.\<close>

record axidma_dev =
  d_initialized :: bool
  d_fd :: int
  d_dma_tx :: array_t
  d_dma_rx :: array_t
  d_vdma_tx :: array_t
  d_vdma_rx :: array_t
  d_num_channels :: int
  d_channels :: "dma_channel list ptr"
  d_log :: "ioctl_call list"

definition empty_array :: array_t where
  "empty_array = \<lparr>arr_len = 0, arr_data = Null\<rparr>"

definition axidma_dev_zero :: axidma_dev where
  "axidma_dev_zero = \<lparr>d_initialized = False, d_fd = 0, d_dma_tx = empty_array, d_dma_rx = empty_array,
     d_vdma_tx = empty_array, d_vdma_rx = empty_array, d_num_channels = 0, d_channels = Null, d_log = []\<rparr>"

section \<open>The heap\<close>

text \<open>\<open>ok\<close> says whether malloc has the memory; a negative count asks for too much.\<close>

definition malloc_ints :: "bool \<Rightarrow> int \<Rightarrow> int list ptr" where
  "malloc_ints ok n = (if ok \<and> 0 \<le> n then Block (replicate (nat n) 0) else Null)"

definition malloc_channels :: "bool \<Rightarrow> int \<Rightarrow> dma_channel list ptr" where
  "malloc_channels ok n =
     (if ok \<and> 0 \<le> n
      then Block (replicate (nat n) \<lparr>dc_dir = AXIDMA_WRITE, dc_type = AXIDMA_DMA, dc_id = 0,
                    dc_callback = None, dc_user_data = 0\<rparr>)
      else Null)"

fun freed :: "'a ptr \<Rightarrow> 'a ptr" where
  "freed (Block x) = Dangling"
| "freed Null = Null"
| "freed Dangling = Dangling"

section \<open>Categorizing the channels\<close>

fun get_array :: "axidma_dir \<Rightarrow> axidma_type \<Rightarrow> axidma_dev \<Rightarrow> array_t" where
  "get_array AXIDMA_WRITE AXIDMA_DMA d = d_dma_tx d"
| "get_array AXIDMA_READ AXIDMA_DMA d = d_dma_rx d"
| "get_array AXIDMA_WRITE AXIDMA_VDMA d = d_vdma_tx d"
| "get_array AXIDMA_READ AXIDMA_VDMA d = d_vdma_rx d"

fun set_array :: "axidma_dir \<Rightarrow> axidma_type \<Rightarrow> array_t \<Rightarrow> axidma_dev \<Rightarrow> axidma_dev" where
  "set_array AXIDMA_WRITE AXIDMA_DMA a d = d\<lparr>d_dma_tx := a\<rparr>"
| "set_array AXIDMA_READ AXIDMA_DMA a d = d\<lparr>d_dma_rx := a\<rparr>"
| "set_array AXIDMA_WRITE AXIDMA_VDMA a d = d\<lparr>d_vdma_tx := a\<rparr>"
| "set_array AXIDMA_READ AXIDMA_VDMA a d = d\<lparr>d_vdma_rx := a\<rparr>"

definition array_push :: "int \<Rightarrow> array_t \<Rightarrow> fault + array_t" where
  "array_push x a =
     (case arr_data a of
        Null \<Rightarrow> Inl NullDeref
      | Dangling \<Rightarrow> Inl UseAfterFree
      | Block xs \<Rightarrow>
          if arr_len a < length xs
          then Inr \<lparr>arr_len = arr_len a + 1, arr_data = Block (xs[arr_len a := x])\<rparr>
          else Inl OutOfBounds)"

text \<open>The loop over the channels: \<open>n\<close> turns are left, the next one is for index \<open>i\<close>.\<close>

fun categorize_loop :: "axidma_chan list \<Rightarrow> nat \<Rightarrow> nat \<Rightarrow> axidma_dev \<Rightarrow> (unit, axidma_dev) outcome" where
  "categorize_loop chans 0 i d = Ok () d"
| "categorize_loop chans (Suc n) i d =
     (if length chans \<le> i then Fault UninitRead
      else
        let chan = chans ! i in
        case array_push (ac_id chan) (get_array (ac_dir chan) (ac_type chan) d) of
          Inl f \<Rightarrow> Fault f
        | Inr a \<Rightarrow>
            let d1 = set_array (ac_dir chan) (ac_type chan) a d in
            (case d_channels d1 of
               Null \<Rightarrow> Fault NullDeref
             | Dangling \<Rightarrow> Fault UseAfterFree
             | Block cs \<Rightarrow>
                 if length cs \<le> i then Fault OutOfBounds
                 else categorize_loop chans n (i + 1)
                   (d1\<lparr>d_channels := Block (cs[i := \<lparr>dc_dir = ac_dir chan, dc_type = ac_type chan,
                      dc_id = ac_id chan, dc_callback = None, dc_user_data = 0\<rparr>])\<rparr>)))"

definition ENOMEM_rc :: int where "ENOMEM_rc = - 12"
definition ENODEV_rc :: int where "ENODEV_rc = - 19"

text \<open>\<open>mem k\<close>: whether the k-th malloc of the function finds memory.\<close>

definition categorize_channels :: "(nat \<Rightarrow> bool) \<Rightarrow> axidma_chan list \<Rightarrow> axidma_num_channels \<Rightarrow>
    axidma_dev \<Rightarrow> (int, axidma_dev) outcome" where
  "categorize_channels mem chans num d =
     (let cs = malloc_channels (mem 0) (nc_channels num); d1 = d\<lparr>d_channels := cs\<rparr> in
      if cs = Null then Ok ENOMEM_rc d1
      else
        let tx = malloc_ints (mem 1) (nc_dma_tx num);
            d2 = d1\<lparr>d_dma_tx := (d_dma_tx d1)\<lparr>arr_data := tx\<rparr>\<rparr> in
        if tx = Null then Ok ENOMEM_rc (d2\<lparr>d_channels := freed cs\<rparr>)
        else
          let rx = malloc_ints (mem 2) (nc_dma_rx num);
              d3 = d2\<lparr>d_dma_rx := (d_dma_rx d2)\<lparr>arr_data := rx\<rparr>\<rparr> in
          if rx = Null
          then Ok ENOMEM_rc (d3\<lparr>d_channels := freed cs, d_dma_tx := (d_dma_tx d3)\<lparr>arr_data := freed tx\<rparr>\<rparr>)
          else
            let vtx = malloc_ints (mem 3) (nc_vdma_tx num);
                d4 = d3\<lparr>d_vdma_tx := (d_vdma_tx d3)\<lparr>arr_data := vtx\<rparr>\<rparr> in
            if vtx = Null
            then Ok ENOMEM_rc (d4\<lparr>d_channels := freed cs, d_dma_tx := (d_dma_tx d4)\<lparr>arr_data := freed tx\<rparr>,
                   d_dma_rx := (d_dma_rx d4)\<lparr>arr_data := freed rx\<rparr>\<rparr>)
            else
              let vrx = malloc_ints (mem 4) (nc_vdma_rx num);
                  d5 = d4\<lparr>d_vdma_rx := (d_vdma_rx d4)\<lparr>arr_data := vrx\<rparr>\<rparr> in
              if vrx = Null
              then Ok ENOMEM_rc (d5\<lparr>d_channels := freed cs, d_dma_tx := (d_dma_tx d5)\<lparr>arr_data := freed tx\<rparr>,
                     d_dma_rx := (d_dma_rx d5)\<lparr>arr_data := freed rx\<rparr>,
                     d_vdma_tx := (d_vdma_tx d5)\<lparr>arr_data := freed vtx\<rparr>\<rparr>)
              else obind (categorize_loop chans (nat (nc_channels num)) 0
                            (d5\<lparr>d_num_channels := nc_channels num\<rparr>))
                     (\<lambda>_ d6. Ok 0 d6))"

section \<open>Opening and closing the device\<close>

text \<open>
  What the driver and the C library answer while the device is opened: the descriptor, the
  result and the counts of the first ioctl, the result and the channels of the second, the
  mallocs (0 for the array of the probe, from 1 those of the categorization), and the
  results of sigaction and of the ioctl that sets the signal.
\<close>

record lib_env =
  le_open :: int
  le_num :: "int \<times> axidma_num_channels"
  le_chans :: "int \<times> axidma_chan list"
  le_malloc :: "nat \<Rightarrow> bool"
  le_sigaction :: int
  le_setsig :: int

definition log_call :: "ioctl_call \<Rightarrow> axidma_dev \<Rightarrow> axidma_dev" where
  "log_call c d = d\<lparr>d_log := d_log d @ [c]\<rparr>"

definition probe_channels :: "lib_env \<Rightarrow> axidma_dev \<Rightarrow> (int, axidma_dev) outcome" where
  "probe_channels ev d =
     (let d1 = log_call GET_NUM_DMA_CHANNELS d; (rc, num) = le_num ev in
      if rc < 0 then Ok rc d1
      else if nc_channels num = 0 then Ok ENODEV_rc d1
      else if \<not> (le_malloc ev 0 \<and> 0 \<le> nc_channels num) then Ok ENOMEM_rc d1
      else
        let d2 = log_call GET_DMA_CHANNELS d1; (rc, chans) = le_chans ev in
        if rc < 0 then Ok rc d2
        else categorize_channels (\<lambda>k. le_malloc ev (k + 1)) chans num d2)"

definition setup_dma_callback :: "lib_env \<Rightarrow> axidma_dev \<Rightarrow> int \<times> axidma_dev" where
  "setup_dma_callback ev d =
     (if le_sigaction ev < 0 then (le_sigaction ev, d)
      else
        let d1 = log_call SET_DMA_SIGNAL d in
        if le_setsig ev < 0 then (le_setsig ev, d1) else (0, d1))"

text \<open>The value is whether a handle is returned (it is the address of the global).\<close>

definition axidma_init_dev :: "lib_env \<Rightarrow> axidma_dev \<Rightarrow> (bool, axidma_dev) outcome" where
  "axidma_init_dev ev d =
     (if d_initialized d then Fault AssertFailed
      else
        let d1 = d\<lparr>d_fd := le_open ev\<rparr> in
        if le_open ev < 0 then Ok False d1
        else obind (probe_channels ev d1) (\<lambda>rc d2.
          if rc < 0 then Ok False d2
          else case setup_dma_callback ev d2 of
                 (rc2, d3) \<Rightarrow>
                   if rc2 < 0 then Ok False d3 else Ok True (d3\<lparr>d_initialized := True\<rparr>)))"

definition free_array :: "array_t \<Rightarrow> array_t" where
  "free_array a = a\<lparr>arr_data := freed (arr_data a)\<rparr>"

text \<open>\<open>rc\<close> is the result of close.\<close>

definition axidma_destroy :: "int \<Rightarrow> axidma_dev \<Rightarrow> (unit, axidma_dev) outcome" where
  "axidma_destroy rc d =
     (if arr_data (d_vdma_rx d) = Dangling \<or> arr_data (d_vdma_tx d) = Dangling \<or>
         arr_data (d_dma_rx d) = Dangling \<or> arr_data (d_dma_tx d) = Dangling \<or>
         d_channels d = Dangling
      then Fault DoubleFree
      else if rc < 0 then Fault AssertFailed
      else Ok () (d\<lparr>d_vdma_rx := free_array (d_vdma_rx d), d_vdma_tx := free_array (d_vdma_tx d),
             d_dma_rx := free_array (d_dma_rx d), d_dma_tx := free_array (d_dma_tx d),
             d_channels := freed (d_channels d), d_initialized := False\<rparr>))"

section \<open>Channels and callbacks\<close>

fun find_channel_loop :: "dma_channel list \<Rightarrow> nat \<Rightarrow> nat \<Rightarrow> int \<Rightarrow> fault + nat option" where
  "find_channel_loop cs 0 i channel_id = Inr None"
| "find_channel_loop cs (Suc n) i channel_id =
     (if length cs \<le> i then Inl OutOfBounds
      else if dc_id (cs ! i) = channel_id then Inr (Some i)
      else find_channel_loop cs n (i + 1) channel_id)"

text \<open>The index of the channel found; \<open>None\<close> is the null pointer.\<close>

definition find_channel :: "int \<Rightarrow> axidma_dev \<Rightarrow> fault + nat option" where
  "find_channel channel_id d =
     (if d_num_channels d \<le> 0 then Inr None
      else
        case d_channels d of
          Null \<Rightarrow> Inl NullDeref
        | Dangling \<Rightarrow> Inl UseAfterFree
        | Block cs \<Rightarrow> find_channel_loop cs (nat (d_num_channels d)) 0 channel_id)"

text \<open>
  \<open>assert(find_channel(dev, channel) != NULL)\<close> followed by the use of the channel.
\<close>

definition with_channel :: "int \<Rightarrow> axidma_dev \<Rightarrow> (dma_channel \<Rightarrow> ('a, axidma_dev) outcome) \<Rightarrow>
    ('a, axidma_dev) outcome" where
  "with_channel channel d f =
     (case find_channel channel d of
        Inl x \<Rightarrow> Fault x
      | Inr None \<Rightarrow> Fault AssertFailed
      | Inr (Some i) \<Rightarrow> (case d_channels d of Block cs \<Rightarrow> f (cs ! i) | _ \<Rightarrow> Fault NullDeref))"

definition axidma_set_callback :: "int \<Rightarrow> nat option \<Rightarrow> u64 \<Rightarrow> axidma_dev \<Rightarrow> (unit, axidma_dev) outcome" where
  "axidma_set_callback channel callback data d =
     with_channel channel d (\<lambda>_.
       case d_channels d of
         Block cs \<Rightarrow>
           if 0 \<le> channel \<and> nat channel < length cs
           then Ok () (d\<lparr>d_channels := Block (cs[nat channel :=
                  (cs ! nat channel)\<lparr>dc_callback := callback, dc_user_data := data\<rparr>])\<rparr>)
           else Fault OutOfBounds
       | _ \<Rightarrow> Fault NullDeref)"

text \<open>The signal handler: which callback it calls, with what arguments.\<close>

definition axidma_callback :: "int \<Rightarrow> axidma_dev \<Rightarrow> ((nat \<times> int \<times> u64) option, axidma_dev) outcome" where
  "axidma_callback si_int d =
     (if \<not> (0 \<le> si_int \<and> si_int < d_num_channels d) then Fault AssertFailed
      else
        case d_channels d of
          Null \<Rightarrow> Fault NullDeref
        | Dangling \<Rightarrow> Fault UseAfterFree
        | Block cs \<Rightarrow>
            if length cs \<le> nat si_int then Fault OutOfBounds
            else Ok (map_option (\<lambda>cb. (cb, si_int, dc_user_data (cs ! nat si_int)))
                       (dc_callback (cs ! nat si_int))) d)"

section \<open>Buffers and transfers\<close>

text \<open>\<open>io\<close> is what the driver answers to an ioctl.\<close>

definition do_ioctl :: "(ioctl_call \<Rightarrow> int) \<Rightarrow> ioctl_call \<Rightarrow> axidma_dev \<Rightarrow> int \<times> axidma_dev" where
  "do_ioctl io c d = (io c, log_call c d)"

fun dir_to_ioctl :: "axidma_dir \<Rightarrow> axidma_transaction \<Rightarrow> ioctl_call" where
  "dir_to_ioctl AXIDMA_READ tr = DMA_READ tr"
| "dir_to_ioctl AXIDMA_WRITE tr = DMA_WRITE tr"

definition axidma_register_buffer :: "(ioctl_call \<Rightarrow> int) \<Rightarrow> int \<Rightarrow> u64 \<Rightarrow> u64 \<Rightarrow> axidma_dev \<Rightarrow> int \<times> axidma_dev" where
  "axidma_register_buffer io dmabuf_fd user_addr sz d =
     do_ioctl io (REGISTER_BUFFER dmabuf_fd sz user_addr) d"

definition axidma_unregister_buffer :: "(ioctl_call \<Rightarrow> int) \<Rightarrow> u64 \<Rightarrow> axidma_dev \<Rightarrow> (unit, axidma_dev) outcome" where
  "axidma_unregister_buffer io user_addr d =
     (case do_ioctl io (UNREGISTER_BUFFER user_addr) d of
        (rc, d1) \<Rightarrow> if rc < 0 then Fault AssertFailed else Ok () d1)"

definition axidma_oneway_transfer :: "(ioctl_call \<Rightarrow> int) \<Rightarrow> int \<Rightarrow> u64 \<Rightarrow> u64 \<Rightarrow> bool \<Rightarrow> axidma_dev \<Rightarrow>
    (int, axidma_dev) outcome" where
  "axidma_oneway_transfer io channel buf len wait d =
     with_channel channel d (\<lambda>dma_chan.
       case do_ioctl io (dir_to_ioctl (dc_dir dma_chan)
              \<lparr>tr_wait = wait, tr_channel_id = channel, tr_buf = buf, tr_buf_len = len\<rparr>) d of
         (rc, d1) \<Rightarrow> if rc < 0 then Ok rc d1 else Ok 0 d1)"

definition no_frame :: axidma_video_frame where
  "no_frame = \<lparr>vf_height = - 1, vf_width = - 1, vf_depth = - 1\<rparr>"

definition axidma_twoway_transfer :: "(ioctl_call \<Rightarrow> int) \<Rightarrow> int \<Rightarrow> u64 \<Rightarrow> u64 \<Rightarrow> axidma_video_frame option \<Rightarrow>
    int \<Rightarrow> u64 \<Rightarrow> u64 \<Rightarrow> axidma_video_frame option \<Rightarrow> bool \<Rightarrow> axidma_dev \<Rightarrow> (int, axidma_dev) outcome" where
  "axidma_twoway_transfer io tx_channel tx_buf tx_len tx_frame rx_channel rx_buf rx_len rx_frame wait d =
     with_channel tx_channel d (\<lambda>tx.
       if dc_dir tx \<noteq> AXIDMA_WRITE then Fault AssertFailed
       else with_channel rx_channel d (\<lambda>rx.
         if dc_dir rx \<noteq> AXIDMA_READ then Fault AssertFailed
         else
           case do_ioctl io (DMA_READWRITE
                  \<lparr>io_wait = wait, io_tx_channel_id = tx_channel, io_tx_buf = tx_buf,
                   io_tx_buf_len = tx_len,
                   io_tx_frame = (case tx_frame of None \<Rightarrow> no_frame | Some fr \<Rightarrow> fr),
                   io_rx_channel_id = rx_channel, io_rx_buf = rx_buf, io_rx_buf_len = rx_len,
                   io_rx_frame = (case rx_frame of None \<Rightarrow> no_frame | Some fr \<Rightarrow> fr)\<rparr>) d of
             (rc, d1) \<Rightarrow> Ok rc d1))"

definition axidma_video_transfer :: "(ioctl_call \<Rightarrow> int) \<Rightarrow> int \<Rightarrow> int \<Rightarrow> int \<Rightarrow> int \<Rightarrow> u64 \<Rightarrow> int \<Rightarrow>
    axidma_dev \<Rightarrow> (int, axidma_dev) outcome" where
  "axidma_video_transfer io display_channel width height depth frame_buffers num_buffers d =
     with_channel display_channel d (\<lambda>dma_chan.
       if dc_type dma_chan \<noteq> AXIDMA_VDMA then Fault AssertFailed
       else
         let trans = \<lparr>vt_channel_id = display_channel, vt_num_frame_buffers = num_buffers,
               vt_frame_buffers = frame_buffers,
               vt_frame = \<lparr>vf_height = height, vf_width = width, vf_depth = depth\<rparr>\<rparr> in
         case do_ioctl io (if dc_dir dma_chan = AXIDMA_READ then DMA_VIDEO_READ trans
                           else DMA_VIDEO_WRITE trans) d of
           (rc, d1) \<Rightarrow> Ok rc d1)"

definition axidma_stop_transfer :: "(ioctl_call \<Rightarrow> int) \<Rightarrow> int \<Rightarrow> axidma_dev \<Rightarrow> (unit, axidma_dev) outcome" where
  "axidma_stop_transfer io channel d =
     with_channel channel d (\<lambda>dma_chan.
       case do_ioctl io (STOP_DMA_CHANNEL
              \<lparr>ac_dir = dc_dir dma_chan, ac_type = dc_type dma_chan, ac_id = channel\<rparr>) d of
         (rc, d1) \<Rightarrow> if rc < 0 then Fault AssertFailed else Ok () d1)"

text \<open>The accessors for the arrays of channel numbers.\<close>

definition axidma_get_dma_tx :: "axidma_dev \<Rightarrow> array_t" where
  "axidma_get_dma_tx d = d_dma_tx d"

definition axidma_get_dma_rx :: "axidma_dev \<Rightarrow> array_t" where
  "axidma_get_dma_rx d = d_dma_rx d"

definition axidma_get_vdma_tx :: "axidma_dev \<Rightarrow> array_t" where
  "axidma_get_vdma_tx d = d_vdma_tx d"

definition axidma_get_vdma_rx :: "axidma_dev \<Rightarrow> array_t" where
  "axidma_get_vdma_rx d = d_vdma_rx d"

text \<open>\<open>None\<close> is the null pointer; the mapping fails when mmap does.\<close>

definition axidma_malloc :: "u64 option \<Rightarrow> axidma_dev \<Rightarrow> u64 option" where
  "axidma_malloc mmap_result d = mmap_result"

definition axidma_free :: "int \<Rightarrow> axidma_dev \<Rightarrow> (unit, axidma_dev) outcome" where
  "axidma_free munmap_rc d = (if munmap_rc < 0 then Fault AssertFailed else Ok () d)"

end
