(* ===== verification/LibAxidmaInv.thy ===== *)
theory LibAxidmaInv
  imports LibAxidma
begin

text \<open>
  What libaxidma's discovery establishes: the arrays of channel numbers by direction and
  type, and the table of channels that callbacks and transfers use.
\<close>

section \<open>The specification\<close>

definition ids_of :: "axidma_dir \<Rightarrow> axidma_type \<Rightarrow> axidma_chan list \<Rightarrow> int list" where
  "ids_of dir ty chans = map ac_id (filter (\<lambda>c. ac_dir c = dir \<and> ac_type c = ty) chans)"

definition of_chan :: "axidma_chan \<Rightarrow> dma_channel" where
  "of_chan c = \<lparr>dc_dir = ac_dir c, dc_type = ac_type c, dc_id = ac_id c, dc_callback = None,
     dc_user_data = 0\<rparr>"

text \<open>The counts the driver reports are those of the channels it lists.\<close>

definition counts_ok :: "axidma_num_channels \<Rightarrow> axidma_chan list \<Rightarrow> bool" where
  "counts_ok num chans \<longleftrightarrow>
     nc_channels num = int (length chans) \<and>
     nc_dma_tx num = int (length (ids_of AXIDMA_WRITE AXIDMA_DMA chans)) \<and>
     nc_dma_rx num = int (length (ids_of AXIDMA_READ AXIDMA_DMA chans)) \<and>
     nc_vdma_tx num = int (length (ids_of AXIDMA_WRITE AXIDMA_VDMA chans)) \<and>
     nc_vdma_rx num = int (length (ids_of AXIDMA_READ AXIDMA_VDMA chans))"

definition holds :: "array_t \<Rightarrow> int list \<Rightarrow> nat \<Rightarrow> bool" where
  "holds a xs cap \<longleftrightarrow>
     (\<exists>ys. arr_data a = Block ys \<and> length ys = cap \<and> arr_len a = length xs \<and>
           length xs \<le> cap \<and> take (length xs) ys = xs)"

text \<open>The first \<open>i\<close> channels have been entered.\<close>

definition entered :: "axidma_chan list \<Rightarrow> nat \<Rightarrow> axidma_dev \<Rightarrow> bool" where
  "entered chans i d \<longleftrightarrow>
     (\<forall>dir ty. holds (get_array dir ty d) (ids_of dir ty (take i chans)) (length (ids_of dir ty chans))) \<and>
     (\<exists>cs. d_channels d = Block cs \<and> length cs = length chans \<and>
           take i cs = map of_chan (take i chans))"

lemma get_set_array:
  "get_array dir ty (set_array dir' ty' a d) = (if dir = dir' \<and> ty = ty' then a else get_array dir ty d)"
  by (cases dir; cases ty; cases dir'; cases ty') auto

lemma set_array_frame [simp]:
  "d_channels (set_array dir ty a d) = d_channels d"
  "d_num_channels (set_array dir ty a d) = d_num_channels d"
  "d_log (set_array dir ty a d) = d_log d"
  "d_fd (set_array dir ty a d) = d_fd d"
  "d_initialized (set_array dir ty a d) = d_initialized d"
  by (cases dir; cases ty; simp)+

lemma get_array_channels [simp]: "get_array dir ty (d\<lparr>d_channels := c\<rparr>) = get_array dir ty d"
  by (cases dir; cases ty) auto

lemma ids_of_take_Suc:
  assumes "i < length chans"
  shows "ids_of dir ty (take (Suc i) chans) = ids_of dir ty (take i chans) @
    (if ac_dir (chans ! i) = dir \<and> ac_type (chans ! i) = ty then [ac_id (chans ! i)] else [])"
  using assms by (simp add: ids_of_def take_Suc_conv_app_nth)

lemma ids_of_take_le: "length (ids_of dir ty (take i chans)) \<le> length (ids_of dir ty chans)"
proof -
  have "ids_of dir ty chans = ids_of dir ty (take i chans) @ ids_of dir ty (drop i chans)"
    by (simp add: ids_of_def flip: map_append filter_append)
  then show ?thesis by simp
qed

lemma array_push_holds:
  assumes "holds a xs cap" and "length xs < cap"
  shows "\<exists>a'. array_push x a = Inr a' \<and> holds a' (xs @ [x]) cap"
proof -
  obtain ys where ys: "arr_data a = Block ys" "length ys = cap" "arr_len a = length xs"
    "take (length xs) ys = xs"
    using assms(1) by (auto simp: holds_def)
  have "take (Suc (length xs)) (ys[length xs := x]) = xs @ [x]"
    using ys assms(2) by (simp add: take_Suc_conv_app_nth)
  with ys assms(2) show ?thesis by (simp add: array_push_def holds_def)
qed

text \<open>One turn enters one more channel.\<close>

lemma enter_channel:
  assumes "entered chans i d" and "i < length chans"
  defines "c \<equiv> chans ! i"
  obtains a cs where "array_push (ac_id c) (get_array (ac_dir c) (ac_type c) d) = Inr a"
    and "d_channels d = Block cs" and "i < length cs"
    and "entered chans (Suc i)
           ((set_array (ac_dir c) (ac_type c) a d)\<lparr>d_channels := Block (cs[i := of_chan c])\<rparr>)"
proof -
  let ?arr = "get_array (ac_dir c) (ac_type c) d"
  have h: "holds ?arr (ids_of (ac_dir c) (ac_type c) (take i chans)) (length (ids_of (ac_dir c) (ac_type c) chans))"
    using assms(1) by (auto simp: entered_def)
  have "length (ids_of (ac_dir c) (ac_type c) (take i chans)) <
        length (ids_of (ac_dir c) (ac_type c) chans)"
    using ids_of_take_Suc [OF assms(2), of "ac_dir c" "ac_type c"]
      ids_of_take_le [of "ac_dir c" "ac_type c" "Suc i" chans] by (simp add: c_def)
  from array_push_holds [OF h this] obtain a where
    a: "array_push (ac_id c) ?arr = Inr a"
    "holds a (ids_of (ac_dir c) (ac_type c) (take i chans) @ [ac_id c])
       (length (ids_of (ac_dir c) (ac_type c) chans))"
    by blast
  obtain cs where cs: "d_channels d = Block cs" "length cs = length chans"
    "take i cs = map of_chan (take i chans)"
    using assms(1) by (auto simp: entered_def)
  have "entered chans (Suc i)
      ((set_array (ac_dir c) (ac_type c) a d)\<lparr>d_channels := Block (cs[i := of_chan c])\<rparr>)"
    unfolding entered_def
  proof (intro conjI allI)
    fix dir ty
    show "holds (get_array dir ty ((set_array (ac_dir c) (ac_type c) a d)
        \<lparr>d_channels := Block (cs[i := of_chan c])\<rparr>))
      (ids_of dir ty (take (Suc i) chans)) (length (ids_of dir ty chans))"
      using a(2) assms(1,2) by (auto simp: get_set_array ids_of_take_Suc c_def entered_def)
    show "\<exists>cs'. d_channels ((set_array (ac_dir c) (ac_type c) a d)
        \<lparr>d_channels := Block (cs[i := of_chan c])\<rparr>) = Block cs' \<and>
      length cs' = length chans \<and> take (Suc i) cs' = map of_chan (take (Suc i) chans)"
      using cs assms(2) by (simp add: take_Suc_conv_app_nth c_def)
  qed
  with a(1) cs(1,2) assms(2) show thesis by (intro that) auto
qed

lemma categorize_loop_ok:
  assumes "entered chans i d" and "i + n = length chans"
  shows "\<exists>d'. categorize_loop chans n i d = Ok () d' \<and> entered chans (length chans) d' \<and>
     d_num_channels d' = d_num_channels d \<and> d_log d' = d_log d \<and> d_fd d' = d_fd d \<and>
     d_initialized d' = d_initialized d"
  using assms
proof (induction n arbitrary: i d)
  case 0
  then show ?case by simp
next
  case (Suc n)
  let ?c = "chans ! i"
  have i: "i < length chans" using Suc.prems(2) by simp
  from enter_channel [OF Suc.prems(1) i] obtain a cs where
    e: "array_push (ac_id ?c) (get_array (ac_dir ?c) (ac_type ?c) d) = Inr a"
    "d_channels d = Block cs" "i < length cs"
    "entered chans (Suc i)
       ((set_array (ac_dir ?c) (ac_type ?c) a d)\<lparr>d_channels := Block (cs[i := of_chan ?c])\<rparr>)"
    by blast
  from Suc.IH [OF e(4)] Suc.prems(2) e(1-3) i show ?case
    by (simp add: Let_def of_chan_def not_le)
qed

section \<open>A discovered device\<close>

definition discovered :: "axidma_chan list \<Rightarrow> axidma_dev \<Rightarrow> bool" where
  "discovered chans d \<longleftrightarrow>
     d_num_channels d = int (length chans) \<and>
     (\<forall>dir ty. holds (get_array dir ty d) (ids_of dir ty chans) (length (ids_of dir ty chans))) \<and>
     (\<exists>cs. d_channels d = Block cs \<and> map dc_dir cs = map ac_dir chans \<and>
           map dc_type cs = map ac_type chans \<and> map dc_id cs = map ac_id chans)"

definition fresh_dev :: "axidma_dev \<Rightarrow> bool" where
  "fresh_dev d \<longleftrightarrow> \<not> d_initialized d \<and> (\<forall>dir ty. arr_len (get_array dir ty d) = 0)"

text \<open>The driver and the C library work, and the driver describes its channels correctly.\<close>

definition lib_env_ok :: "lib_env \<Rightarrow> axidma_chan list \<Rightarrow> bool" where
  "lib_env_ok ev chans \<longleftrightarrow>
     0 \<le> le_open ev \<and> 0 \<le> fst (le_num ev) \<and> 0 \<le> fst (le_chans ev) \<and> snd (le_chans ev) = chans \<and>
     counts_ok (snd (le_num ev)) chans \<and> chans \<noteq> [] \<and> (\<forall>k. le_malloc ev k) \<and>
     0 \<le> le_sigaction ev \<and> 0 \<le> le_setsig ev"

lemma categorize_ok:
  assumes "\<forall>k. mem k" and "counts_ok num chans" and "\<forall>dir ty. arr_len (get_array dir ty d) = 0"
  shows "\<exists>d'. categorize_channels mem chans num d = Ok 0 d' \<and> discovered chans d' \<and>
     d_log d' = d_log d \<and> d_fd d' = d_fd d \<and> d_initialized d' = d_initialized d"
proof -
  let ?blk = "\<lambda>n. Block (replicate n (0 :: int))"
  let ?d = "d\<lparr>d_channels := malloc_channels True (nc_channels num),
      d_dma_tx := (d_dma_tx d)\<lparr>arr_data := malloc_ints True (nc_dma_tx num)\<rparr>,
      d_dma_rx := (d_dma_rx d)\<lparr>arr_data := malloc_ints True (nc_dma_rx num)\<rparr>,
      d_vdma_tx := (d_vdma_tx d)\<lparr>arr_data := malloc_ints True (nc_vdma_tx num)\<rparr>,
      d_vdma_rx := (d_vdma_rx d)\<lparr>arr_data := malloc_ints True (nc_vdma_rx num)\<rparr>,
      d_num_channels := nc_channels num\<rparr>"
  have len: "arr_len (d_dma_tx d) = 0" "arr_len (d_dma_rx d) = 0" "arr_len (d_vdma_tx d) = 0"
    "arr_len (d_vdma_rx d) = 0"
    using assms(3) by (metis get_array.simps)+
  have "entered chans 0 ?d"
    unfolding entered_def
  proof (intro conjI allI)
    fix dir ty
    show "holds (get_array dir ty ?d) (ids_of dir ty (take 0 chans)) (length (ids_of dir ty chans))"
      using len assms(2)
      by (cases dir; cases ty) (simp_all add: holds_def malloc_ints_def counts_ok_def ids_of_def [of _ _ "[]"])
    show "\<exists>cs. d_channels ?d = Block cs \<and> length cs = length chans \<and>
        take 0 cs = map of_chan (take 0 chans)"
      using assms(2) by (simp add: malloc_channels_def counts_ok_def)
  qed
  from categorize_loop_ok [OF this, of "length chans"] obtain d' where
    d': "categorize_loop chans (length chans) 0 ?d = Ok () d'" "entered chans (length chans) d'"
    "d_num_channels d' = nc_channels num" "d_log d' = d_log d" "d_fd d' = d_fd d"
    "d_initialized d' = d_initialized d"
    by auto
  have "categorize_channels mem chans num d = Ok 0 d'"
    using d'(1) assms(1,2)
    by (simp add: categorize_channels_def Let_def counts_ok_def malloc_ints_def malloc_channels_def)
  moreover have "discovered chans d'"
    using d'(2,3) assms(2)
    by (auto simp: discovered_def entered_def counts_ok_def of_chan_def comp_def
        intro!: map_cong dest: arg_cong [of _ _ "map dc_dir"])
  ultimately show ?thesis using d' by blast
qed

lemma get_array_frame [simp]:
  "get_array dir ty (d\<lparr>d_initialized := b\<rparr>) = get_array dir ty d"
  "get_array dir ty (d\<lparr>d_log := l\<rparr>) = get_array dir ty d"
  by (cases dir; cases ty; simp)+

lemma discovered_frame [simp]:
  "discovered chans (d\<lparr>d_initialized := b\<rparr>) = discovered chans d"
  "discovered chans (log_call c d) = discovered chans d"
  by (simp_all add: discovered_def log_call_def)

lemma init_ok:
  assumes "lib_env_ok ev chans" and "fresh_dev d"
  shows "\<exists>d'. axidma_init_dev ev d = Ok True d' \<and> discovered chans d' \<and> d_initialized d' \<and>
     d_fd d' = le_open ev \<and>
     d_log d' = d_log d @ [GET_NUM_DMA_CHANNELS, GET_DMA_CHANNELS, SET_DMA_SIGNAL]"
proof -
  obtain rc1 num where num: "le_num ev = (rc1, num)" by fastforce
  obtain rc2 ch where ch: "le_chans ev = (rc2, ch)" by fastforce
  have env: "0 \<le> rc1" "counts_ok num chans" "0 \<le> rc2" "ch = chans" "chans \<noteq> []"
    "\<forall>k. le_malloc ev k" "0 \<le> le_open ev" "0 \<le> le_sigaction ev" "0 \<le> le_setsig ev"
    using assms(1) num ch by (auto simp: lib_env_ok_def)
  let ?d = "log_call GET_DMA_CHANNELS (log_call GET_NUM_DMA_CHANNELS (d\<lparr>d_fd := le_open ev\<rparr>))"
  have arr: "get_array dir ty ?d = get_array dir ty d" for dir ty
    by (cases dir; cases ty) (simp_all add: log_call_def)
  have "\<forall>dir ty. arr_len (get_array dir ty ?d) = 0"
    using assms(2) by (simp add: arr fresh_dev_def)
  from categorize_ok [OF _ env(2) this, of "\<lambda>k. le_malloc ev (k + 1)"] env(6)
  obtain d' where d': "categorize_channels (\<lambda>k. le_malloc ev (k + 1)) chans num ?d = Ok 0 d'"
    "discovered chans d'" "d_log d' = d_log ?d" "d_fd d' = d_fd ?d" "d_initialized d' = d_initialized ?d"
    by auto
  have "nc_channels num \<noteq> 0" and "0 \<le> nc_channels num" using env(2,5) by (auto simp: counts_ok_def)
  then have "probe_channels ev (d\<lparr>d_fd := le_open ev\<rparr>) = Ok 0 d'"
    using d'(1) env num ch by (simp add: probe_channels_def Let_def)
  then have "axidma_init_dev ev d = Ok True ((log_call SET_DMA_SIGNAL d')\<lparr>d_initialized := True\<rparr>)"
    using env assms(2)
    by (simp add: axidma_init_dev_def Let_def setup_dma_callback_def fresh_dev_def not_less)
  moreover have "d_fd (log_call SET_DMA_SIGNAL d') = le_open ev"
    "d_log (log_call SET_DMA_SIGNAL d') =
       d_log d @ [GET_NUM_DMA_CHANNELS, GET_DMA_CHANNELS, SET_DMA_SIGNAL]"
    using d'(3,4) by (simp_all add: log_call_def)
  ultimately show ?thesis using d'(2) by simp
qed

section \<open>Looking up a channel\<close>

lemma find_channel_loop_None:
  "i + n \<le> length cs \<Longrightarrow> \<forall>j. i \<le> j \<and> j < i + n \<longrightarrow> dc_id (cs ! j) \<noteq> x \<Longrightarrow>
     find_channel_loop cs n i x = Inr None"
  by (induction n arbitrary: i) auto

lemma find_channel_loop_Some:
  "i + n \<le> length cs \<Longrightarrow> i \<le> k \<Longrightarrow> k < i + n \<Longrightarrow> dc_id (cs ! k) = x \<Longrightarrow>
     \<forall>j. i \<le> j \<and> j < k \<longrightarrow> dc_id (cs ! j) \<noteq> x \<Longrightarrow>
     find_channel_loop cs n i x = Inr (Some k)"
proof (induction n arbitrary: i)
  case (Suc n)
  show ?case
  proof (cases "i = k")
    case True
    with Suc.prems show ?thesis by simp
  next
    case False
    with Suc.prems have "find_channel_loop cs n (i + 1) x = Inr (Some k)"
      by (intro Suc.IH) auto
    with False Suc.prems show ?thesis by simp
  qed
qed simp

lemma discovered_nth:
  assumes "discovered chans d"
  obtains cs where "d_channels d = Block cs" and "length cs = length chans"
    and "\<And>j. j < length chans \<Longrightarrow> dc_dir (cs ! j) = ac_dir (chans ! j) \<and>
           dc_type (cs ! j) = ac_type (chans ! j) \<and> dc_id (cs ! j) = ac_id (chans ! j)"
proof -
  obtain cs where cs: "d_channels d = Block cs" "map dc_dir cs = map ac_dir chans"
    "map dc_type cs = map ac_type chans" "map dc_id cs = map ac_id chans"
    using assms by (auto simp: discovered_def)
  have len: "length cs = length chans" using cs(2) by (metis length_map)
  have "dc_dir (cs ! j) = ac_dir (chans ! j) \<and> dc_type (cs ! j) = ac_type (chans ! j) \<and>
      dc_id (cs ! j) = ac_id (chans ! j)" if "j < length chans" for j
    using that len cs(2-4) by (metis nth_map)
  with cs(1) len show thesis by (rule that)
qed

text \<open>
  A channel is looked up by its number alone: the first one of the driver's list that has it is
  found.
\<close>

definition first_with :: "int \<Rightarrow> axidma_chan list \<Rightarrow> axidma_chan option" where
  "first_with x chans = find (\<lambda>c. ac_id c = x) chans"

lemma first_with_None: "first_with x chans = None \<longleftrightarrow> x \<notin> ac_id ` set chans"
  by (auto simp: first_with_def find_None_iff)

lemma first_with_Some:
  "first_with x chans = Some c \<longleftrightarrow>
     (\<exists>k < length chans. ac_id (chans ! k) = x \<and> chans ! k = c \<and> (\<forall>j < k. ac_id (chans ! j) \<noteq> x))"
  by (auto simp: first_with_def find_Some_iff)

lemma first_with_id: "first_with x chans = Some c \<Longrightarrow> c \<in> set chans \<and> ac_id c = x"
  by (auto simp: first_with_Some)

lemma first_with_unique:
  assumes "distinct (map ac_id chans)" and "c \<in> set chans"
  shows "first_with (ac_id c) chans = Some c"
proof -
  obtain k where k: "k < length chans" "chans ! k = c" using assms(2) by (auto simp: in_set_conv_nth)
  moreover have "\<forall>j < k. ac_id (chans ! j) \<noteq> ac_id c" using assms(1) k by (auto simp: distinct_conv_nth)
  ultimately show ?thesis unfolding first_with_Some by blast
qed

lemma find_channel_None:
  assumes "discovered chans d" and "first_with x chans = None"
  shows "find_channel x d = Inr None"
proof -
  obtain cs where cs: "d_channels d = Block cs" "length cs = length chans"
    "\<And>j. j < length chans \<Longrightarrow> dc_id (cs ! j) = ac_id (chans ! j)"
    using discovered_nth [OF assms(1)] by metis
  have "find_channel_loop cs (length chans) 0 x = Inr None"
    using cs assms(2) by (intro find_channel_loop_None) (auto simp: first_with_None image_iff)
  then show ?thesis using cs assms(1) by (simp add: find_channel_def discovered_def)
qed

lemma find_channel_Some:
  assumes "discovered chans d" and "k < length chans" and "ac_id (chans ! k) = x"
    and "\<forall>j < k. ac_id (chans ! j) \<noteq> x"
  shows "find_channel x d = Inr (Some k)"
proof -
  obtain cs where cs: "d_channels d = Block cs" "length cs = length chans"
    "\<And>j. j < length chans \<Longrightarrow> dc_id (cs ! j) = ac_id (chans ! j)"
    using discovered_nth [OF assms(1)] by metis
  have "find_channel_loop cs (length chans) 0 x = Inr (Some k)"
    using cs assms(2-4) by (intro find_channel_loop_Some) auto
  moreover have "chans \<noteq> []" using assms(2) by auto
  ultimately show ?thesis using cs assms(1,2) by (simp add: find_channel_def discovered_def)
qed

lemma with_channel_run:
  assumes "discovered chans d" and "first_with x chans = Some c"
  shows "\<exists>dc. dc_dir dc = ac_dir c \<and> dc_type dc = ac_type c \<and>
     (\<forall>f :: dma_channel \<Rightarrow> ('a, axidma_dev) outcome. with_channel x d f = f dc)"
proof -
  obtain k where k: "k < length chans" "ac_id (chans ! k) = x" "chans ! k = c" "\<forall>j < k. ac_id (chans ! j) \<noteq> x"
    using assms(2) by (auto simp: first_with_Some)
  have "find_channel x d = Inr (Some k)" by (rule find_channel_Some [OF assms(1) k(1,2,4)])
  moreover obtain cs where cs: "d_channels d = Block cs"
    "dc_dir (cs ! k) = ac_dir c \<and> dc_type (cs ! k) = ac_type c"
    using discovered_nth [OF assms(1)] k by metis
  ultimately show ?thesis by (intro exI [of _ "cs ! k"]) (auto simp: with_channel_def)
qed

lemma with_channel_unknown:
  "discovered chans d \<Longrightarrow> first_with x chans = None \<Longrightarrow> with_channel x d f = Fault AssertFailed"
  by (simp add: with_channel_def find_channel_None)

section \<open>Transfers\<close>

text \<open>A transfer issues one ioctl, for the channel's direction, and passes its error on.\<close>

definition transfer_call :: "axidma_dir \<Rightarrow> int \<Rightarrow> u64 \<Rightarrow> u64 \<Rightarrow> bool \<Rightarrow> ioctl_call" where
  "transfer_call dir channel buf len wait =
     (case dir of
        AXIDMA_READ \<Rightarrow> DMA_READ \<lparr>tr_wait = wait, tr_channel_id = channel, tr_buf = buf, tr_buf_len = len\<rparr>
      | AXIDMA_WRITE \<Rightarrow> DMA_WRITE \<lparr>tr_wait = wait, tr_channel_id = channel, tr_buf = buf, tr_buf_len = len\<rparr>)"

lemma oneway_run:
  assumes "discovered chans d" and "first_with x chans = Some c"
  shows "axidma_oneway_transfer io x buf len wait d =
    Ok (min 0 (io (transfer_call (ac_dir c) x buf len wait))) (log_call (transfer_call (ac_dir c) x buf len wait) d)"
proof -
  obtain dc where dc: "dc_dir dc = ac_dir c"
    "\<forall>f :: dma_channel \<Rightarrow> (int, axidma_dev) outcome. with_channel x d f = f dc"
    using with_channel_run [OF assms, where 'a = int] by blast
  then show ?thesis
    by (cases "ac_dir c")
       (auto simp: axidma_oneway_transfer_def do_ioctl_def transfer_call_def min_def)
qed

lemma oneway_cases:
  assumes "discovered chans d"
  shows "axidma_oneway_transfer io x buf len wait d =
      (case first_with x chans of
         None \<Rightarrow> Fault AssertFailed
       | Some c \<Rightarrow> Ok (min 0 (io (transfer_call (ac_dir c) x buf len wait)))
                     (log_call (transfer_call (ac_dir c) x buf len wait) d))"
  using oneway_run [OF assms]
  by (cases "first_with x chans") (auto simp: axidma_oneway_transfer_def with_channel_unknown [OF assms])

lemma twoway_run:
  assumes "discovered chans d"
  shows "axidma_twoway_transfer io x buf len txf y rbuf rlen rxf wait d =
      (if map_option ac_dir (first_with x chans) = Some AXIDMA_WRITE \<and>
          map_option ac_dir (first_with y chans) = Some AXIDMA_READ
       then let call = DMA_READWRITE \<lparr>io_wait = wait, io_tx_channel_id = x, io_tx_buf = buf,
                  io_tx_buf_len = len, io_tx_frame = case_option no_frame id txf, io_rx_channel_id = y,
                  io_rx_buf = rbuf, io_rx_buf_len = rlen, io_rx_frame = case_option no_frame id rxf\<rparr> in
            Ok (io call) (log_call call d)
       else Fault AssertFailed)"
proof (cases "first_with x chans")
  case None
  then show ?thesis by (simp add: axidma_twoway_transfer_def with_channel_unknown [OF assms])
next
  case (Some c)
  then obtain dc where dc: "dc_dir dc = ac_dir c"
    "\<forall>f :: dma_channel \<Rightarrow> (int, axidma_dev) outcome. with_channel x d f = f dc"
    using with_channel_run [OF assms, where 'a = int] by blast
  show ?thesis
  proof (cases "first_with y chans")
    case None
    then show ?thesis
      using dc by (simp add: axidma_twoway_transfer_def with_channel_unknown [OF assms])
  next
    case (Some c2)
    then obtain dc2 where dc2: "dc_dir dc2 = ac_dir c2"
      "\<forall>f :: dma_channel \<Rightarrow> (int, axidma_dev) outcome. with_channel y d f = f dc2"
      using with_channel_run [OF assms, where 'a = int] by blast
    have frame: "case_option no_frame id fr = (case fr of None \<Rightarrow> no_frame | Some v \<Rightarrow> v)" for fr
      by (cases fr) simp_all
    show ?thesis
      using dc dc2 \<open>first_with x chans = Some c\<close> Some axidma_dir.exhaust [of "ac_dir c2"]
      by (auto simp: axidma_twoway_transfer_def do_ioctl_def Let_def frame)
  qed
qed

section \<open>Callbacks\<close>

text \<open>What the signal for channel \<open>j\<close> calls.\<close>

definition called :: "int \<Rightarrow> axidma_dev \<Rightarrow> (nat \<times> int \<times> u64) option" where
  "called j d = (case axidma_callback j d of Ok v d' \<Rightarrow> v | Fault x \<Rightarrow> None)"

section \<open>Closing and opening again\<close>

lemma get_array_freed:
  "get_array dir ty (d\<lparr>d_vdma_rx := free_array (d_vdma_rx d), d_vdma_tx := free_array (d_vdma_tx d),
     d_dma_rx := free_array (d_dma_rx d), d_dma_tx := free_array (d_dma_tx d)\<rparr>) = free_array (get_array dir ty d)"
  by (cases dir; cases ty) simp_all

lemma destroy_ok:
  assumes "discovered chans d"
  shows "\<exists>d'. axidma_destroy 0 d = Ok () d' \<and> \<not> d_initialized d' \<and>
     (\<forall>dir ty. arr_len (get_array dir ty d') = length (ids_of dir ty chans))"
proof -
  have live: "arr_data (get_array dir ty d) \<noteq> Dangling" for dir ty
    using assms unfolding discovered_def holds_def by (metis ptr.distinct(5))
  have "arr_data (d_vdma_rx d) \<noteq> Dangling" "arr_data (d_vdma_tx d) \<noteq> Dangling"
    "arr_data (d_dma_rx d) \<noteq> Dangling" "arr_data (d_dma_tx d) \<noteq> Dangling"
    using live [of AXIDMA_READ AXIDMA_VDMA] live [of AXIDMA_WRITE AXIDMA_VDMA]
      live [of AXIDMA_READ AXIDMA_DMA] live [of AXIDMA_WRITE AXIDMA_DMA] by simp_all
  moreover have "d_channels d \<noteq> Dangling" using assms by (auto simp: discovered_def)
  moreover have "arr_len (free_array (get_array dir ty d)) = length (ids_of dir ty chans)" for dir ty
    using assms by (auto simp: discovered_def holds_def free_array_def)
  ultimately show ?thesis by (simp add: axidma_destroy_def get_array_freed)
qed

text \<open>The lengths are not reset: entering the first channel again writes past its array.\<close>

lemma categorize_again:
  assumes "\<forall>k. mem k" and "counts_ok num chans" and "chans \<noteq> []"
    and "\<forall>dir ty. arr_len (get_array dir ty d) = length (ids_of dir ty chans)"
  shows "categorize_channels mem chans num d = Fault OutOfBounds"
proof -
  let ?d = "d\<lparr>d_channels := malloc_channels True (nc_channels num),
      d_dma_tx := (d_dma_tx d)\<lparr>arr_data := malloc_ints True (nc_dma_tx num)\<rparr>,
      d_dma_rx := (d_dma_rx d)\<lparr>arr_data := malloc_ints True (nc_dma_rx num)\<rparr>,
      d_vdma_tx := (d_vdma_tx d)\<lparr>arr_data := malloc_ints True (nc_vdma_tx num)\<rparr>,
      d_vdma_rx := (d_vdma_rx d)\<lparr>arr_data := malloc_ints True (nc_vdma_rx num)\<rparr>,
      d_num_channels := nc_channels num\<rparr>"
  obtain c rest where c: "chans = c # rest" using assms(3) by (cases chans) auto
  have full: "array_push x (get_array dir ty ?d) = Inl OutOfBounds" for x dir ty
    using assms(2) assms(4) [rule_format, of dir ty]
    by (cases dir; cases ty) (simp_all add: array_push_def malloc_ints_def counts_ok_def)
  have n: "nat (nc_channels num) = Suc (length rest)"
    using assms(2) c by (simp add: counts_ok_def)
  have "categorize_loop chans (nat (nc_channels num)) 0 ?d = Fault OutOfBounds"
    unfolding n using c full by (simp add: Let_def)
  then show ?thesis
    using assms(1,2)
    by (simp add: categorize_channels_def Let_def counts_ok_def malloc_ints_def malloc_channels_def)
qed

lemma init_again:
  assumes "lib_env_ok ev chans" and "\<not> d_initialized d"
    and "\<forall>dir ty. arr_len (get_array dir ty d) = length (ids_of dir ty chans)"
  shows "axidma_init_dev ev d = Fault OutOfBounds"
proof -
  obtain rc1 num where num: "le_num ev = (rc1, num)" by fastforce
  obtain rc2 ch where ch: "le_chans ev = (rc2, ch)" by fastforce
  have env: "0 \<le> rc1" "counts_ok num chans" "0 \<le> rc2" "ch = chans" "chans \<noteq> []"
    "\<forall>k. le_malloc ev k" "0 \<le> le_open ev"
    using assms(1) num ch by (auto simp: lib_env_ok_def)
  let ?d = "log_call GET_DMA_CHANNELS (log_call GET_NUM_DMA_CHANNELS (d\<lparr>d_fd := le_open ev\<rparr>))"
  have arr: "get_array dir ty ?d = get_array dir ty d" for dir ty
    by (cases dir; cases ty) (simp_all add: log_call_def)
  have "categorize_channels (\<lambda>k. le_malloc ev (k + 1)) chans num ?d = Fault OutOfBounds"
    using env assms(3) by (intro categorize_again) (simp_all add: arr)
  moreover have "nc_channels num \<noteq> 0" and "0 \<le> nc_channels num"
    using env(2,5) by (auto simp: counts_ok_def)
  ultimately show ?thesis
    using env num ch assms(2)
    by (simp add: axidma_init_dev_def probe_channels_def Let_def)
qed

end
