(* ===== verification/LibSignals.thy ===== *)
theory LibSignals
  imports LibAxidmaInv
begin

text \<open>
  The signal handler of libaxidma.c runs between any two stores of the program. Setting a
  callback is two stores, and closing the library does not take the handler away.
\<close>

section \<open>Setting a callback in two stores\<close>

definition with_entry :: "int \<Rightarrow> (dma_channel \<Rightarrow> dma_channel) \<Rightarrow> axidma_dev \<Rightarrow> (unit, axidma_dev) outcome" where
  "with_entry channel f d =
     (case d_channels d of
        Null \<Rightarrow> Fault NullDeref
      | Dangling \<Rightarrow> Fault UseAfterFree
      | Block cs \<Rightarrow>
          if 0 \<le> channel \<and> nat channel < length cs
          then Ok () (d\<lparr>d_channels := Block (cs[nat channel := f (cs ! nat channel)])\<rparr>)
          else Fault OutOfBounds)"

text \<open>The assertion and the first store, then the second store.\<close>

definition store_callback :: "int \<Rightarrow> nat option \<Rightarrow> axidma_dev \<Rightarrow> (unit, axidma_dev) outcome" where
  "store_callback channel callback d =
     with_channel channel d (\<lambda>_. with_entry channel (\<lambda>chan. chan\<lparr>dc_callback := callback\<rparr>) d)"

definition store_user_data :: "int \<Rightarrow> u64 \<Rightarrow> axidma_dev \<Rightarrow> (unit, axidma_dev) outcome" where
  "store_user_data channel data d = with_entry channel (\<lambda>chan. chan\<lparr>dc_user_data := data\<rparr>) d"

lemma set_callback_stores:
  "axidma_set_callback channel callback data d =
     obind (store_callback channel callback d) (\<lambda>_. store_user_data channel data)"
  by (auto simp: axidma_set_callback_def store_callback_def store_user_data_def with_entry_def
      with_channel_def split: sum.split option.split ptr.split)

section \<open>What a signal does in between\<close>

lemma with_entry_run:
  assumes "discovered chans d" and "k < length chans"
    and "\<And>c. dc_dir (f c) = dc_dir c \<and> dc_type (f c) = dc_type c \<and> dc_id (f c) = dc_id c"
  shows "\<exists>cs. d_channels d = Block cs \<and> length cs = length chans \<and>
    with_entry (int k) f d = Ok () (d\<lparr>d_channels := Block (cs[k := f (cs ! k)])\<rparr>) \<and>
    discovered chans (d\<lparr>d_channels := Block (cs[k := f (cs ! k)])\<rparr>)"
proof -
  obtain cs where cs: "d_channels d = Block cs" "length cs = length chans"
    using discovered_nth [OF assms(1)] by metis
  let ?cs = "cs[k := f (cs ! k)]"
  have "map dc_dir ?cs = map dc_dir cs" "map dc_type ?cs = map dc_type cs" "map dc_id ?cs = map dc_id cs"
    using cs assms(2,3) by (simp_all add: map_update list_update_same_conv)
  then have "discovered chans (d\<lparr>d_channels := Block ?cs\<rparr>)"
    using assms(1) cs(1) by (simp add: discovered_def)
  with cs assms(2) show ?thesis by (simp add: with_entry_def)
qed

text \<open>The handler reads the entry of the signal's channel.\<close>

lemma callback_entry:
  assumes "discovered chans d" and "d_channels d = Block cs" and "k < length chans"
  shows "axidma_callback (int k) d =
    Ok (map_option (\<lambda>cb. (cb, int k, dc_user_data (cs ! k))) (dc_callback (cs ! k))) d"
  using assms by (auto simp: axidma_callback_def discovered_def dest: arg_cong [where f = length])

lemma called_elsewhere:
  assumes "d_channels d = Block cs" and "j \<noteq> int k"
  shows "called j (d\<lparr>d_channels := Block (cs[k := c])\<rparr>) = called j d"
  using assms by (auto simp: called_def axidma_callback_def nth_list_update)

lemma store_callback_run:
  assumes "discovered chans d" and "int k \<in> ac_id ` set chans" and "k < length chans"
  shows "\<exists>d1. store_callback (int k) (Some cb) d = Ok () d1 \<and> discovered chans d1 \<and>
    (\<forall>j. j \<noteq> int k \<longrightarrow> called j d1 = called j d) \<and>
    (\<forall>cb0 data0. axidma_callback (int k) d = Ok (Some (cb0, int k, data0)) d \<longrightarrow>
      axidma_callback (int k) d1 = Ok (Some (cb, int k, data0)) d1) \<and>
    (\<exists>cs. d_channels d1 = Block cs \<and> dc_callback (cs ! k) = Some cb)"
proof -
  obtain cs where cs: "d_channels d = Block cs" "length cs = length chans"
    and run: "with_entry (int k) (\<lambda>c. c\<lparr>dc_callback := Some cb\<rparr>) d =
      Ok () (d\<lparr>d_channels := Block (cs[k := (cs ! k)\<lparr>dc_callback := Some cb\<rparr>])\<rparr>)"
    and disc: "discovered chans (d\<lparr>d_channels := Block (cs[k := (cs ! k)\<lparr>dc_callback := Some cb\<rparr>])\<rparr>)"
    using with_entry_run [OF assms(1,3), of "\<lambda>c. c\<lparr>dc_callback := Some cb\<rparr>"] by auto
  obtain c where "first_with (int k) chans = Some c"
    using assms(2) first_with_None by (metis option.exhaust)
  then obtain j where find: "find_channel (int k) d = Inr (Some j)"
    using find_channel_Some [OF assms(1)] by (auto simp: first_with_Some)
  show ?thesis
    using cs run disc find called_elsewhere [OF cs(1)] assms(3)
      callback_entry [OF disc _ assms(3)] callback_entry [OF assms(1) cs(1) assms(3)]
    by (simp add: store_callback_def with_channel_def)
qed

lemma store_user_data_run:
  assumes "discovered chans d" and "k < length chans" and "d_channels d = Block cs" and "dc_callback (cs ! k) = Some cb"
  shows "\<exists>d'. store_user_data (int k) data d = Ok () d' \<and> discovered chans d' \<and>
    (\<forall>j. j \<noteq> int k \<longrightarrow> called j d' = called j d) \<and>
    axidma_callback (int k) d' = Ok (Some (cb, int k, data)) d'"
proof -
  have run: "with_entry (int k) (\<lambda>c. c\<lparr>dc_user_data := data\<rparr>) d =
      Ok () (d\<lparr>d_channels := Block (cs[k := (cs ! k)\<lparr>dc_user_data := data\<rparr>])\<rparr>)"
    and disc: "discovered chans (d\<lparr>d_channels := Block (cs[k := (cs ! k)\<lparr>dc_user_data := data\<rparr>])\<rparr>)"
    and len: "length cs = length chans"
    using with_entry_run [OF assms(1,2), of "\<lambda>c. c\<lparr>dc_user_data := data\<rparr>"] assms(3) by auto
  show ?thesis
    using run disc len called_elsewhere [OF assms(3)] assms(2,4) callback_entry [OF disc _ assms(2)]
    by (simp add: store_user_data_def)
qed

text \<open>
  The channel's number is used as an index, whatever the driver's numbers are: one that is not an
  index leaves the table, and its signal fails the handler's assertion.
\<close>

lemma set_callback_unknown:
  "discovered chans d \<Longrightarrow> x \<notin> ac_id ` set chans \<Longrightarrow> axidma_set_callback x callback data d = Fault AssertFailed"
  by (simp add: axidma_set_callback_def with_channel_unknown first_with_None)

lemma set_callback_no_index:
  assumes "discovered chans d" and "x \<in> ac_id ` set chans" and "\<not> (0 \<le> x \<and> x < int (length chans))"
  shows "axidma_set_callback x callback data d = Fault OutOfBounds" and "axidma_callback x d = Fault AssertFailed"
proof -
  obtain c where c: "first_with x chans = Some c"
    using assms(2) first_with_None by (metis option.exhaust)
  obtain cs where cs: "d_channels d = Block cs" "length cs = length chans"
    using discovered_nth [OF assms(1)] by metis
  show "axidma_set_callback x callback data d = Fault OutOfBounds"
    using with_channel_run [OF assms(1) c, where 'a = unit] cs assms(3)
    by (auto simp: axidma_set_callback_def)
  show "axidma_callback x d = Fault AssertFailed"
    using assms(1,3) by (auto simp: axidma_callback_def discovered_def)
qed

text \<open>Closing frees the table of channels but keeps their number, so the handler's assertion holds.\<close>

lemma callback_after_destroy:
  assumes "discovered chans d" and "k < length chans" and "axidma_destroy 0 d = Ok () e"
  shows "axidma_callback (int k) e = Fault UseAfterFree"
  using assms by (auto simp: axidma_destroy_def axidma_callback_def discovered_def split: if_splits)

text \<open>All of it, for a channel whose number is an index.\<close>

lemma callback_index:
  assumes "discovered chans d" and "int k \<in> ac_id ` set chans" and "k < length chans"
  shows "\<exists>d1 d' e. store_callback (int k) (Some cb) d = Ok () d1 \<and> store_user_data (int k) data d1 = Ok () d' \<and>
     axidma_set_callback (int k) (Some cb) data d = Ok () d' \<and> discovered chans d' \<and>
     axidma_callback (int k) d' = Ok (Some (cb, int k, data)) d' \<and>
     (\<forall>j. j \<noteq> int k \<longrightarrow> called j d1 = called j d \<and> called j d' = called j d) \<and>
     (\<forall>cb0 data0. axidma_callback (int k) d = Ok (Some (cb0, int k, data0)) d \<longrightarrow>
        axidma_callback (int k) d1 = Ok (Some (cb, int k, data0)) d1) \<and>
     axidma_destroy 0 d' = Ok () e \<and> axidma_callback (int k) e = Fault UseAfterFree"
proof -
  obtain d1 cs where d1: "store_callback (int k) (Some cb) d = Ok () d1" "discovered chans d1"
    "\<forall>j. j \<noteq> int k \<longrightarrow> called j d1 = called j d"
    "\<forall>cb0 data0. axidma_callback (int k) d = Ok (Some (cb0, int k, data0)) d \<longrightarrow>
      axidma_callback (int k) d1 = Ok (Some (cb, int k, data0)) d1"
    "d_channels d1 = Block cs" "dc_callback (cs ! k) = Some cb"
    using store_callback_run [OF assms, of cb] by blast
  obtain d' where d': "store_user_data (int k) data d1 = Ok () d'" "discovered chans d'"
    "\<forall>j. j \<noteq> int k \<longrightarrow> called j d' = called j d1" "axidma_callback (int k) d' = Ok (Some (cb, int k, data)) d'"
    using store_user_data_run [OF d1(2) assms(3) d1(5,6)] by blast
  obtain e where e: "axidma_destroy 0 d' = Ok () e" using destroy_ok [OF d'(2)] by blast
  have "axidma_set_callback (int k) (Some cb) data d = Ok () d'"
    by (simp add: set_callback_stores d1(1) d'(1))
  moreover note callback_after_destroy [OF d'(2) assms(3) e]
  ultimately show ?thesis using d1(1,3,4) d' e by auto
qed

end
