(* ===== verification/AxiCtrl.thy ===== *)
theory AxiCtrl
  imports Axiregs LibAxidmaInv
begin

text \<open>
  The control functions of ps_to_pl/util/axidma_ctrl_func.c: mapping register blocks through
  axiregs or /dev/mem, the clock configuration, programming the DMA engine, the transfers
  between the two memories in chunks, and the difference of two times.
\<close>

section \<open>Mapping a register block\<close>

text \<open>
  The two files a mapping can come from. An integer descriptor of the code is the file it
  was opened on; \<open>None\<close> is -1.
\<close>

datatype devfile = RegsFile | MemFile

text \<open>\<open>ct_maps\<close> counts the mappings made (none is ever undone).\<close>

record ctrl =
  non_sudo_fd_initialized :: bool
  non_sudo_fd_used :: bool
  non_sudo_fd :: "devfile option"
  fd_initialized :: bool
  ct_fd :: "devfile option"
  clk_initialized :: bool
  ct_maps :: nat

definition ctrl_zero :: ctrl where
  "ctrl_zero = \<lparr>non_sudo_fd_initialized = False, non_sudo_fd_used = False, non_sudo_fd = None,
     fd_initialized = False, ct_fd = None, clk_initialized = False, ct_maps = 0\<rparr>"

record axilite_obj =
  map_base :: "mapping option"
  ao_size :: u32

text \<open>Whether the two opens and the mapping succeed, and where the mapping is placed.\<close>

record ctrl_env =
  ce_open_regs :: bool
  ce_open_mem :: bool
  ce_map :: bool
  ce_base :: u64

definition mmap_mem :: "bool \<Rightarrow> u64 \<Rightarrow> u64 \<Rightarrow> u64 \<Rightarrow> mapping option" where
  "mmap_mem ok base len off =
     (if \<not> ok \<or> off AND page_mask \<noteq> 0 \<or> page_up len = 0 then None
      else Some \<lparr>map_va = base, map_pfn = drop_bit PAGE_SHIFT off, map_size = page_up len\<rparr>)"

definition mmap_fd :: "ctrl_env \<Rightarrow> devfile option \<Rightarrow> u32 \<Rightarrow> u32 \<Rightarrow> mapping option" where
  "mmap_fd ev f sz off =
     (case f of
        None \<Rightarrow> None
      | Some RegsFile \<Rightarrow> mmap_regs (ce_map ev) (ce_base ev) (ucast sz) (ucast off)
      | Some MemFile \<Rightarrow> mmap_mem (ce_map ev) (ce_base ev) (ucast sz) (ucast off))"

definition axi_init :: "ctrl_env \<Rightarrow> u32 \<Rightarrow> u32 \<Rightarrow> ctrl \<Rightarrow> (axilite_obj, ctrl) outcome" where
  "axi_init ev base_address sz s =
     (if 0xA0000000 \<le> base_address \<and> base_address + sz \<le> 0xB0000000 then
        obind
          (if non_sudo_fd_initialized s then Ok () s
           else if ce_open_regs ev then
             Ok () (s\<lparr>non_sudo_fd := Some RegsFile, non_sudo_fd_used := True,
                      non_sudo_fd_initialized := True\<rparr>)
           else
             obind
               (if fd_initialized s then Ok () s
                else if ce_open_mem ev then Ok () (s\<lparr>ct_fd := Some MemFile, fd_initialized := True\<rparr>)
                else Fault AssertFailed)
               (\<lambda>_ s1. Ok () (s1\<lparr>non_sudo_fd := ct_fd s1, non_sudo_fd_initialized := True\<rparr>)))
          (\<lambda>_ s1.
             let base = (if non_sudo_fd_used s1 then base_address - 0xA0000000 else base_address) in
             Ok \<lparr>map_base = mmap_fd ev (non_sudo_fd s1) sz base, ao_size = sz\<rparr>
                (s1\<lparr>ct_maps := ct_maps s1 + 1\<rparr>))
      else
        obind
          (if fd_initialized s then Ok () s
           else if ce_open_mem ev then Ok () (s\<lparr>ct_fd := Some MemFile, fd_initialized := True\<rparr>)
           else Fault AssertFailed)
          (\<lambda>_ s1.
             Ok \<lparr>map_base = mmap_fd ev (ct_fd s1) sz base_address, ao_size = sz\<rparr>
                (s1\<lparr>ct_maps := ct_maps s1 + 1\<rparr>)))"

text \<open>A failed mapping is MAP_FAILED: no address computed from it is mapped.\<close>

definition axi_read :: "'d physmem \<Rightarrow> axilite_obj \<Rightarrow> u32 \<Rightarrow> 'd \<Rightarrow> (u32, 'd) outcome" where
  "axi_read pm axi_obj offset d =
     (if \<not> offset \<le> ao_size axi_obj then Fault AssertFailed
      else
        case map_base axi_obj of
          None \<Rightarrow> Fault OutOfBounds
        | Some m \<Rightarrow> load pm m (map_va m + ucast offset) d)"

definition axi_write :: "'d physmem \<Rightarrow> axilite_obj \<Rightarrow> u32 \<Rightarrow> u32 \<Rightarrow> 'd \<Rightarrow> (unit, 'd) outcome" where
  "axi_write pm axi_obj offset v d =
     (if \<not> offset \<le> ao_size axi_obj then Fault AssertFailed
      else
        case map_base axi_obj of
          None \<Rightarrow> Fault OutOfBounds
        | Some m \<Rightarrow> store pm m (map_va m + ucast offset) v d)"

section \<open>The clocks\<close>

definition CLK_MASK :: u32 where
  "CLK_MASK = 0x13F3F07"

definition shl32 :: "u32 \<Rightarrow> int \<Rightarrow> fault + u32" where
  "shl32 x n = (if 0 \<le> n \<and> n < 32 then Inr (push_bit (nat n) x) else Inl BadShift)"

text \<open>
  \<open>(1<<24)+divisor_1<<16+divisor_2<<8+type\<close>: addition binds tighter than the shifts, so this
  is \<open>(((1<<24)+divisor_1) << (16+divisor_2)) << (8+type)\<close>. The ints wrap.
\<close>

definition clk_value :: "int \<Rightarrow> int \<Rightarrow> int \<Rightarrow> fault + u32" where
  "clk_value divisor_1 divisor_2 ty =
     (case shl32 (push_bit 24 1 + word_of_int divisor_1) (16 + divisor_2) of
        Inl f \<Rightarrow> Inl f
      | Inr v \<Rightarrow> shl32 v (8 + ty))"

definition pl_clk_config :: "ctrl_env \<Rightarrow> 'd physmem \<Rightarrow> bool \<Rightarrow> int \<Rightarrow> int \<Rightarrow> int \<Rightarrow> int \<Rightarrow> ctrl \<times> axilite_obj \<times> 'd \<Rightarrow>
    (int, ctrl \<times> axilite_obj \<times> 'd) outcome" where
  "pl_clk_config ev pm start clk_number divisor_1 divisor_2 ty st =
     (case st of (s, clk, d) \<Rightarrow>
        if ty > 3 \<or> ty < 0 \<or> ty = 1 \<or> clk_number > 3 \<or> clk_number < 0 then Ok (- 1) st
        else
          let offset = 0xC0 + word_of_int clk_number * 4 in
          case (if start then clk_value divisor_1 divisor_2 ty else Inr 0) of
            Inl f \<Rightarrow> Fault f
          | Inr v \<Rightarrow>
              obind (if \<not> clk_initialized s then axi_init ev 0xFF5E0000 0x1000 s else Ok clk s)
                (\<lambda>clk1 s1.
                  obind (axi_read pm clk1 offset d) (\<lambda>reg d1.
                    let reg1 = (reg AND NOT CLK_MASK) OR (v AND CLK_MASK) in
                    obind (axi_write pm clk1 offset reg1 d1) (\<lambda>_ d2.
                      Ok 0 (s1, clk1, d2)))))"

section \<open>Programming the DMA engine\<close>

definition DMA_MM2S_OFFSET :: nat where "DMA_MM2S_OFFSET = 0x00"
definition DMA_S2MM_OFFSET :: nat where "DMA_S2MM_OFFSET = 0x30"
definition DMA_CtrlReg_OFFSET :: nat where "DMA_CtrlReg_OFFSET = 0x00"
definition DMA_MemLoc_OFFSET :: nat where "DMA_MemLoc_OFFSET = 0x18"
definition DMA_MemLoc_MSB_OFFSET :: nat where "DMA_MemLoc_MSB_OFFSET = 0x1C"
definition DMA_BUFFLEN_OFFSET :: nat where "DMA_BUFFLEN_OFFSET = 0x28"
definition XAXIDMA_CR_RUNSTOP_MASK :: u32 where "XAXIDMA_CR_RUNSTOP_MASK = 1"

definition legacy_read :: "'d mmio \<Rightarrow> nat \<Rightarrow> 'd \<Rightarrow> u32 \<times> 'd" where
  "legacy_read dev offset d = mm_read dev offset d"

definition legacy_write :: "'d mmio \<Rightarrow> nat \<Rightarrow> u32 \<Rightarrow> 'd \<Rightarrow> 'd" where
  "legacy_write dev offset v d = mm_write dev offset v d"

definition DMA_MM2S :: "'d mmio \<Rightarrow> u32 \<Rightarrow> u32 \<Rightarrow> u32 \<Rightarrow> 'd \<Rightarrow> 'd" where
  "DMA_MM2S dev address_low address_high sz d =
     (case legacy_read dev (DMA_MM2S_OFFSET + DMA_CtrlReg_OFFSET) d of
        (cr, d1) \<Rightarrow>
          let d2 = legacy_write dev (DMA_MM2S_OFFSET + DMA_CtrlReg_OFFSET) (cr OR XAXIDMA_CR_RUNSTOP_MASK) d1;
              d3 = legacy_write dev (DMA_MM2S_OFFSET + DMA_MemLoc_OFFSET) address_low d2;
              d4 = legacy_write dev (DMA_MM2S_OFFSET + DMA_MemLoc_MSB_OFFSET) address_high d3 in
          legacy_write dev (DMA_MM2S_OFFSET + DMA_BUFFLEN_OFFSET) sz d4)"

definition DMA_S2MM :: "'d mmio \<Rightarrow> u32 \<Rightarrow> u32 \<Rightarrow> u32 \<Rightarrow> 'd \<Rightarrow> 'd" where
  "DMA_S2MM dev address_low address_high sz d =
     (case legacy_read dev (DMA_S2MM_OFFSET + DMA_CtrlReg_OFFSET) d of
        (cr, d1) \<Rightarrow>
          let d2 = legacy_write dev (DMA_S2MM_OFFSET + DMA_CtrlReg_OFFSET) (cr OR XAXIDMA_CR_RUNSTOP_MASK) d1;
              d3 = legacy_write dev (DMA_S2MM_OFFSET + DMA_MemLoc_OFFSET) address_low d2;
              d4 = legacy_write dev (DMA_S2MM_OFFSET + DMA_MemLoc_MSB_OFFSET) address_high d3 in
          legacy_write dev (DMA_S2MM_OFFSET + DMA_BUFFLEN_OFFSET) sz d4)"

definition low32 :: "u64 \<Rightarrow> u32" where
  "low32 a = ucast a"

definition high32 :: "u64 \<Rightarrow> u32" where
  "high32 a = ucast (drop_bit 32 a)"

section \<open>Transfers in chunks\<close>

definition BUFFER_SIZE :: int where
  "BUFFER_SIZE = 8 * 1024 * 1024 - 16"

text \<open>
  The do-while loop of both directions: \<open>prog\<close> programs the engine, \<open>xfer\<close> is the library's
  transfer, whose result is ignored. \<open>left_bytes\<close> is what is left before the turn.
\<close>

function ddr_loop :: "(u32 \<Rightarrow> u32 \<Rightarrow> u32 \<Rightarrow> 'd \<Rightarrow> 'd) \<Rightarrow> (u64 \<Rightarrow> u64 \<Rightarrow> 's \<Rightarrow> (int, 's) outcome) \<Rightarrow> u64 \<Rightarrow> int \<Rightarrow> u64 \<Rightarrow>
    's \<Rightarrow> 'd \<Rightarrow> ('d, 's) outcome" where
  "ddr_loop prog xfer start_addr left_bytes buf s d =
     (let sz = (if left_bytes > BUFFER_SIZE then BUFFER_SIZE else left_bytes);
          d1 = prog (low32 start_addr) (high32 start_addr) (word_of_int sz) d in
      case xfer buf (word_of_int sz) s of
        Fault f \<Rightarrow> Fault f
      | Ok rc s1 \<Rightarrow>
          if left_bytes - sz = 0 then Ok d1 s1
          else ddr_loop prog xfer (start_addr + word_of_int sz) (left_bytes - sz)
                 (buf + word_of_int sz) s1 d1)"
  by pat_completeness auto
termination
  by (relation "measure (\<lambda>(prog, xfer, start_addr, left_bytes, buf, s, d). nat left_bytes)")
     (auto simp: BUFFER_SIZE_def split: if_splits)

declare ddr_loop.simps [simp del]

text \<open>The channel used is the first of the array.\<close>

definition first_channel :: "array_t \<Rightarrow> fault + int" where
  "first_channel a =
     (case arr_data a of
        Null \<Rightarrow> Inl NullDeref
      | Dangling \<Rightarrow> Inl UseAfterFree
      | Block [] \<Rightarrow> Inl OutOfBounds
      | Block (x # xs) \<Rightarrow> Inr x)"

definition DDR_PS2PL :: "(ioctl_call \<Rightarrow> int) \<Rightarrow> 'd mmio \<Rightarrow> array_t \<Rightarrow> u64 \<Rightarrow> int \<Rightarrow> u64 \<Rightarrow> axidma_dev \<Rightarrow> 'd \<Rightarrow>
    ('d, axidma_dev) outcome" where
  "DDR_PS2PL io dev tx_chans start_addr total_size input_buf s d =
     (case first_channel tx_chans of
        Inl f \<Rightarrow> Fault f
      | Inr ch \<Rightarrow> ddr_loop (DMA_S2MM dev) (\<lambda>b n. axidma_oneway_transfer io ch b n True)
                    start_addr total_size input_buf s d)"

definition DDR_PL2PS :: "(ioctl_call \<Rightarrow> int) \<Rightarrow> 'd mmio \<Rightarrow> array_t \<Rightarrow> u64 \<Rightarrow> int \<Rightarrow> u64 \<Rightarrow> axidma_dev \<Rightarrow> 'd \<Rightarrow>
    ('d, axidma_dev) outcome" where
  "DDR_PL2PS io dev rx_chans start_addr total_size output_buf s d =
     (case first_channel rx_chans of
        Inl f \<Rightarrow> Fault f
      | Inr ch \<Rightarrow> ddr_loop (DMA_MM2S dev) (\<lambda>b n. axidma_oneway_transfer io ch b n True)
                    start_addr total_size output_buf s d)"

section \<open>Times\<close>

record timespec =
  tv_sec :: int
  tv_nsec :: int

definition timespec_sub :: "timespec \<Rightarrow> timespec \<Rightarrow> (unit, timespec) outcome" where
  "timespec_sub t1 t2 =
     (if \<not> (0 \<le> tv_nsec t1 \<and> tv_nsec t1 < 1000000000 \<and> 0 \<le> tv_nsec t2 \<and> tv_nsec t2 < 1000000000)
      then Fault AssertFailed
      else
        let sec = tv_sec t1 - tv_sec t2; nsec = tv_nsec t1 - tv_nsec t2 in
        if nsec \<ge> 1000000000 then Ok () \<lparr>tv_sec = sec + 1, tv_nsec = nsec - 1000000000\<rparr>
        else if nsec < 0 then Ok () \<lparr>tv_sec = sec - 1, tv_nsec = nsec + 1000000000\<rparr>
        else Ok () \<lparr>tv_sec = sec, tv_nsec = nsec\<rparr>)"

end
