(* ===== verification/AxiCtrlInv.thy ===== *)
theory AxiCtrlInv
  imports AxiCtrl
begin

text \<open>
  Lemmas on the control functions: which file a register block is mapped from, the bounds
  of register accesses, the clock value, the chunks of a transfer.
\<close>

section \<open>Mapping\<close>

lemma mmap_mem_eq:
  "mmap_mem ok base len off = Some m \<longleftrightarrow>
     ok \<and> off AND page_mask = 0 \<and> page_up len \<noteq> 0 \<and>
     m = \<lparr>map_va = base, map_pfn = drop_bit PAGE_SHIFT off, map_size = page_up len\<rparr>"
  by (auto simp: mmap_mem_def)

text \<open>/dev/mem is a file of registers from address 0 on.\<close>

interpretation memfile: reg_map "mmap_mem ok" "0" for ok
  by unfold_locales (auto simp: mmap_mem_eq translate_def le_add_no_wrap shift_back)

text \<open>The cached descriptors are of the files they stand for.\<close>

definition ctrl_inv :: "ctrl \<Rightarrow> bool" where
  "ctrl_inv s \<longleftrightarrow>
     (non_sudo_fd_used s \<longrightarrow> non_sudo_fd_initialized s) \<and>
     (non_sudo_fd_initialized s \<longrightarrow>
        non_sudo_fd s = Some (if non_sudo_fd_used s then RegsFile else MemFile)) \<and>
     (fd_initialized s \<longrightarrow> ct_fd s = Some MemFile) \<and> \<not> clk_initialized s"

lemma ctrl_inv_zero: "ctrl_inv ctrl_zero"
  by (simp add: ctrl_inv_def ctrl_zero_def)

lemma ucast_sub_base:
  "0xA0000000 \<le> base \<Longrightarrow> (ucast (base - 0xA0000000) :: u64) = ucast base - 0xA0000000" for base :: u32
proof -
  assume le: "0xA0000000 \<le> base"
  then have le64: "(0xA0000000 :: u64) \<le> ucast base" by (simp add: word_le_nat_alt)
  have "unat (ucast (base - 0xA0000000) :: u64) = unat (ucast base - 0xA0000000 :: u64)"
    using le le64 by (simp add: unat_sub)
  then show ?thesis by (simp only: word_unat_eq_iff)
qed

lemma aligned_ucast: "(ucast (x :: u32) :: u64) AND page_mask = 0 \<longleftrightarrow> 4096 dvd unat x"
  by (simp add: aligned_iff)

text \<open>Rounding 32-bit lengths up to pages does not wrap.\<close>

lemma unat_page_up_ucast: "unat (page_up (ucast (sz :: u32))) = 4096 * ((unat sz + 4095) div 4096)"
  using unat_lt_u32 [of sz] by (simp add: unat_page_up)

text \<open>Whatever was opened before, a successful call maps the pages of the block it was asked for.\<close>

definition block_mapped :: "u32 \<Rightarrow> u32 \<Rightarrow> mapping \<Rightarrow> bool" where
  "block_mapped base sz m \<longleftrightarrow>
     (\<forall>k < page_up (ucast sz). translate m (map_va m + k) = Some (ucast base + k)) \<and>
     (\<forall>k. page_up (ucast sz) \<le> k \<longrightarrow> translate m (map_va m + k) = None)"

lemma axi_init_run:
  assumes "ctrl_inv s" and "axi_init ev base sz s = Ok obj t" and "ce_map ev" and "0 < sz"
    and "4096 dvd unat base" and "unat (ce_base ev) + unat (page_up (ucast sz)) < 2 ^ 64"
  shows "ctrl_inv t" and "ct_maps t = ct_maps s + 1" and "ao_size obj = sz"
    and "\<exists>m. map_base obj = Some m \<and> block_mapped base sz m"
proof -
  have "0 < unat sz" using assms(4) by (simp add: word_less_nat_alt)
  then have "unat (page_up (ucast sz)) \<noteq> 0" unfolding unat_page_up_ucast by simp
  then have up: "page_up (ucast sz) \<noteq> 0" by (metis unat_0)
  have al: "(ucast base :: u64) AND page_mask = 0" using assms(5) by (simp add: aligned_ucast)
  have mem: "\<exists>m. mmap_fd ev (Some MemFile) sz base = Some m \<and> block_mapped base sz m"
  proof -
    obtain m where m: "mmap_mem True (ce_base ev) (ucast sz) (ucast base) = Some m"
      using al up by (simp add: mmap_mem_eq)
    with memfile.map_block [of True _ _ "ucast base" m, OF _ assms(6)] memfile.map_block_end [OF m] assms(3)
    show ?thesis by (simp add: mmap_fd_def block_mapped_def)
  qed
  have regs: "\<exists>m. mmap_fd ev (Some RegsFile) sz (base - 0xA0000000) = Some m \<and> block_mapped base sz m"
    if "0xA0000000 \<le> base"
  proof -
    have "(- 0xA0000000 :: u64) AND page_mask = 0" by (simp add: page_simps)
    with al have "(ucast base + - 0xA0000000 :: u64) AND page_mask = 0" by (rule aligned_add)
    then obtain m where
      m: "mmap_regs True (ce_base ev) (ucast sz) (ucast base - 0xA0000000) = Some m"
      using up by (simp add: mmap_regs_eq)
    with regs.map_block [of True _ _ "ucast base" m, OF _ assms(6)] regs.map_block_end [OF m] assms(3)
    show ?thesis using that by (simp add: mmap_fd_def ucast_sub_base block_mapped_def)
  qed
  show "ctrl_inv t" "ct_maps t = ct_maps s + 1" "ao_size obj = sz"
    "\<exists>m. map_base obj = Some m \<and> block_mapped base sz m"
    using assms(1,2) mem regs
    by (auto simp: axi_init_def ctrl_inv_def Let_def obind_Ok split: if_splits)
qed

text \<open>
  The words of the block are reached; when the size is a number of pages, an access that does not
  end inside the block is outside the mapping.
\<close>

lemma unat_add_3: "unat ((ucast (k :: u32) :: u64) + 3) = unat k + 3"
  using unat_lt_u32 [of k] by (simp add: unat_add_u64)

lemma block_mapped_access:
  assumes "block_mapped base sz m" and "4096 dvd unat base"
  shows "k < sz \<Longrightarrow> 4 dvd unat k \<Longrightarrow> access_addr m (map_va m + ucast k) = Inr (ucast base + ucast k)"
    and "4096 dvd unat sz \<Longrightarrow> unat sz < unat k + 4 \<Longrightarrow> access_addr m (map_va m + ucast k) = Inl OutOfBounds"
    and "unat k + 4 \<le> unat sz \<Longrightarrow> \<not> 4 dvd unat k \<Longrightarrow> access_addr m (map_va m + ucast k) = Inl Misaligned"
proof -
  have up: "unat (page_up (ucast sz)) = 4096 * ((unat sz + 4095) div 4096)" by (rule unat_page_up_ucast)
  have in_map: "translate m (map_va m + ucast k) = Some (ucast base + ucast k) \<and>
      translate m (map_va m + ucast k + 3) \<noteq> None" if "unat k + 3 < unat (page_up (ucast sz))"
  proof -
    have "(ucast k :: u64) < page_up (ucast sz)" "(ucast k :: u64) + 3 < page_up (ucast sz)"
      using that by (simp_all only: word_less_nat_alt unat_add_3 unat_ucast_32_64)
    then show ?thesis using assms(1) by (simp add: block_mapped_def add.assoc)
  qed
  have low: "(ucast base + ucast k :: u64) AND 3 = 0 \<longleftrightarrow> 4 dvd unat k"
  proof -
    have "4 dvd unat base" using assms(2) by (rule dvd_trans [rotated]) simp
    moreover have "unat (ucast base + ucast k :: u64) = unat base + unat k"
      using unat_lt_u32 [of base] unat_lt_u32 [of k] by (simp add: unat_add_u64)
    ultimately show ?thesis by (simp add: and_3_dvd dvd_add_right_iff)
  qed
  show "access_addr m (map_va m + ucast k) = Inr (ucast base + ucast k)" if "k < sz" "4 dvd unat k"
  proof -
    have "unat k < 4096 * ((unat sz + 4095) div 4096)" using that(1) by (simp add: word_less_nat_alt)
    moreover from that(2) obtain j where "unat k = 4 * j" by (auto simp: dvd_def)
    ultimately have "unat k + 3 < unat (page_up (ucast sz))" unfolding up by auto
    with in_map low that(2) show ?thesis by (auto simp: access_addr_def)
  qed
  show "access_addr m (map_va m + ucast k) = Inl Misaligned" if "unat k + 4 \<le> unat sz" "\<not> 4 dvd unat k"
  proof -
    have "unat k + 3 < unat (page_up (ucast sz))" unfolding up using that(1) by simp
    with in_map low that(2) show ?thesis by (auto simp: access_addr_def)
  qed
  show "access_addr m (map_va m + ucast k) = Inl OutOfBounds" if "4096 dvd unat sz" "unat sz < unat k + 4"
  proof -
    from that(1) obtain n where "unat sz = 4096 * n" by (auto simp: dvd_def)
    then have "unat (page_up (ucast sz)) \<le> unat ((ucast k :: u64) + 3)"
      using that(2) unfolding up unat_add_3 by simp
    then have "page_up (ucast sz) \<le> (ucast k :: u64) + 3" by (simp only: word_le_nat_alt)
    then have "translate m (map_va m + ucast k + 3) = None" using assms(1) by (simp add: block_mapped_def add.assoc)
    then show ?thesis by (simp add: access_addr_def split: option.split)
  qed
qed

section \<open>Register accesses\<close>

text \<open>An access is that of the address, when the offset is not beyond the size.\<close>

lemma axi_access_addr:
  assumes "map_base obj = Some m" and "ao_size obj = sz" and "k \<le> sz"
  shows "access_addr m (map_va m + ucast k) = Inr pa \<Longrightarrow>
      axi_read pm obj k d = (case pm_read pm pa d of (v, d1) \<Rightarrow> Ok v d1)"
    and "access_addr m (map_va m + ucast k) = Inr pa \<Longrightarrow> axi_write pm obj k v d = Ok () (pm_write pm pa v d)"
    and "access_addr m (map_va m + ucast k) = Inl x \<Longrightarrow> axi_read pm obj k d = Fault x"
    and "access_addr m (map_va m + ucast k) = Inl x \<Longrightarrow> axi_write pm obj k v d = Fault x"
  using assms by (simp_all add: axi_read_def axi_write_def load_def store_def)

section \<open>The clock value\<close>

lemma clk_value_low_bits:
  assumes "1 \<le> d2" and "d2 \<le> 15" and "0 \<le> ty" and "ty \<le> 3"
  shows "\<exists>v. clk_value d1 d2 ty = Inr v \<and> v AND CLK_MASK = 0"
proof -
  let ?v = "push_bit (nat (8 + ty)) (push_bit (nat (16 + d2)) (push_bit 24 1 + word_of_int d1)) :: u32"
  have v: "clk_value d1 d2 ty = Inr ?v" using assms by (simp add: clk_value_def shl32_def)
  have n: "25 \<le> nat (8 + ty) + nat (16 + d2)" using assms by simp
  have mask: "\<not> bit CLK_MASK n" if "25 \<le> n" for n
  proof -
    have "CLK_MASK = take_bit 25 CLK_MASK" by (simp add: CLK_MASK_def take_bit_eq_mod)
    then show ?thesis using that by (metis bit_take_bit_iff linorder_not_le)
  qed
  have "?v AND CLK_MASK = 0"
  proof (rule bit_word_eqI)
    fix i
    show "bit (?v AND CLK_MASK) i = bit (0 :: u32) i"
      using n mask [of i] unfolding bit_and_iff push_bit_push_bit bit_push_bit_iff by auto
  qed
  with v show ?thesis by blast
qed

section \<open>The halves of an address\<close>

lemma low_high: "push_bit 32 (ucast (high32 a)) OR ucast (low32 a) = a"
proof (rule bit_word_eqI)
  fix n assume "n < LENGTH(64)"
  then show "bit (push_bit 32 (ucast (high32 a)) OR ucast (low32 a) :: u64) n = bit a n"
    by (cases "n < 32") (auto simp: high32_def low32_def bit_simps)
qed

section \<open>Chunks\<close>

text \<open>The offsets and sizes of the chunks, from an offset on.\<close>

function chunks :: "int \<Rightarrow> int \<Rightarrow> (int \<times> int) list" where
  "chunks off left =
     (if left \<le> BUFFER_SIZE then [(off, left)]
      else (off, BUFFER_SIZE) # chunks (off + BUFFER_SIZE) (left - BUFFER_SIZE))"
  by pat_completeness auto
termination
  by (relation "measure (\<lambda>(off, left). nat left)") (auto simp: BUFFER_SIZE_def)

declare chunks.simps [simp del]

lemma chunks_sizes: "0 < left \<Longrightarrow> (o1, n) \<in> set (chunks off left) \<Longrightarrow> 0 < n \<and> n \<le> BUFFER_SIZE"
proof (induction off left rule: chunks.induct)
  case (1 off left)
  then show ?case
    by (subst (asm) (2) chunks.simps) (auto simp: BUFFER_SIZE_def split: if_splits)
qed

text \<open>The chunks are adjacent and cover the transfer.\<close>

lemma chunks_cover:
  "0 < left \<Longrightarrow> concat (map (\<lambda>(o1, n). [o1..o1 + n - 1]) (chunks off left)) = [off..off + left - 1]"
proof (induction off left rule: chunks.induct)
  case (1 off left)
  show ?case
  proof (cases "left \<le> BUFFER_SIZE")
    case True
    then show ?thesis by (simp add: chunks.simps [of off left])
  next
    case False
    have "[off..off + left - 1] =
        [off..off + BUFFER_SIZE - 1] @ [off + BUFFER_SIZE..off + left - 1]"
      using False by (intro upto_split1 [of off "off + BUFFER_SIZE" "off + left - 1", simplified])
        (auto simp: BUFFER_SIZE_def)
    then show ?thesis using 1 False by (simp add: chunks.simps [of off left])
  qed
qed

text \<open>
  What the loop needs of a transfer: it returns, and its effect does not depend on what the
  driver answers (the loop does not look at the result).
\<close>

locale chunk_xfer =
  fixes xfer :: "u64 \<Rightarrow> u64 \<Rightarrow> 's \<Rightarrow> (int, 's) outcome"
    and good :: "'s \<Rightarrow> bool"
    and moved :: "u64 \<Rightarrow> u64 \<Rightarrow> 's \<Rightarrow> 's"
  assumes xfer_moves: "good s \<Longrightarrow> \<exists>rc. xfer b n s = Ok rc (moved b n s)"
    and good_moved: "good s \<Longrightarrow> good (moved b n s)"
begin

text \<open>The loop programs the engine and moves the data chunk by chunk, in the same order.\<close>

lemma ddr_loop_chunks:
  assumes "good s"
  shows "ddr_loop prog xfer (a + word_of_int off) left (buf + word_of_int off) s d =
      Ok (fold (\<lambda>(o1, n). prog (low32 (a + word_of_int o1)) (high32 (a + word_of_int o1)) (word_of_int n))
            (chunks off left) d)
        (fold (\<lambda>(o1, n). moved (buf + word_of_int o1) (word_of_int n)) (chunks off left) s)"
  using assms
proof (induction off left arbitrary: s d rule: chunks.induct)
  case (1 off left)
  let ?sz = "if left > BUFFER_SIZE then BUFFER_SIZE else left"
  let ?d = "prog (low32 (a + word_of_int off)) (high32 (a + word_of_int off)) (word_of_int ?sz) d"
  let ?t = "moved (buf + word_of_int off) (word_of_int ?sz) s"
  obtain rc where t: "xfer (buf + word_of_int off) (word_of_int ?sz) s = Ok rc ?t"
    using xfer_moves [OF 1(2)] by blast
  show ?case
  proof (cases "left \<le> BUFFER_SIZE")
    case True
    with t show ?thesis by (simp add: ddr_loop.simps [of prog] chunks.simps [of off left] Let_def)
  next
    case False
    have step: "ddr_loop prog xfer (a + word_of_int off) left (buf + word_of_int off) s d =
        ddr_loop prog xfer (a + word_of_int (off + BUFFER_SIZE)) (left - BUFFER_SIZE)
          (buf + word_of_int (off + BUFFER_SIZE)) ?t ?d"
    proof -
      have sz: "?sz = BUFFER_SIZE" and more: "left \<noteq> BUFFER_SIZE" using False by auto
      show ?thesis
        by (subst ddr_loop.simps) (simp add: Let_def sz t [unfolded sz] more add.assoc)
    qed
    from 1(1) [OF False good_moved [OF 1(2)]] False show ?thesis
      unfolding step by (simp add: chunks.simps [of off left])
  qed
qed

end

section \<open>The library's transfers\<close>

text \<open>A one-way transfer issues the ioctl of the direction of the channel it finds.\<close>

definition issue :: "axidma_chan \<Rightarrow> int \<Rightarrow> u64 \<Rightarrow> u64 \<Rightarrow> axidma_dev \<Rightarrow> axidma_dev" where
  "issue c ch b n = log_call (transfer_call (ac_dir c) ch b n True)"

interpretation oneway: chunk_xfer "\<lambda>b n. axidma_oneway_transfer io ch b n True"
    "\<lambda>d. discovered chans d \<and> first_with ch chans = Some c" "issue c ch" for io ch chans c
  by unfold_locales (auto simp: issue_def oneway_run)

lemma fold_issue:
  "fold (\<lambda>(p, n). issue c ch (f p) (g n)) xs s =
     s\<lparr>d_log := d_log s @ map (\<lambda>(p, n). transfer_call (ac_dir c) ch (f p) (g n) True) xs\<rparr>"
  by (induction xs arbitrary: s) (auto simp: issue_def log_call_def)

lemma first_channel_holds:
  "holds a (x # xs) cap \<Longrightarrow> first_channel a = Inr x"
  by (auto simp: holds_def first_channel_def take_Cons' split: list.splits if_splits)

lemma first_discovered:
  assumes "discovered chans s" and "ids_of dir AXIDMA_DMA chans = ch # rest"
  shows "first_channel (get_array dir AXIDMA_DMA s) = Inr ch"
    and "distinct (map ac_id chans) \<Longrightarrow> first_with ch chans = Some c \<Longrightarrow> ac_dir c = dir"
proof -
  have "holds (get_array dir AXIDMA_DMA s) (ch # rest) (length (ids_of dir AXIDMA_DMA chans))"
    using assms(1,2) unfolding discovered_def by metis
  then show "first_channel (get_array dir AXIDMA_DMA s) = Inr ch" by (rule first_channel_holds)
  have "ch \<in> set (ids_of dir AXIDMA_DMA chans)" using assms(2) by simp
  then obtain c' where c': "c' \<in> set chans" "ac_id c' = ch" "ac_dir c' = dir" by (auto simp: ids_of_def)
  show "ac_dir c = dir" if "distinct (map ac_id chans)" "first_with ch chans = Some c"
    using first_with_unique [OF that(1) c'(1)] c'(2,3) that(2) by simp
qed

section \<open>Times\<close>

lemma timespec_sub_Ok:
  assumes "0 \<le> tv_nsec t1" and "tv_nsec t1 < 1000000000" and "0 \<le> tv_nsec t2"
    and "tv_nsec t2 < 1000000000"
  obtains t where "timespec_sub t1 t2 = Ok () t" and "0 \<le> tv_nsec t" and "tv_nsec t < 1000000000"
    and "tv_sec t * 1000000000 + tv_nsec t =
      (tv_sec t1 * 1000000000 + tv_nsec t1) - (tv_sec t2 * 1000000000 + tv_nsec t2)"
  using assms by (force simp: timespec_sub_def Let_def split: if_splits)

text \<open>The difference of two times is right when both have valid nanoseconds, and an assertion fails otherwise.\<close>

lemma timespec_sub_difference:
  "if 0 \<le> tv_nsec t1 \<and> tv_nsec t1 < 1000000000 \<and> 0 \<le> tv_nsec t2 \<and> tv_nsec t2 < 1000000000
   then \<exists>t. timespec_sub t1 t2 = Ok () t \<and> 0 \<le> tv_nsec t \<and> tv_nsec t < 1000000000 \<and>
     tv_sec t * 1000000000 + tv_nsec t =
       (tv_sec t1 * 1000000000 + tv_nsec t1) - (tv_sec t2 * 1000000000 + tv_nsec t2)
   else timespec_sub t1 t2 = Fault AssertFailed"
proof (cases "0 \<le> tv_nsec t1 \<and> tv_nsec t1 < 1000000000 \<and> 0 \<le> tv_nsec t2 \<and> tv_nsec t2 < 1000000000")
  case True
  then show ?thesis using timespec_sub_Ok [of t1 t2] by (metis (no_types, lifting))
next
  case False
  then show ?thesis unfolding timespec_sub_def by (simp only: if_False not_False_eq_True if_True)
qed

text \<open>Accesses through a mapped block.\<close>

lemma axi_access:
  assumes "map_base obj = Some m" and "ao_size obj = sz" and "block_mapped base sz m" and "4096 dvd unat base"
  shows "(k < sz \<and> 4 dvd unat k \<longrightarrow>
      axi_read pm obj k d = (case pm_read pm (ucast base + ucast k) d of (v, d1) \<Rightarrow> Ok v d1) \<and>
      axi_write pm obj k v d = Ok () (pm_write pm (ucast base + ucast k) v d)) \<and>
    (unat k + 4 \<le> unat sz \<and> \<not> 4 dvd unat k \<longrightarrow>
      axi_read pm obj k d = Fault Misaligned \<and> axi_write pm obj k v d = Fault Misaligned) \<and>
    (4096 dvd unat sz \<and> k \<le> sz \<and> unat sz < unat k + 4 \<longrightarrow>
      axi_read pm obj k d = Fault OutOfBounds \<and> axi_write pm obj k v d = Fault OutOfBounds) \<and>
    (sz < k \<longrightarrow> axi_read pm obj k d = Fault AssertFailed \<and> axi_write pm obj k v d = Fault AssertFailed)"
proof (intro conjI impI)
  note acc = block_mapped_access [OF assms(3,4), of k] and run = axi_access_addr [OF assms(1,2), of k]
  have le: "unat k + 4 \<le> unat sz \<Longrightarrow> k \<le> sz" by (simp add: word_le_nat_alt)
  show "axi_read pm obj k d = (case pm_read pm (ucast base + ucast k) d of (v, d1) \<Rightarrow> Ok v d1)"
    "axi_write pm obj k v d = Ok () (pm_write pm (ucast base + ucast k) v d)" if "k < sz \<and> 4 dvd unat k"
    using that run(1,2) [OF _ acc(1)] by (auto simp: less_imp_le)
  show "axi_read pm obj k d = Fault Misaligned" "axi_write pm obj k v d = Fault Misaligned"
    if "unat k + 4 \<le> unat sz \<and> \<not> 4 dvd unat k"
    using that run(3,4) [OF _ acc(3)] le by auto
  show "axi_read pm obj k d = Fault OutOfBounds" "axi_write pm obj k v d = Fault OutOfBounds"
    if "4096 dvd unat sz \<and> k \<le> sz \<and> unat sz < unat k + 4"
    using that run(3,4) [OF _ acc(2)] by auto
qed (use assms(1,2) in \<open>simp_all add: axi_read_def axi_write_def not_le\<close>)

end
