(* ===== verification/DmaClaims.thy ===== *)
theory DmaClaims
  imports LibSignals AxiCtrlInv
begin

text \<open>
  The properties of the user side of the DMA: libaxidma's discovery, callbacks and transfers,
  and the control functions.
\<close>

section \<open>libaxidma\<close>

definition demo_chans :: "axidma_chan list" where
  "demo_chans = [\<lparr>ac_dir = AXIDMA_WRITE, ac_type = AXIDMA_DMA, ac_id = 0\<rparr>,
     \<lparr>ac_dir = AXIDMA_READ, ac_type = AXIDMA_DMA, ac_id = 1\<rparr>]"

definition demo_lib :: lib_env where
  "demo_lib = \<lparr>le_open = 3, le_num = (0, \<lparr>nc_channels = 2, nc_dma_tx = 1, nc_dma_rx = 1,
      nc_vdma_tx = 0, nc_vdma_rx = 0\<rparr>), le_chans = (0, demo_chans), le_malloc = (\<lambda>_. True),
      le_sigaction = 0, le_setsig = 0\<rparr>"

lemma demo_lib_ok: "lib_env_ok demo_lib demo_chans"
  by (simp add: lib_env_ok_def demo_lib_def demo_chans_def counts_ok_def ids_of_def)

lemma fresh_zero: "fresh_dev axidma_dev_zero"
proof -
  have "arr_len (get_array dir ty axidma_dev_zero) = 0" for dir ty
    by (cases dir; cases ty) (simp_all add: axidma_dev_zero_def empty_array_def)
  then show ?thesis by (simp add: fresh_dev_def) (simp add: axidma_dev_zero_def)
qed

text \<open>
  C31. Opening the library on a device that was not used before discovers it: a handle is
  returned after exactly the three ioctls of the discovery, the four arrays hold the channel
  numbers of their direction and type in the driver's order, and the table of channels has
  every channel's direction, type and number.
\<close>

theorem lib_init_discovers:
  assumes "lib_env_ok ev chans" and "fresh_dev d"
  shows "\<exists>d'. axidma_init_dev ev d = Ok True d' \<and> discovered chans d' \<and> d_initialized d' \<and>
     d_fd d' = le_open ev \<and> d_log d' = d_log d @ [GET_NUM_DMA_CHANNELS, GET_DMA_CHANNELS, SET_DMA_SIGNAL]"
  by (rule init_ok [OF assms])

theorem lib_init_discovers_witness:
  "\<exists>d'. axidma_init_dev demo_lib axidma_dev_zero = Ok True d' \<and> discovered demo_chans d'"
  using lib_init_discovers [OF demo_lib_ok fresh_zero] by blast

lemma demo_discovered:
  obtains d where "discovered demo_chans d" and "axidma_init_dev demo_lib axidma_dev_zero = Ok True d"
  using init_ok [OF demo_lib_ok fresh_zero] by blast

lemma demo_first:
  "first_with 0 demo_chans = Some \<lparr>ac_dir = AXIDMA_WRITE, ac_type = AXIDMA_DMA, ac_id = 0\<rparr>"
  "first_with 1 demo_chans = Some \<lparr>ac_dir = AXIDMA_READ, ac_type = AXIDMA_DMA, ac_id = 1\<rparr>"
  by (simp_all add: first_with_def demo_chans_def)

text \<open>A sender and a receiver with one number, as the device tree may give them.\<close>

definition shared_chans :: "axidma_chan list" where
  "shared_chans = [\<lparr>ac_dir = AXIDMA_WRITE, ac_type = AXIDMA_DMA, ac_id = 4\<rparr>,
     \<lparr>ac_dir = AXIDMA_READ, ac_type = AXIDMA_DMA, ac_id = 4\<rparr>]"

lemma shared_discovered:
  obtains d where "discovered shared_chans d"
proof -
  have "lib_env_ok (demo_lib\<lparr>le_chans := (0, shared_chans)\<rparr>) shared_chans"
    by (simp add: lib_env_ok_def demo_lib_def shared_chans_def counts_ok_def ids_of_def)
  from init_ok [OF this fresh_zero] that show thesis by blast
qed

lemma shared_first:
  "first_with 4 shared_chans = Some \<lparr>ac_dir = AXIDMA_WRITE, ac_type = AXIDMA_DMA, ac_id = 4\<rparr>"
  by (simp add: first_with_def shared_chans_def)

text \<open>
  C32. A transfer on a discovered device issues exactly one ioctl and passes its error on. The
  library finds a channel by its number alone, the first of the driver's list: a one-way transfer
  issues the ioctl of that channel's direction, a two-way transfer one for both channels when the
  first found sends and the second found receives. A transfer on an unknown channel, or a two-way
  transfer in a wrong direction, fails an assertion before any ioctl. The interface makes a number
  unique only together with direction and type, so when a sender and a receiver have the same
  number, only the first of the two can be used, and no two-way transfer between them is possible.
\<close>

theorem lib_transfers_one_ioctl:
  assumes "discovered chans d"
  shows "axidma_oneway_transfer io x buf len wait d =
      (case first_with x chans of
         None \<Rightarrow> Fault AssertFailed
       | Some c \<Rightarrow> Ok (min 0 (io (transfer_call (ac_dir c) x buf len wait)))
                     (log_call (transfer_call (ac_dir c) x buf len wait) d)) \<and>
    axidma_twoway_transfer io x buf len txf y rbuf rlen rxf wait d =
      (if map_option ac_dir (first_with x chans) = Some AXIDMA_WRITE \<and>
          map_option ac_dir (first_with y chans) = Some AXIDMA_READ
       then let call = DMA_READWRITE \<lparr>io_wait = wait, io_tx_channel_id = x, io_tx_buf = buf,
                  io_tx_buf_len = len, io_tx_frame = case_option no_frame id txf, io_rx_channel_id = y,
                  io_rx_buf = rbuf, io_rx_buf_len = rlen, io_rx_frame = case_option no_frame id rxf\<rparr> in
            Ok (io call) (log_call call d)
       else Fault AssertFailed)"
  by (intro conjI oneway_cases twoway_run assms)

text \<open>Two channels with one number: the transfer on the receiver is issued as a send.\<close>

theorem lib_transfers_one_ioctl_witness:
  "(\<exists>d. axidma_oneway_transfer (\<lambda>_. - 5) 1 0x1000 64 True d =
     Ok (- 5) (log_call (DMA_READ \<lparr>tr_wait = True, tr_channel_id = 1, tr_buf = 0x1000, tr_buf_len = 64\<rparr>) d)) \<and>
   (\<exists>d. discovered shared_chans d \<and>
     axidma_oneway_transfer (\<lambda>_. 0) 4 0x1000 64 True d =
       Ok 0 (log_call (DMA_WRITE \<lparr>tr_wait = True, tr_channel_id = 4, tr_buf = 0x1000, tr_buf_len = 64\<rparr>) d) \<and>
     axidma_twoway_transfer (\<lambda>_. 0) 4 0x1000 64 None 4 0x2000 64 None True d = Fault AssertFailed)"
proof -
  obtain d where d: "discovered demo_chans d" by (rule demo_discovered)
  obtain d2 where d2: "discovered shared_chans d2" by (rule shared_discovered)
  have "axidma_oneway_transfer (\<lambda>_. - 5) 1 0x1000 64 True d =
      Ok (- 5) (log_call (DMA_READ \<lparr>tr_wait = True, tr_channel_id = 1, tr_buf = 0x1000, tr_buf_len = 64\<rparr>) d)"
    using lib_transfers_one_ioctl [OF d, of "\<lambda>_. - 5" 1 "0x1000" 64 True] by (simp add: demo_first transfer_call_def)
  moreover have "axidma_oneway_transfer (\<lambda>_. 0) 4 0x1000 64 True d2 =
       Ok 0 (log_call (DMA_WRITE \<lparr>tr_wait = True, tr_channel_id = 4, tr_buf = 0x1000, tr_buf_len = 64\<rparr>) d2)"
    "axidma_twoway_transfer (\<lambda>_. 0) 4 0x1000 64 None 4 0x2000 64 None True d2 = Fault AssertFailed"
    using lib_transfers_one_ioctl [OF d2, of "\<lambda>_. 0" 4 "0x1000" 64 True None 4 "0x2000" 64 None]
    by (simp_all add: shared_first transfer_call_def)
  ultimately show ?thesis using d2 by blast
qed

text \<open>
  C33. A callback that is set is the one called, with its channel and its data, and the other
  channels' callbacks stay, at every moment, for a channel whose number is less than the number of
  channels: the number is the index of the entry. A channel with another number can be discovered
  and used for transfers, but setting its callback writes outside the table, and its signal fails
  the handler's assertion; setting the callback of an unknown channel fails an assertion. Setting
  takes two stores, and a signal that arrives between them calls the new callback with the data
  of the old one. A signal that arrives after the library was closed reads the freed table.
\<close>

theorem lib_callback_roundtrip:
  assumes "discovered chans d"
  shows "(x \<notin> ac_id ` set chans \<longrightarrow> axidma_set_callback x (Some cb) data d = Fault AssertFailed) \<and>
    (x \<in> ac_id ` set chans \<and> \<not> (0 \<le> x \<and> x < int (length chans)) \<longrightarrow>
      axidma_set_callback x (Some cb) data d = Fault OutOfBounds \<and> axidma_callback x d = Fault AssertFailed) \<and>
    (x \<in> ac_id ` set chans \<and> 0 \<le> x \<and> x < int (length chans) \<longrightarrow>
      (\<exists>d1 d' e. store_callback x (Some cb) d = Ok () d1 \<and> store_user_data x data d1 = Ok () d' \<and>
        axidma_set_callback x (Some cb) data d = Ok () d' \<and> discovered chans d' \<and>
        axidma_callback x d' = Ok (Some (cb, x, data)) d' \<and>
        (\<forall>j. j \<noteq> x \<longrightarrow> called j d1 = called j d \<and> called j d' = called j d) \<and>
        (\<forall>cb0 data0. axidma_callback x d = Ok (Some (cb0, x, data0)) d \<longrightarrow>
           axidma_callback x d1 = Ok (Some (cb, x, data0)) d1) \<and>
        axidma_destroy 0 d' = Ok () e \<and> axidma_callback x e = Fault UseAfterFree))"
proof (intro conjI impI)
  assume x: "x \<in> ac_id ` set chans \<and> 0 \<le> x \<and> x < int (length chans)"
  then obtain k where k: "x = int k" "int k \<in> ac_id ` set chans" "k < length chans"
    using nonneg_int_cases by (metis of_nat_less_iff)
  show "\<exists>d1 d' e. store_callback x (Some cb) d = Ok () d1 \<and> store_user_data x data d1 = Ok () d' \<and>
        axidma_set_callback x (Some cb) data d = Ok () d' \<and> discovered chans d' \<and>
        axidma_callback x d' = Ok (Some (cb, x, data)) d' \<and>
        (\<forall>j. j \<noteq> x \<longrightarrow> called j d1 = called j d \<and> called j d' = called j d) \<and>
        (\<forall>cb0 data0. axidma_callback x d = Ok (Some (cb0, x, data0)) d \<longrightarrow>
           axidma_callback x d1 = Ok (Some (cb, x, data0)) d1) \<and>
        axidma_destroy 0 d' = Ok () e \<and> axidma_callback x e = Fault UseAfterFree"
    unfolding k(1) by (rule callback_index [OF assms k(2,3)])
qed (use set_callback_unknown [OF assms] set_callback_no_index [OF assms] in auto)

theorem lib_callback_roundtrip_witness:
  "(\<exists>d d1 d'. axidma_set_callback 1 (Some 42) 7 d = Ok () d1 \<and> axidma_callback 1 d1 = Ok (Some (42, 1, 7)) d1 \<and>
     store_callback 1 (Some 43) d1 = Ok () d' \<and> axidma_callback 1 d' = Ok (Some (43, 1, 7)) d') \<and>
   (\<exists>d. discovered shared_chans d \<and> axidma_set_callback 4 (Some 42) 7 d = Fault OutOfBounds)"
proof -
  obtain d where d: "discovered demo_chans d" by (rule demo_discovered)
  obtain d2 where d2: "discovered shared_chans d2" by (rule shared_discovered)
  have k: "1 \<in> ac_id ` set demo_chans \<and> 0 \<le> (1 :: int) \<and> 1 < int (length demo_chans)"
    by (simp add: demo_chans_def)
  from lib_callback_roundtrip [OF d, of 1 42 7] k obtain d1 where
    d1: "axidma_set_callback 1 (Some 42) 7 d = Ok () d1" "discovered demo_chans d1"
      "axidma_callback 1 d1 = Ok (Some (42, 1, 7)) d1" by blast
  have "4 \<in> ac_id ` set shared_chans \<and> \<not> (0 \<le> (4 :: int) \<and> 4 < int (length shared_chans))"
    by (simp add: shared_chans_def)
  with lib_callback_roundtrip [OF d2, of 4 42 7] d2 lib_callback_roundtrip [OF d1(2), of 1 43 8] d1(1,3) k
  show ?thesis by blast
qed

text \<open>
  C34. The library cannot be opened a second time after it was closed: closing frees the
  arrays but keeps their lengths, so the next discovery writes past the end of a new array.
\<close>

theorem lib_reopen_overflows:
  assumes "discovered chans d" and "lib_env_ok ev chans"
  shows "\<exists>d'. axidma_destroy 0 d = Ok () d' \<and> axidma_init_dev ev d' = Fault OutOfBounds"
  using destroy_ok [OF assms(1)] init_again [OF assms(2)] by blast

theorem lib_reopen_overflows_witness:
  "\<exists>d d'. axidma_init_dev demo_lib axidma_dev_zero = Ok True d \<and> axidma_destroy 0 d = Ok () d' \<and>
     axidma_init_dev demo_lib d' = Fault OutOfBounds"
proof -
  obtain d where d: "discovered demo_chans d" "axidma_init_dev demo_lib axidma_dev_zero = Ok True d"
    by (rule demo_discovered)
  with lib_reopen_overflows [OF d(1) demo_lib_ok] show ?thesis by blast
qed

section \<open>Register blocks\<close>

text \<open>
  C35. Whatever was opened before, a call of axi_init that succeeds gives access to exactly the
  block of registers it was asked for, through axiregs for the programmable logic's range when
  that device opens and through /dev/mem otherwise: it keeps the cached descriptors consistent
  and makes one mapping. An access of four bytes inside the block, at a multiple of four, reaches
  its physical address; at another offset it is misaligned; an offset beyond the size fails the
  assertion. But the assertion lets the last offsets up to the size itself pass: when the block is
  a number of whole pages, the access then leaves the mapping.
\<close>

theorem axi_block_access:
  assumes "ctrl_inv s" and "axi_init ev base sz s = Ok obj t" and "ce_map ev" and "0 < sz"
    and "4096 dvd unat base" and "unat (ce_base ev) + unat (page_up (ucast sz)) < 2 ^ 64"
  shows "ctrl_inv t \<and> ct_maps t = ct_maps s + 1 \<and>
    (k < sz \<and> 4 dvd unat k \<longrightarrow>
      axi_read pm obj k d = (case pm_read pm (ucast base + ucast k) d of (v, d1) \<Rightarrow> Ok v d1) \<and>
      axi_write pm obj k v d = Ok () (pm_write pm (ucast base + ucast k) v d)) \<and>
    (unat k + 4 \<le> unat sz \<and> \<not> 4 dvd unat k \<longrightarrow>
      axi_read pm obj k d = Fault Misaligned \<and> axi_write pm obj k v d = Fault Misaligned) \<and>
    (4096 dvd unat sz \<and> k \<le> sz \<and> unat sz < unat k + 4 \<longrightarrow>
      axi_read pm obj k d = Fault OutOfBounds \<and> axi_write pm obj k v d = Fault OutOfBounds) \<and>
    (sz < k \<longrightarrow> axi_read pm obj k d = Fault AssertFailed \<and> axi_write pm obj k v d = Fault AssertFailed)"
proof -
  obtain m where m: "map_base obj = Some m" "ao_size obj = sz" "block_mapped base sz m"
    and s: "ctrl_inv t" "ct_maps t = ct_maps s + 1"
    using axi_init_run [OF assms] by auto
  show ?thesis using s axi_access [OF m assms(5), of k pm d v] by blast
qed

definition demo_ctrl :: ctrl_env where
  "demo_ctrl = \<lparr>ce_open_regs = True, ce_open_mem = True, ce_map = True, ce_base = 0x7000\<rparr>"

lemma demo_axi_init: "\<exists>obj t. axi_init demo_ctrl 0xA0000000 0x1000 ctrl_zero = Ok obj t"
  by (simp add: axi_init_def demo_ctrl_def ctrl_zero_def Let_def)

definition demo_ram :: "(u64 \<Rightarrow> u32) physmem" where
  "demo_ram = \<lparr>pm_read = (\<lambda>a d. (d a, d)), pm_write = (\<lambda>a v d. d(a := v))\<rparr>"

theorem axi_block_access_witness:
  "\<exists>obj t. axi_init demo_ctrl 0xA0000000 0x1000 ctrl_zero = Ok obj t \<and>
     axi_write demo_ram obj 4 7 (\<lambda>_. 0) = Ok () ((\<lambda>_. 0)(0xA0000004 := 7)) \<and>
     axi_read demo_ram obj 5 (\<lambda>_. 0) = Fault Misaligned \<and>
     axi_read demo_ram obj 0xFFD (\<lambda>_. 0) = Fault OutOfBounds \<and>
     axi_read demo_ram obj 0x1000 (\<lambda>_. 0) = Fault OutOfBounds"
proof -
  obtain obj t where run: "axi_init demo_ctrl 0xA0000000 0x1000 ctrl_zero = Ok obj t"
    using demo_axi_init by blast
  note acc = axi_block_access [OF ctrl_inv_zero run, of _ demo_ram "\<lambda>_. 0" 7]
  from acc [of 4] acc [of 5] acc [of "0xFFD"] acc [of "0x1000"] run
  show ?thesis by (simp add: demo_ctrl_def demo_ram_def page_up_page)
qed

lemma clk_start_stop:
  assumes "1 \<le> d2" and "d2 \<le> 15"
  shows "pl_clk_config ev pm True clk d1 d2 ty st = pl_clk_config ev pm False clk d1 d2 ty st"
proof (cases "ty > 3 \<or> ty < 0")
  case True
  then show ?thesis by (auto simp: pl_clk_config_def split: prod.splits)
next
  case False
  then obtain v where "clk_value d1 d2 ty = Inr v" "v AND CLK_MASK = 0"
    using clk_value_low_bits [OF assms, of ty d1] by auto
  then show ?thesis by (cases st) (simp add: pl_clk_config_def Let_def)
qed

text \<open>
  C36. Starting a clock with a second divisor from 1 to 15 is the same as stopping it: the
  value that is to go into the register is shifted beyond all fields (addition binds tighter
  than the shifts), so the enable bit and the dividers are cleared.
\<close>

theorem pl_clk_start_is_stop:
  assumes "1 \<le> d2" and "d2 \<le> 15" and "ty \<in> {0, 2, 3}" and "0 \<le> clk" and "clk \<le> 3"
    and "ctrl_inv s" and "ce_open_mem ev" and "ce_map ev" and "unat (ce_base ev) + 0x1000 < 2 ^ 64"
    and "reg = 0xFF5E00C0 + 4 * word_of_int clk"
  shows "pl_clk_config ev pm True clk d1 d2 ty (s, obj, d) = pl_clk_config ev pm False clk d1 d2 ty (s, obj, d) \<and>
    (\<exists>t obj'. pl_clk_config ev pm True clk d1 d2 ty (s, obj, d) =
      (case pm_read pm reg d of (v, e) \<Rightarrow> Ok 0 (t, obj', pm_write pm reg (v AND NOT CLK_MASK) e)))"
proof
  note same = clk_start_stop [OF assms(1,2)]
  show "pl_clk_config ev pm True clk d1 d2 ty (s, obj, d) = pl_clk_config ev pm False clk d1 d2 ty (s, obj, d)"
    by (rule same)
  have "\<exists>o1 t1. axi_init ev 0xFF5E0000 0x1000 s = Ok o1 t1"
    using assms(7) by (simp add: axi_init_def)
  then obtain o1 t1 where run: "axi_init ev 0xFF5E0000 0x1000 s = Ok o1 t1" by blast
  have al: "(4096 :: nat) dvd unat (0xFF5E0000 :: u32)" by simp
  obtain m where m: "map_base o1 = Some m" "ao_size o1 = 0x1000" and blk: "block_mapped 0xFF5E0000 0x1000 m"
    using axi_init_run [OF assms(6) run assms(8) _ al] assms(9) by (auto simp: page_up_page)
  define k where "k = (0xC0 :: u32) + word_of_int clk * 4"
  have "clk = 0 \<or> clk = 1 \<or> clk = 2 \<or> clk = 3" using assms(4,5) by linarith
  then have k: "k < 0x1000" "k \<le> 0x1000" "4 dvd unat k" "0xFF5E0000 + ucast k = reg"
    unfolding k_def assms(10) by auto
  have tr: "access_addr m (map_va m + ucast k) = Inr reg"
    using block_mapped_access(1) [OF blk al k(1,3)] k(4) by simp
  note acc = axi_access_addr(1,2) [OF m(1,2) k(2) tr, of pm]
  have "pl_clk_config ev pm False clk d1 d2 ty (s, obj, d) =
      (case pm_read pm reg d of (v, e) \<Rightarrow> Ok 0 (t1, o1, pm_write pm reg (v AND NOT CLK_MASK) e))"
    using assms(3-6) run acc
    by (auto simp: pl_clk_config_def Let_def ctrl_inv_def k_def [symmetric] split: prod.splits)
  then show "\<exists>t obj'. pl_clk_config ev pm True clk d1 d2 ty (s, obj, d) =
      (case pm_read pm reg d of (v, e) \<Rightarrow> Ok 0 (t, obj', pm_write pm reg (v AND NOT CLK_MASK) e))"
    unfolding same by blast
qed

theorem pl_clk_start_is_stop_witness:
  "\<exists>t obj'. pl_clk_config demo_ctrl demo_ram True 0 8 1 0 (ctrl_zero, \<lparr>map_base = None, ao_size = 0\<rparr>, \<lambda>_. 0xFFFFFFFF) =
     Ok 0 (t, obj', (\<lambda>_. 0xFFFFFFFF)(0xFF5E00C0 := 0xFFFFFFFF AND NOT CLK_MASK))"
proof -
  have "\<exists>t obj'. pl_clk_config demo_ctrl demo_ram True 0 8 1 0 (ctrl_zero, \<lparr>map_base = None, ao_size = 0\<rparr>, \<lambda>_. 0xFFFFFFFF) =
     (case pm_read demo_ram 0xFF5E00C0 (\<lambda>_. 0xFFFFFFFF) of (v, e) \<Rightarrow>
        Ok 0 (t, obj', pm_write demo_ram 0xFF5E00C0 (v AND NOT CLK_MASK) e))"
    by (rule pl_clk_start_is_stop [where reg = "0xFF5E00C0", THEN conjunct2])
       (simp_all add: ctrl_inv_zero demo_ctrl_def)
  then show ?thesis by (simp add: demo_ram_def)
qed

section \<open>Moving data between the memories\<close>

text \<open>
  C37. A copy between the two memories returns after issuing the transfers of the whole buffer, in
  either direction: for each chunk, in order, the engine is programmed with the chunk's address and
  size and the library issues one transfer of the same bytes on the first channel of the direction;
  the chunks are adjacent, of at most BUFFER_SIZE bytes, and cover the buffer. The transfers have
  the direction of the first channel with that number, which is the direction asked for when the
  numbers are unique. Nothing else of the library's state changes, and what the driver answers
  makes no difference: a transfer that fails goes unnoticed.
\<close>

theorem ddr_moves_all:
  assumes "discovered chans s"
    and "ids_of AXIDMA_WRITE AXIDMA_DMA chans = tx # txs" and "ids_of AXIDMA_READ AXIDMA_DMA chans = rx # rxs"
    and "first_with tx chans = Some ct" and "first_with rx chans = Some cr" and "0 < nbytes"
  shows "DDR_PS2PL io dev (axidma_get_dma_tx s) a nbytes buf s d =
      Ok (fold (\<lambda>(p, n). DMA_S2MM dev (low32 (a + word_of_int p)) (high32 (a + word_of_int p)) (word_of_int n))
            (chunks 0 nbytes) d)
        (s\<lparr>d_log := d_log s @ map (\<lambda>(p, n). transfer_call (ac_dir ct) tx (buf + word_of_int p) (word_of_int n) True)
            (chunks 0 nbytes)\<rparr>) \<and>
    DDR_PL2PS io dev (axidma_get_dma_rx s) a nbytes buf s d =
      Ok (fold (\<lambda>(p, n). DMA_MM2S dev (low32 (a + word_of_int p)) (high32 (a + word_of_int p)) (word_of_int n))
            (chunks 0 nbytes) d)
        (s\<lparr>d_log := d_log s @ map (\<lambda>(p, n). transfer_call (ac_dir cr) rx (buf + word_of_int p) (word_of_int n) True)
            (chunks 0 nbytes)\<rparr>) \<and>
    (distinct (map ac_id chans) \<longrightarrow> ac_dir ct = AXIDMA_WRITE \<and> ac_dir cr = AXIDMA_READ) \<and>
    concat (map (\<lambda>(p, n). [p..p + n - 1]) (chunks 0 nbytes)) = [0..nbytes - 1] \<and>
    (\<forall>(p, n) \<in> set (chunks 0 nbytes). 0 < n \<and> n \<le> BUFFER_SIZE)"
proof -
  have tx: "discovered chans s \<and> first_with tx chans = Some ct" and rx: "discovered chans s \<and> first_with rx chans = Some cr"
    using assms(1,4,5) by auto
  note first = first_discovered(1) [OF assms(1,2)] first_discovered(1) [OF assms(1,3)]
    first_discovered(2) [OF assms(1,2), of ct] first_discovered(2) [OF assms(1,3), of cr]
  show ?thesis
    using oneway.ddr_loop_chunks [OF tx, of "DMA_S2MM dev" io a 0 nbytes buf d]
      oneway.ddr_loop_chunks [OF rx, of "DMA_MM2S dev" io a 0 nbytes buf d] first assms(4,5)
      chunks_cover [OF assms(6), of 0] chunks_sizes [OF assms(6), of _ _ 0]
    by (auto simp: DDR_PS2PL_def DDR_PL2PS_def axidma_get_dma_tx_def axidma_get_dma_rx_def fold_issue)
qed

text \<open>Two chunks, whose transfers the driver refuses.\<close>

theorem ddr_moves_all_witness:
  "\<exists>s dd. DDR_PS2PL (\<lambda>_. - 5) (undefined :: nat mmio) (axidma_get_dma_tx s) 0x80000000 10000000 0x1000 s 0 =
     Ok dd (s\<lparr>d_log := d_log s @
       [DMA_WRITE \<lparr>tr_wait = True, tr_channel_id = 0, tr_buf = 0x1000, tr_buf_len = word_of_int BUFFER_SIZE\<rparr>,
        DMA_WRITE \<lparr>tr_wait = True, tr_channel_id = 0, tr_buf = 0x1000 + word_of_int BUFFER_SIZE,
          tr_buf_len = word_of_int (10000000 - BUFFER_SIZE)\<rparr>]\<rparr>)"
proof -
  obtain d where d: "discovered demo_chans d" by (rule demo_discovered)
  have "ids_of AXIDMA_WRITE AXIDMA_DMA demo_chans = [0]" "ids_of AXIDMA_READ AXIDMA_DMA demo_chans = [1]"
    by (simp_all add: ids_of_def demo_chans_def)
  moreover have "chunks 0 10000000 = [(0, BUFFER_SIZE), (BUFFER_SIZE, 10000000 - BUFFER_SIZE)]"
    by (simp add: chunks.simps [of 0] chunks.simps [of BUFFER_SIZE]) (simp add: BUFFER_SIZE_def)
  moreover note ddr_moves_all [OF d _ _ demo_first, of "[]" "[]" 10000000 "\<lambda>_. - 5" undefined "0x80000000" "0x1000" 0]
  ultimately show ?thesis by (auto simp: transfer_call_def)
qed

end
