(* ===== verification/DmaExample.thy ===== *)
theory DmaExample
  imports PinDevice AxidmaUio
begin

text \<open>
  The program how_to_use_marcos_drivers/axidma/user_example.c as a whole: it opens the pinner
  and the UIO device of an AXI DMA, pins a page for descriptors and a buffer, writes the
  descriptors, starts the engine through its registers, waits for the interrupt, unpins and
  cleans up. The code uses the names latencies_buf, latencies_plist, latencies_handle and
  LATENCIES_SIZE, which the repository declares nowhere: what they stand for is an argument.
\<close>

section \<open>The registers\<close>

datatype axidma_reg =
    MM2S_DMACR | MM2S_DMASR | MM2S_curdesc_lsb | MM2S_curdesc_msb | MM2S_taildesc_lsb | MM2S_taildesc_msb
  | S2MM_DMACR | S2MM_DMASR | S2MM_curdesc_lsb | S2MM_curdesc_msb | S2MM_taildesc_lsb | S2MM_taildesc_msb

text \<open>The offsets in the struct, which has six unused words between the two channels.\<close>

fun axidma_reg_offset :: "axidma_reg \<Rightarrow> u64" where
  "axidma_reg_offset MM2S_DMACR = 0x00"
| "axidma_reg_offset MM2S_DMASR = 0x04"
| "axidma_reg_offset MM2S_curdesc_lsb = 0x08"
| "axidma_reg_offset MM2S_curdesc_msb = 0x0C"
| "axidma_reg_offset MM2S_taildesc_lsb = 0x10"
| "axidma_reg_offset MM2S_taildesc_msb = 0x14"
| "axidma_reg_offset S2MM_DMACR = 0x30"
| "axidma_reg_offset S2MM_DMASR = 0x34"
| "axidma_reg_offset S2MM_curdesc_lsb = 0x38"
| "axidma_reg_offset S2MM_curdesc_msb = 0x3C"
| "axidma_reg_offset S2MM_taildesc_lsb = 0x40"
| "axidma_reg_offset S2MM_taildesc_msb = 0x44"

section \<open>State\<close>

definition SG_LIST_SIZE :: u32 where
  "SG_LIST_SIZE = 4096"

definition DMA_BUF_SIZE :: u32 where
  "DMA_BUF_SIZE = 5000"

text \<open>
  The visible actions: texts, stores to the engine's registers, and the blocking read of the
  interrupt count.
\<close>

datatype dma_act = Usage | Failed string | RegWrite axidma_reg u32 | WaitIrq | Status | ShowBytes nat

text \<open>
  \<open>dr_k\<close> is the state of the pinner and of the user memory it writes, \<open>dr_uio\<close> that of the UIO
  driver, \<open>dr_sg\<close> the descriptors in the page of the program, \<open>dr_mapped\<close> the number of its
  mappings of registers, \<open>dr_heap\<close> the blocks malloc and posix_memalign returned and free did
  not take back.
\<close>

record dma_run =
  dr_k :: kstate
  dr_uio :: uio_state
  dr_sg :: sg_mem
  dr_mapped :: nat
  dr_heap :: "u64 multiset"
  dr_log :: "dma_act list"

text \<open>
  What the run depends on: the paths that name the UIO device of the engine (another path is
  no file), the proc_info, magic number and descriptor of the pinner file, whether the
  registers can be mapped, the answers of posix_memalign and malloc (0: NULL) and to the two
  pin commands, the addresses of the structs on the stack, the undeclared names (the pointer as
  a function of the value of \<open>buf\<close>), whether the interrupt comes, and the values
  that \<open>unpin_buf\<close>, which ends without a return statement, leaves for its two calls.
\<close>

record dma_env =
  de_paths :: "string \<Rightarrow> bool"
  de_info :: "kptr option"
  de_magic :: u32
  de_fd :: nat
  de_mmap :: bool
  de_memalign :: "u64 option"
  de_malloc :: u64
  de_pin_sg :: pin_env
  de_pin_buf :: pin_env
  de_cmd :: u64
  de_sg_handle :: u64
  de_sg_plist :: u64
  de_buf_handle :: u64
  de_buf_plist :: u64
  de_lat_buf :: "u64 \<Rightarrow> u64"
  de_lat_plist :: u64
  de_lat_handle :: u64
  de_lat_size :: nat
  de_irq :: bool
  de_junk1 :: int
  de_junk2 :: int

text \<open>The variables of \<open>main\<close>: \<open>sg_list\<close>, \<open>buf\<close>, and whether the others still have their first values.\<close>

record dma_vars =
  v_sg_list :: u64
  v_buf :: u64
  v_fd :: bool
  v_axidma_fd :: bool
  v_axidma_base :: bool

definition act :: "dma_act list \<Rightarrow> dma_run \<Rightarrow> dma_run" where
  "act xs s = s\<lparr>dr_log := dr_log s @ xs\<rparr>"

definition on_k :: "(kstate \<Rightarrow> ('a, kstate) outcome) \<Rightarrow> dma_run \<Rightarrow> ('a, dma_run) outcome" where
  "on_k f s = obind (f (dr_k s)) (\<lambda>r k. Ok r (s\<lparr>dr_k := k\<rparr>))"

section \<open>The end of the program\<close>

definition free_block :: "u64 \<Rightarrow> dma_run \<Rightarrow> (unit, dma_run) outcome" where
  "free_block a s =
     (if a = 0 then Ok () s
      else if a \<in># dr_heap s then Ok () (s\<lparr>dr_heap := dr_heap s - {#a#}\<rparr>)
      else Fault DoubleFree)"

text \<open>The label \<open>cleanup\<close>; \<open>main\<close> then ends without a return statement, which returns 0.\<close>

definition dma_cleanup :: "dma_env \<Rightarrow> dma_vars \<Rightarrow> dma_run \<Rightarrow> (nat option, dma_run) outcome" where
  "dma_cleanup e v s =
     obind (free_block (de_lat_buf e (v_buf v)) s) (\<lambda>_ s1.
     obind (free_block (v_sg_list v) s1) (\<lambda>_ s2.
       let s3 = (if v_axidma_base v then s2\<lparr>dr_mapped := dr_mapped s2 - 1\<rparr> else s2);
           s4 = (if v_axidma_fd v then s3\<lparr>dr_uio := snd (axidma_release (dr_uio s3))\<rparr> else s3) in
       obind (if v_fd v then on_k (run_op (PRelease (de_fd e))) s4 else Ok (Inr ()) s4)
         (\<lambda>_ s5. Ok (Some 0) s5)))"

section \<open>The transfer\<close>

text \<open>The entries of a list that the driver filled in; \<open>None\<close> when they are not all there.\<close>

definition read_plist :: "u64 \<Rightarrow> kstate \<Rightarrow> physlist_entry list option" where
  "read_plist p s =
     (case (um_counts (k_umem s) p, um_entries (k_umem s) (p + entries_offset)) of
        (Some n, Some es) \<Rightarrow> if length es < unat n then None else Some (take (unat n) es)
      | _ \<Rightarrow> None)"

definition start_engine :: "u64 \<Rightarrow> physlist_entry list \<Rightarrow> physlist_entry list \<Rightarrow> dma_act list" where
  "start_engine sg sg_plist plist =
     (let curdesc_phys = virt_to_phys sg sg sg_plist;
          taildesc_phys = virt_to_phys (sg + ucast (128 * (of_nat (length plist) - 1 :: u32))) sg sg_plist
      in [RegWrite S2MM_curdesc_lsb (low_word curdesc_phys),
          RegWrite S2MM_curdesc_msb (high_word curdesc_phys),
          RegWrite S2MM_DMACR 0x1001,
          RegWrite S2MM_taildesc_lsb (low_word taildesc_phys),
          RegWrite S2MM_taildesc_msb (high_word taildesc_phys)])"

text \<open>What \<open>unpin_buf\<close> gives its caller when it ends without a return statement.\<close>

definition unpin_value :: "int \<Rightarrow> int option \<Rightarrow> int" where
  "unpin_value junk r = (case r of None \<Rightarrow> junk | Some x \<Rightarrow> x)"

text \<open>The part after the engine was started; it ends at the label \<open>cleanup\<close>.\<close>

definition dma_finish :: "dma_env \<Rightarrow> dma_run \<Rightarrow> (unit, dma_run) outcome" where
  "dma_finish e s =
     obind (on_k (flush_buf_cache (de_pin_sg e) (de_fd e) (de_cmd e) (de_sg_handle e)) s) (\<lambda>_ s1.
     obind (on_k (unpin_buf (de_pin_sg e) (de_fd e) (de_cmd e) (de_sg_handle e)) s1) (\<lambda>r s2.
       if unpin_value (de_junk1 e) r < 0 then Ok () s2
       else
         obind (on_k (unpin_buf (de_pin_sg e) (de_fd e) (de_cmd e) (de_lat_handle e)) (act [Status] s2)) (\<lambda>r s3.
           if unpin_value (de_junk2 e) r < 0 then Ok () s3
           else Ok () (act [ShowBytes (de_lat_size e)] s3))))"

text \<open>
  From the descriptors on, with both buffers pinned. The result says whether the read of the
  interrupt count returned.
\<close>

definition dma_start :: "dma_env \<Rightarrow> u64 \<Rightarrow> dma_run \<Rightarrow> (bool, dma_run) outcome" where
  "dma_start e sg s =
     (case (read_plist (de_sg_plist e) (dr_k s), read_plist (de_buf_plist e) (dr_k s)) of
        (Some sgl, Some bl) \<Rightarrow>
          obind (write_physlist_sg (unat SG_LIST_SIZE) sg sgl bl (dr_sg s)) (\<lambda>_ m.
          obind (on_k (flush_buf_cache (de_pin_sg e) (de_fd e) (de_cmd e) (de_sg_handle e)) (s\<lparr>dr_sg := m\<rparr>)) (\<lambda>_ s1.
            case (read_plist (de_sg_plist e) (dr_k s1), read_plist (de_lat_plist e) (dr_k s1)) of
              (Some sgl', Some ll) \<Rightarrow>
                (let s2 = act (start_engine sg sgl' ll @ [WaitIrq]) s1 in
                 if \<not> de_irq e then Ok False s2
                 else obind (dma_finish e s2) (\<lambda>_ s3. Ok True s3))
            | _ \<Rightarrow> Fault OutOfBounds))
      | _ \<Rightarrow> Fault OutOfBounds)"

text \<open>From the pinning to \<open>cleanup\<close>.\<close>

definition dma_transfer :: "dma_env \<Rightarrow> u64 \<Rightarrow> u64 \<Rightarrow> dma_run \<Rightarrow> (bool, dma_run) outcome" where
  "dma_transfer e sg buf s =
     obind (on_k (pin_buf (de_pin_sg e) (de_fd e) (de_cmd e) sg SG_LIST_SIZE (de_sg_handle e) (de_sg_plist e)) s)
       (\<lambda>r s1. if r < 0 then Ok True s1 else
     obind (on_k (pin_buf (de_pin_buf e) (de_fd e) (de_cmd e) buf DMA_BUF_SIZE (de_buf_handle e) (de_buf_plist e)) s1)
       (\<lambda>r s2. if r < 0 then Ok True s2 else dma_start e sg s2))"

section \<open>The program\<close>

text \<open>The part after the registers are mapped.\<close>

definition dma_mapped :: "dma_env \<Rightarrow> dma_run \<Rightarrow> (nat option, dma_run) outcome" where
  "dma_mapped e s =
     (let v = \<lparr>v_sg_list = 0, v_buf = 0, v_fd = True, v_axidma_fd = True, v_axidma_base = True\<rparr> in
      case de_memalign e of
        None \<Rightarrow> dma_cleanup e v (act [Failed ''allocate memory''] s)
      | Some sg \<Rightarrow>
          (let s1 = s\<lparr>dr_heap := add_mset sg (dr_heap s)\<rparr>;
               buf = de_malloc e;
               s2 = (if buf = 0 then s1 else s1\<lparr>dr_heap := add_mset buf (dr_heap s1)\<rparr>);
               v' = \<lparr>v_sg_list = sg, v_buf = buf, v_fd = True, v_axidma_fd = True, v_axidma_base = True\<rparr> in
           if de_lat_buf e buf = 0 then dma_cleanup e v' (act [Failed ''allocate buffer''] s2)
           else
             obind (dma_transfer e sg buf s2) (\<lambda>fin s3. if fin then dma_cleanup e v' s3 else Ok None s3)))"

text \<open>Opening the path: the UIO core calls the driver's open function for its device.\<close>

definition dma_uio_open :: "dma_env \<Rightarrow> string \<Rightarrow> uio_state \<Rightarrow> rc \<times> uio_state" where
  "dma_uio_open e path u =
     (if de_paths e path \<and> us_registered u \<noteq> 0 then axidma_open u else (Inl (OtherErr 2), u))"

text \<open>The part after the pinner is open.\<close>

definition dma_opened :: "dma_env \<Rightarrow> string \<Rightarrow> dma_run \<Rightarrow> (nat option, dma_run) outcome" where
  "dma_opened e path s =
     (let v = \<lparr>v_sg_list = 0, v_buf = 0, v_fd = True, v_axidma_fd = False, v_axidma_base = False\<rparr> in
      case dma_uio_open e path (dr_uio s) of
        (Inl _, u) \<Rightarrow> dma_cleanup e v (act [Failed ''open uio''] (s\<lparr>dr_uio := u\<rparr>))
      | (Inr _, u) \<Rightarrow>
          if \<not> de_mmap e then dma_cleanup e (v\<lparr>v_axidma_fd := True\<rparr>) (act [Failed ''mmap''] (s\<lparr>dr_uio := u\<rparr>))
          else dma_mapped e (s\<lparr>dr_uio := u, dr_mapped := dr_mapped s + 1\<rparr>))"

text \<open>The result is the exit status, or \<open>None\<close> while the program waits for the interrupt.\<close>

definition dma_main :: "dma_env \<Rightarrow> string list \<Rightarrow> dma_run \<Rightarrow> (nat option, dma_run) outcome" where
  "dma_main e argv s =
     (let v = \<lparr>v_sg_list = 0, v_buf = 0, v_fd = False, v_axidma_fd = False, v_axidma_base = False\<rparr> in
      if length argv \<noteq> 2 then Ok (Some 1) (act [Usage] s)
      else if \<not> k_device (dr_k s) then dma_cleanup e v (act [Failed ''open pinner''] s)
      else
        obind (on_k (pinner_open (de_info e) (de_magic e) (de_fd e)) s) (\<lambda>r s1.
          case r of
            Inl _ \<Rightarrow> dma_cleanup e v (act [Failed ''open pinner''] s1)
          | Inr _ \<Rightarrow> dma_opened e (argv ! 1) s1))"

end
