(* ===== verification/DmaExampleRun.thy ===== *)
theory DmaExampleRun
  imports DmaExample
begin

text \<open>
  The run of user_example.c, with the undeclared names standing for the buffer, its list and
  its handle: what each part of the program does on top of the pinner's interface.
\<close>

section \<open>What the run needs\<close>

definition dma_sg_cmd :: "dma_env \<Rightarrow> u64 \<Rightarrow> pinner_cmd" where
  "dma_sg_cmd e sg = \<lparr>cmd = PINNER_PIN, usr_buf = sg, usr_buf_sz = SG_LIST_SIZE,
     handle_ptr = de_sg_handle e, physlist_ptr = de_sg_plist e\<rparr>"

definition dma_buf_cmd :: "dma_env \<Rightarrow> u64 \<Rightarrow> pinner_cmd" where
  "dma_buf_cmd e buf = \<lparr>cmd = PINNER_PIN, usr_buf = buf, usr_buf_sz = DMA_BUF_SIZE,
     handle_ptr = de_buf_handle e, physlist_ptr = de_buf_plist e\<rparr>"

text \<open>
  Documented behaviour: the allocations of the kernel and of the C library are fresh, the page
  is aligned, both pin commands get all their pages, and dma_map_sg fills the DMA addresses of
  the entries only.
\<close>

definition dma_fits :: "dma_env \<Rightarrow> u64 \<Rightarrow> u64 \<Rightarrow> kstate \<Rightarrow> bool" where
  "dma_fits e sg buf k \<longleftrightarrow> sg AND 4095 = 0 \<and>
     pin_fits (de_pin_sg e) (dma_sg_cmd e sg) k \<and> pin_fits (de_pin_buf e) (dma_buf_cmd e buf) k \<and>
     set (new_addrs (de_pin_sg e)) \<inter> set (new_addrs (de_pin_buf e)) = {} \<and>
     keeps_segments (de_pin_sg e) \<and> keeps_segments (de_pin_buf e)"

text \<open>The structs on the stack are apart, and the undeclared names are those of the buffer.\<close>

definition dma_names :: "dma_env \<Rightarrow> bool" where
  "dma_names e \<longleftrightarrow> de_sg_handle e \<noteq> de_buf_handle e \<and> de_sg_plist e \<noteq> de_buf_plist e \<and>
     de_lat_buf e = id \<and> de_lat_plist e = de_buf_plist e \<and> de_lat_handle e = de_buf_handle e"

text \<open>Both pin commands have all they ask for, in the user memory \<open>m\<close>.\<close>

definition dma_pins_served :: "dma_env \<Rightarrow> u64 \<Rightarrow> user_mem \<Rightarrow> bool" where
  "dma_pins_served e sg m \<longleftrightarrow> served (de_pin_sg e) (dma_sg_cmd e sg) m \<and>
     served (de_pin_buf e) (dma_buf_cmd e (de_malloc e)) m"

section \<open>The lists\<close>

lemma reported_read:
  assumes "reported ev c pgs (k_umem s)" and "keeps_segments ev"
  shows "read_plist (physlist_ptr c) s = Some (map entry_of (mapped_sglist ev c pgs))"
proof -
  have "num_pages_of (usr_buf c) (usr_buf_sz c) = int (length pgs)" using assms(1) by (simp add: reported_def)
  then have len: "length (mapped_sglist ev c pgs) = length pgs" using assms(2) by (simp add: length_mapped_sglist)
  have "unat (of_nat (length pgs) :: u32) = length pgs" using assms(1) by (simp add: reported_def unat_of_nat_u32)
  with assms(1) len show ?thesis by (auto simp: reported_def read_plist_def mapped_sglist_def)
qed

lemma read_plist_cmds:
  "k_umem t = (k_umem s)\<lparr>um_cmds := x\<rparr> \<Longrightarrow> read_plist p t = read_plist p s"
  by (simp add: read_plist_def)

text \<open>The page of descriptors is one entry, at the address the DMA mapping gave it.\<close>

definition sg_page_addr :: "dma_env \<Rightarrow> u64 \<Rightarrow> page list \<Rightarrow> u64" where
  "sg_page_addr e sg pgs = sg_dma_address (mapped_sglist (de_pin_sg e) (dma_sg_cmd e sg) pgs ! 0)"

lemma sg_page_entry:
  assumes "sg AND 4095 = 0" and "keeps_segments (de_pin_sg e)"
  shows "map entry_of (mapped_sglist (de_pin_sg e) (dma_sg_cmd e sg) pgs) =
    [\<lparr>pe_addr = sg_page_addr e sg pgs, pe_len = 4096\<rparr>]"
proof -
  let ?m = "mapped_sglist (de_pin_sg e) (dma_sg_cmd e sg) pgs"
  have "take_bit 12 sg = 0" using assms(1) by (simp add: take_bit_eq_mask mask_eq_exp_minus_1)
  then have "take_bit 12 (unat sg) = 0" by (simp flip: unsigned_take_bit_eq)
  then have off: "unat sg mod 4096 = 0" by (simp add: take_bit_eq_mod)
  have n: "num_pages_of sg SG_LIST_SIZE = 1" by (simp add: num_pages_of_eq off SG_LIST_SIZE_def)
  then have "length ?m = 1" using assms(2) by (simp add: length_mapped_sglist dma_sg_cmd_def)
  then have m: "?m = [?m ! 0]" by (cases ?m) auto
  have "sg_offset (?m ! 0) = 0" "sg_length (?m ! 0) = 4096"
    using mapped_sglist_nth(2,3) [OF assms(2), of 0 "dma_sg_cmd e sg" pgs] n off
    by (simp_all add: dma_sg_cmd_def seg_len_def SG_LIST_SIZE_def)
  then show ?thesis by (subst m) (simp add: entry_of_def sg_page_addr_def)
qed

text \<open>
  The blocks of the buffer: page by page, at the addresses the DMA mapping left in the
  scatterlist, the first one from the buffer's offset.
\<close>

definition buf_blocks :: "scatterlist list \<Rightarrow> u64 \<Rightarrow> u32 \<Rightarrow> (u64 \<times> nat) list" where
  "buf_blocks sgl buf sz =
     map (\<lambda>i. (sg_dma_address (sgl ! i) + (if i = 0 then of_nat (unat buf mod 4096) else 0),
               seg_len (unat buf mod 4096) (unat sz) i))
       [0..<nat (num_pages_of buf sz)]"

lemma entries_blocks:
  assumes "keeps_segments ev"
  shows "map (\<lambda>x. (pe_addr x, unat (pe_len x))) (map entry_of (mapped_sglist ev c pgs)) =
     buf_blocks (mapped_sglist ev c pgs) (usr_buf c) (usr_buf_sz c)"
proof (rule nth_equalityI)
  fix i
  assume "i < length (map (\<lambda>x. (pe_addr x, unat (pe_len x))) (map entry_of (mapped_sglist ev c pgs)))"
  then have i: "i < nat (num_pages_of (usr_buf c) (usr_buf_sz c))"
    using assms by (simp add: length_mapped_sglist)
  have "unat (usr_buf c) mod 4096 < 2 ^ 32" by (rule less_trans [of _ 4096]) simp_all
  with i assms show "map (\<lambda>x. (pe_addr x, unat (pe_len x))) (map entry_of (mapped_sglist ev c pgs)) ! i =
      buf_blocks (mapped_sglist ev c pgs) (usr_buf c) (usr_buf_sz c) ! i"
    by (simp add: buf_blocks_def entry_of_def mapped_sglist_nth length_mapped_sglist unat_seg_len
        ucast_of_nat_32_64)
qed (simp add: assms buf_blocks_def length_mapped_sglist)

lemma dma_buf_pages: "0 < num_pages_of buf DMA_BUF_SIZE \<and> num_pages_of buf DMA_BUF_SIZE \<le> 3"
proof -
  have "unat buf mod 4096 < 4096" by simp
  then have "(9095 + unat buf mod 4096) div 4096 < 4" by (simp add: div_less_iff_less_mult)
  moreover have "0 < (9095 + unat buf mod 4096) div 4096" by (simp add: div_greater_zero_iff)
  moreover have "num_pages_of buf DMA_BUF_SIZE = int ((9095 + unat buf mod 4096) div 4096)"
    by (simp add: num_pages_of_eq DMA_BUF_SIZE_def)
  ultimately show ?thesis by linarith
qed

section \<open>The descriptors and the engine\<close>

lemma descriptors_walk:
  assumes "128 * length plist \<le> bytes" and "bytes < 2 ^ 32" and "plist \<noteq> []"
    and "\<forall>x \<in> set plist. unat (pe_len x) < 2 ^ 26"
  shows "\<exists>m'. write_physlist_sg bytes base [\<lparr>pe_addr = A, pe_len = of_nat bytes\<rparr>] plist m = Ok () m' \<and>
     walk m' A (length plist) A = Some (map (\<lambda>x. (pe_addr x, unat (pe_len x))) plist)"
proof -
  obtain m' where m': "write_sg_loop bytes base [\<lparr>pe_addr = A, pe_len = of_nat bytes\<rparr>] plist (length plist) 0 m = Ok () m'"
    "\<forall>j < length plist. \<exists>d. m' (128 * j) = Some d \<and> desc_ok A plist j d"
    using write_sg_loop_ok [OF assms(1,2), of 0 "length plist" m A base] by auto
  have "walk m' A (length plist) (A + of_nat (128 * 0)) =
      Some (map (\<lambda>x. (pe_addr x, unat (take_bit 26 (pe_len x)))) (drop 0 plist))"
    by (rule walk_from [OF m'(2)]) (use assms(1-3) in auto)
  moreover have "unat (take_bit 26 (pe_len x)) = unat (pe_len x)" if "x \<in> set plist" for x
    using assms(4) that by (simp add: unsigned_take_bit_eq take_bit_nat_eq_self)
  ultimately show ?thesis using m'(1) by (auto simp: write_physlist_sg_def)
qed

text \<open>The stores that make the engine walk from the descriptor at \<open>A\<close> to the one at \<open>T\<close>.\<close>

definition engine_stores :: "u64 \<Rightarrow> u64 \<Rightarrow> dma_act list" where
  "engine_stores A T =
     [RegWrite S2MM_curdesc_lsb (low_word A), RegWrite S2MM_curdesc_msb (high_word A),
      RegWrite S2MM_DMACR 0x1001,
      RegWrite S2MM_taildesc_lsb (low_word T), RegWrite S2MM_taildesc_msb (high_word T)]"

lemma start_engine_stores:
  assumes "0 < length plist" and "length plist \<le> 32"
  shows "start_engine sg [\<lparr>pe_addr = A, pe_len = 4096\<rparr>] plist =
    engine_stores A (A + of_nat (128 * (length plist - 1)))"
proof -
  let ?k = "128 * (length plist - 1)"
  have k: "?k < 4096" using assms(2) by simp
  have "(128 * (of_nat (length plist) - 1) :: u32) = of_nat ?k"
    using assms(1) by (cases "length plist") simp_all
  then have "ucast (128 * (of_nat (length plist) - 1) :: u32) = (of_nat ?k :: u64)"
    using k by (simp add: ucast_of_nat_32_64 del: of_nat_mult)
  moreover have "virt_to_phys (sg + of_nat ?k) sg [\<lparr>pe_addr = A, pe_len = 4096\<rparr>] = A + of_nat ?k"
    by (rule virt_to_phys_block) (use k in simp_all)
  moreover have "virt_to_phys (sg + of_nat 0) sg [\<lparr>pe_addr = A, pe_len = 4096\<rparr>] = A + of_nat 0"
    by (rule virt_to_phys_block) simp_all
  ultimately show ?thesis
    by (simp add: start_engine_def engine_stores_def Let_def del: of_nat_mult)
qed

section \<open>The commands of the program\<close>

definition dma_flush_cmd :: "dma_env \<Rightarrow> pinner_cmd" where
  "dma_flush_cmd e = \<lparr>cmd = PINNER_FLUSH, usr_buf = 0, usr_buf_sz = 0, handle_ptr = de_sg_handle e, physlist_ptr = 0\<rparr>"

definition dma_unpin_cmd :: "u64 \<Rightarrow> pinner_cmd" where
  "dma_unpin_cmd h = \<lparr>cmd = PINNER_UNPIN, usr_buf = 0, usr_buf_sz = 0, handle_ptr = h, physlist_ptr = 0\<rparr>"

text \<open>What the parts of the program keep: the driver's invariant and everything but its own session.\<close>

definition dma_keeps :: "page multiset \<Rightarrow> nat \<Rightarrow> dma_run \<Rightarrow> dma_run \<Rightarrow> bool" where
  "dma_keeps B fd s t \<longleftrightarrow> pinner_inv B (dr_k t) \<and> table_of (dr_k t) fd \<noteq> None \<and>
     (table_of (dr_k t))(fd := None) = (table_of (dr_k s))(fd := None) \<and>
     dr_uio t = dr_uio s \<and> dr_heap t = dr_heap s \<and> dr_mapped t = dr_mapped s"

lemma on_k_Ok: "f (dr_k s) = Ok r k \<Longrightarrow> on_k f s = Ok r (s\<lparr>dr_k := k\<rparr>)"
  by (simp add: on_k_def)

definition both_pinned :: "dma_env \<Rightarrow> page multiset \<Rightarrow> dma_run \<Rightarrow> bool" where
  "both_pinned e B s \<longleftrightarrow> pinner_inv B (dr_k s) \<and>
     (\<exists>u m pgs m' pgs'. table_of (dr_k s) (de_fd e) = Some (u, [(m', pgs'), (m, pgs)]) \<and>
        um_handles (k_umem (dr_k s)) (de_sg_handle e) = Some \<lparr>user_magic = u, pin_magic = m\<rparr> \<and>
        um_handles (k_umem (dr_k s)) (de_buf_handle e) = Some \<lparr>user_magic = u, pin_magic = m'\<rparr>)"

lemma dma_flush_run:
  assumes "both_pinned e B s"
  shows "\<exists>r k. on_k (flush_buf_cache ev (de_fd e) (de_cmd e) (de_sg_handle e)) s = Ok r (s\<lparr>dr_k := k\<rparr>) \<and>
    both_pinned e B (s\<lparr>dr_k := k\<rparr>) \<and> table_of k = table_of (dr_k s) \<and>
    k_umem k = (k_umem (dr_k s))\<lparr>um_cmds := um_cmds (k_umem k)\<rparr>"
proof -
  obtain u m pgs m' pgs' where p: "pinner_inv B (dr_k s)" "table_of (dr_k s) (de_fd e) = Some (u, [(m', pgs'), (m, pgs)])"
    "um_handles (k_umem (dr_k s)) (de_sg_handle e) = Some \<lparr>user_magic = u, pin_magic = m\<rparr>"
    "um_handles (k_umem (dr_k s)) (de_buf_handle e) = Some \<lparr>user_magic = u, pin_magic = m'\<rparr>"
    using assms by (auto simp: both_pinned_def)
  have "\<exists>k. write_cmd ev (de_fd e) (de_cmd e) (dma_flush_cmd e) (dr_k s) = Ok (Inr ()) k \<and> pinner_inv B k \<and>
      table_of k = table_of (dr_k s) \<and> k_umem k = (k_umem (dr_k s))\<lparr>um_cmds := um_cmds (k_umem k)\<rparr>"
    by (rule pinner.flushes [OF p(1,2), where m = m]) (use p(3) in \<open>simp_all add: dma_flush_cmd_def\<close>)
  then obtain k where k: "write_cmd ev (de_fd e) (de_cmd e) (dma_flush_cmd e) (dr_k s) = Ok (Inr ()) k" "pinner_inv B k"
    "table_of k = table_of (dr_k s)" and mem: "k_umem k = (k_umem (dr_k s))\<lparr>um_cmds := um_cmds (k_umem k)\<rparr>" by blast
  have "um_handles (k_umem k) = um_handles (k_umem (dr_k s))" by (subst mem) simp
  with k p have "both_pinned e B (s\<lparr>dr_k := k\<rparr>)" by (simp add: both_pinned_def)
  moreover have "on_k (flush_buf_cache ev (de_fd e) (de_cmd e) (de_sg_handle e)) s = Ok 0 (s\<lparr>dr_k := k\<rparr>)"
    using k(1) by (simp add: on_k_def flush_buf_cache_def dma_flush_cmd_def)
  ultimately show ?thesis using k(3) mem by blast
qed

lemma dma_finish_run:
  assumes names: "dma_names e" and s: "both_pinned e B s"
  shows "\<exists>t rest. dma_finish e s = Ok () t \<and> dma_keeps B (de_fd e) s t \<and> dr_sg t = dr_sg s \<and>
    dr_log t = dr_log s @ rest \<and>
    (0 \<le> de_junk1 e \<and> 0 \<le> de_junk2 e \<longrightarrow> rest = [Status, ShowBytes (de_lat_size e)])"
proof -
  obtain r k where k: "on_k (flush_buf_cache (de_pin_sg e) (de_fd e) (de_cmd e) (de_sg_handle e)) s = Ok r (s\<lparr>dr_k := k\<rparr>)"
    "both_pinned e B (s\<lparr>dr_k := k\<rparr>)" "table_of k = table_of (dr_k s)"
    using dma_flush_run [OF s] by blast
  from k(2) obtain u m pgs m' pgs' where p: "pinner_inv B k" "table_of k (de_fd e) = Some (u, [(m', pgs'), (m, pgs)])"
    "um_handles (k_umem k) (de_sg_handle e) = Some \<lparr>user_magic = u, pin_magic = m\<rparr>"
    "um_handles (k_umem k) (de_buf_handle e) = Some \<lparr>user_magic = u, pin_magic = m'\<rparr>"
    by (auto simp: both_pinned_def)
  have "\<exists>k1 k2. write_cmd (de_pin_sg e) (de_fd e) (de_cmd e) (dma_unpin_cmd (de_sg_handle e)) k = Ok (Inr ()) k1 \<and>
      write_cmd (de_pin_sg e) (de_fd e) (de_cmd e) (dma_unpin_cmd (de_buf_handle e)) k1 = Ok (Inr ()) k2 \<and>
      pinner_inv B k1 \<and> pinner_inv B k2 \<and> table_of k1 (de_fd e) \<noteq> None \<and>
      (table_of k1)(de_fd e := None) = (table_of k)(de_fd e := None) \<and>
      table_of k2 (de_fd e) = Some (u, []) \<and> (table_of k2)(de_fd e := None) = (table_of k)(de_fd e := None)"
    by (rule pinner.two_unpins [OF p(1,2)]) (use p(3,4) in \<open>simp_all add: dma_unpin_cmd_def\<close>)
  then obtain k1 k2 where
    u1: "write_cmd (de_pin_sg e) (de_fd e) (de_cmd e) (dma_unpin_cmd (de_sg_handle e)) k = Ok (Inr ()) k1"
      "pinner_inv B k1" "table_of k1 (de_fd e) \<noteq> None" "(table_of k1)(de_fd e := None) = (table_of k)(de_fd e := None)"
    and u2: "write_cmd (de_pin_sg e) (de_fd e) (de_cmd e) (dma_unpin_cmd (de_buf_handle e)) k1 = Ok (Inr ()) k2"
      "pinner_inv B k2" "table_of k2 (de_fd e) = Some (u, [])" "(table_of k2)(de_fd e := None) = (table_of k)(de_fd e := None)"
    by blast
  have un: "unpin_buf (de_pin_sg e) (de_fd e) (de_cmd e) (de_sg_handle e) k = Ok None k1"
    "unpin_buf (de_pin_sg e) (de_fd e) (de_cmd e) (de_lat_handle e) k1 = Ok None k2"
    using u1(1) u2(1) names by (simp_all add: unpin_buf_def dma_unpin_cmd_def dma_names_def)
  let ?s1 = "s\<lparr>dr_k := k1\<rparr>" and ?s2 = "s\<lparr>dr_k := k2, dr_log := dr_log s @ [Status]\<rparr>"
  have on: "on_k (unpin_buf (de_pin_sg e) (de_fd e) (de_cmd e) (de_sg_handle e)) (s\<lparr>dr_k := k\<rparr>) = Ok None ?s1"
    "on_k (unpin_buf (de_pin_sg e) (de_fd e) (de_cmd e) (de_lat_handle e)) (act [Status] ?s1) = Ok None ?s2"
    using un by (simp_all add: on_k_def act_def)
  have run: "dma_finish e s =
      (if de_junk1 e < 0 then Ok () ?s1 else if de_junk2 e < 0 then Ok () ?s2
       else Ok () (act [ShowBytes (de_lat_size e)] ?s2))"
    by (simp add: dma_finish_def k(1) on unpin_value_def)
  have "dma_keeps B (de_fd e) s ?s1" "dma_keeps B (de_fd e) s ?s2"
    "dma_keeps B (de_fd e) s (act [ShowBytes (de_lat_size e)] ?s2)"
    using u1 u2 k(3) by (simp_all add: dma_keeps_def act_def)
  with run show ?thesis by (cases "de_junk1 e < 0"; cases "de_junk2 e < 0") (simp_all add: act_def)
qed

section \<open>The transfer\<close>

text \<open>
  The engine was started: with a chain of descriptors, in the page of descriptors, that it walks
  from the first to the last block of the buffer, page by page. \<open>log\<close> is what was done before.
\<close>

definition dma_started :: "dma_env \<Rightarrow> u64 \<Rightarrow> u64 \<Rightarrow> dma_act list \<Rightarrow> bool \<Rightarrow> dma_run \<Rightarrow> bool" where
  "dma_started e sg buf log fin t \<longleftrightarrow>
     (\<exists>A pg pgs n rest. ev_gup (de_pin_sg e) = Inr pg \<and> A = sg_page_addr e sg pg \<and>
        ev_gup (de_pin_buf e) = Inr pgs \<and> n = length pgs \<and> 0 < n \<and>
        dr_log t = log @ engine_stores A (A + of_nat (128 * (n - 1))) @ WaitIrq # rest \<and>
        walk (dr_sg t) A n A =
          Some (buf_blocks (mapped_sglist (de_pin_buf e) (dma_buf_cmd e buf) pgs) buf DMA_BUF_SIZE) \<and>
        fin = de_irq e \<and> (\<not> fin \<longrightarrow> rest = []) \<and>
        (fin \<and> 0 \<le> de_junk1 e \<and> 0 \<le> de_junk2 e \<longrightarrow> rest = [Status, ShowBytes (de_lat_size e)]))"

text \<open>The lists that the two pins left, and the descriptors made of them.\<close>

lemma dma_lists:
  assumes sg: "sg AND 4095 = 0"
    and lists: "reported (de_pin_sg e) (dma_sg_cmd e sg) pgs (k_umem (dr_k s))"
      "reported (de_pin_buf e) (dma_buf_cmd e buf) pgs' (k_umem (dr_k s))"
    and dma: "keeps_segments (de_pin_sg e)" "keeps_segments (de_pin_buf e)"
    and A: "A = sg_page_addr e sg pgs"
  obtains l m where "read_plist (de_sg_plist e) (dr_k s) = Some [\<lparr>pe_addr = A, pe_len = 4096\<rparr>]"
    and "read_plist (de_buf_plist e) (dr_k s) = Some l" and "length l = length pgs'" and "0 < length l" and "length l \<le> 3"
    and "write_physlist_sg (unat SG_LIST_SIZE) sg [\<lparr>pe_addr = A, pe_len = 4096\<rparr>] l (dr_sg s) = Ok () m"
    and "walk m A (length l) A = Some (buf_blocks (mapped_sglist (de_pin_buf e) (dma_buf_cmd e buf) pgs') buf DMA_BUF_SIZE)"
proof -
  let ?m = "mapped_sglist (de_pin_buf e) (dma_buf_cmd e buf) pgs'"
  let ?l = "map entry_of ?m"
  have n: "int (length pgs') = num_pages_of buf DMA_BUF_SIZE" using lists(2) by (simp add: reported_def dma_buf_cmd_def)
  then have len: "length ?l = length pgs'" "0 < length ?l" "length ?l \<le> 3"
    using dma_buf_pages [of buf] by (simp_all add: length_mapped_sglist [OF dma(2)] dma_buf_cmd_def flip: n)
  then have ne: "?l \<noteq> []" by (metis length_greater_0_conv)
  have small: "\<forall>x \<in> set ?l. unat (pe_len x) < 2 ^ 26"
  proof
    fix x
    assume "x \<in> set ?l"
    then obtain i where i: "i < length ?m" "x = entry_of (?m ! i)" by (auto simp: in_set_conv_nth)
    then show "unat (pe_len x) < 2 ^ 26"
      using mapped_sglist_nth(3) [OF dma(2), of i "dma_buf_cmd e buf" pgs']
      by (simp add: length_mapped_sglist [OF dma(2)] entry_of_def unat_seg_len le_less_trans [OF seg_len_le])
  qed
  have "\<exists>m'. write_physlist_sg 4096 sg [\<lparr>pe_addr = A, pe_len = of_nat 4096\<rparr>] ?l (dr_sg s) = Ok () m' \<and>
      walk m' A (length ?l) A = Some (map (\<lambda>x. (pe_addr x, unat (pe_len x))) ?l)"
    by (rule descriptors_walk) (use len small ne in simp_all)
  then obtain m where "write_physlist_sg (unat SG_LIST_SIZE) sg [\<lparr>pe_addr = A, pe_len = 4096\<rparr>] ?l (dr_sg s) = Ok () m"
    "walk m A (length ?l) A = Some (buf_blocks (mapped_sglist (de_pin_buf e) (dma_buf_cmd e buf) pgs') buf DMA_BUF_SIZE)"
    by (auto simp: SG_LIST_SIZE_def entries_blocks [OF dma(2)] dma_buf_cmd_def simp del: map_map)
  moreover have "read_plist (de_sg_plist e) (dr_k s) = Some [\<lparr>pe_addr = A, pe_len = 4096\<rparr>]"
    using reported_read [OF lists(1) dma(1)] sg_page_entry [OF sg dma(1)] by (simp add: dma_sg_cmd_def A)
  moreover have "read_plist (de_buf_plist e) (dr_k s) = Some ?l"
    using reported_read [OF lists(2) dma(2)] by (simp add: dma_buf_cmd_def)
  ultimately show thesis using len by (intro that [of ?l m]) simp_all
qed

lemma dma_started_run:
  assumes names: "dma_names e" and s: "both_pinned e B s" and sg: "sg AND 4095 = 0"
    and lists: "reported (de_pin_sg e) (dma_sg_cmd e sg) pgs (k_umem (dr_k s))"
      "reported (de_pin_buf e) (dma_buf_cmd e buf) pgs' (k_umem (dr_k s))"
    and gup: "ev_gup (de_pin_sg e) = Inr pgs" "ev_gup (de_pin_buf e) = Inr pgs'"
    and dma: "keeps_segments (de_pin_sg e)" "keeps_segments (de_pin_buf e)"
  shows "\<exists>fin t. dma_start e sg s = Ok fin t \<and> dma_started e sg buf (dr_log s) fin t \<and> dma_keeps B (de_fd e) s t"
proof -
  let ?A = "sg_page_addr e sg pgs"
  let ?sgl = "[\<lparr>pe_addr = ?A, pe_len = 4096\<rparr>]"
  obtain l m where r: "read_plist (de_sg_plist e) (dr_k s) = Some ?sgl" "read_plist (de_buf_plist e) (dr_k s) = Some l"
    and len: "length l = length pgs'" "0 < length l" "length l \<le> 3"
    and m: "write_physlist_sg (unat SG_LIST_SIZE) sg ?sgl l (dr_sg s) = Ok () m"
      "walk m ?A (length l) ?A = Some (buf_blocks (mapped_sglist (de_pin_buf e) (dma_buf_cmd e buf) pgs') buf DMA_BUF_SIZE)"
    by (rule dma_lists [OF sg lists dma refl])
  have "both_pinned e B (s\<lparr>dr_sg := m\<rparr>)" using s by (simp add: both_pinned_def)
  from dma_flush_run [OF this, of "de_pin_sg e"] obtain r k where
    k: "on_k (flush_buf_cache (de_pin_sg e) (de_fd e) (de_cmd e) (de_sg_handle e)) (s\<lparr>dr_sg := m\<rparr>) =
        Ok r (s\<lparr>dr_sg := m, dr_k := k\<rparr>)" "both_pinned e B (s\<lparr>dr_sg := m, dr_k := k\<rparr>)"
      "table_of k = table_of (dr_k s)" "k_umem k = (k_umem (dr_k s))\<lparr>um_cmds := um_cmds (k_umem k)\<rparr>" by auto
  have rk: "read_plist (de_sg_plist e) k = Some ?sgl" "read_plist (de_lat_plist e) k = Some l"
    using r names by (simp_all add: read_plist_cmds [OF k(4)] dma_names_def)
  let ?s4 = "act (start_engine sg ?sgl l @ [WaitIrq]) (s\<lparr>dr_sg := m, dr_k := k\<rparr>)"
  have stores: "start_engine sg ?sgl l = engine_stores ?A (?A + of_nat (128 * (length l - 1)))"
    by (rule start_engine_stores [of l sg ?A]) (use len(2,3) in linarith)+
  have s4: "both_pinned e B ?s4" "table_of (dr_k ?s4) = table_of (dr_k s)" using k(2,3) by (simp_all add: act_def both_pinned_def)
  show ?thesis
  proof (cases "de_irq e")
    case False
    have "dma_started e sg buf (dr_log s) False ?s4"
      unfolding dma_started_def using False gup len m(2) stores
      by (intro exI [of _ ?A] exI [of _ pgs] exI [of _ pgs'] exI [of _ "length l"] exI [of _ "[]"]) (simp add: act_def)
    moreover have "dma_keeps B (de_fd e) s ?s4"
      using s4 by (auto simp: dma_keeps_def both_pinned_def act_def)
    ultimately show ?thesis using False r m(1) k(1) rk
      by (intro exI [of _ False] exI [of _ ?s4]) (simp add: dma_start_def)
  next
    case True
    from dma_finish_run [OF names s4(1)] obtain t rest where
      t: "dma_finish e ?s4 = Ok () t" "dma_keeps B (de_fd e) ?s4 t" "dr_sg t = m"
        "dr_log t = dr_log ?s4 @ rest"
        "0 \<le> de_junk1 e \<and> 0 \<le> de_junk2 e \<longrightarrow> rest = [Status, ShowBytes (de_lat_size e)]"
      by (auto simp: act_def)
    have "dma_started e sg buf (dr_log s) True t"
      unfolding dma_started_def using True gup len m(2) stores t
      by (intro exI [of _ ?A] exI [of _ pgs] exI [of _ pgs'] exI [of _ "length l"] exI [of _ rest]) (simp add: act_def)
    moreover have "dma_keeps B (de_fd e) s t"
      using t(2) s4(2) by (simp add: dma_keeps_def act_def)
    ultimately show ?thesis using True r m(1) k(1) rk t(1)
      by (intro exI [of _ True] exI [of _ t]) (simp add: dma_start_def)
  qed
qed

text \<open>The two pin commands and what follows.\<close>

lemma dma_pin_run:
  assumes "pinner_inv B (dr_k s)" and "table_of (dr_k s) (de_fd e) = Some se" and "pin_fits ev c (dr_k s)"
    and "c = \<lparr>cmd = PINNER_PIN, usr_buf = buf, usr_buf_sz = sz, handle_ptr = h, physlist_ptr = p\<rparr>"
  obtains r k where "on_k (pin_buf ev (de_fd e) (de_cmd e) buf sz h p) s = Ok r (s\<lparr>dr_k := k\<rparr>)"
    and "dma_keeps B (de_fd e) s (s\<lparr>dr_k := k\<rparr>)"
    and "r < 0 \<or> write_cmd ev (de_fd e) (de_cmd e) c (dr_k s) = Ok (Inr ()) k"
    and "umem_frame c (k_umem (dr_k s)) (k_umem k)" and "served ev c (k_umem (dr_k s)) \<longrightarrow> \<not> r < 0"
proof -
  from pinner.command [OF assms(1,2), of c ev] assms(3) obtain r k where
    k: "write_cmd ev (de_fd e) (de_cmd e) c (dr_k s) = Ok r k" "pinner_inv B k"
      "umem_frame c (k_umem (dr_k s)) (k_umem k)" "table_of k (de_fd e) \<noteq> None"
      "(table_of k)(de_fd e := None) = (table_of (dr_k s))(de_fd e := None)" by blast
  show thesis
  proof (rule that)
    show "on_k (pin_buf ev (de_fd e) (de_cmd e) buf sz h p) s =
        Ok (case r of Inl x \<Rightarrow> - 1 | Inr u \<Rightarrow> 0) (s\<lparr>dr_k := k\<rparr>)"
      using k(1) by (simp add: on_k_def pin_buf_def assms(4))
    show "dma_keeps B (de_fd e) s (s\<lparr>dr_k := k\<rparr>)" using k by (simp add: dma_keeps_def)
    show "(case r of Inl x \<Rightarrow> - 1 | Inr u \<Rightarrow> (0 :: int)) < 0 \<or>
        write_cmd ev (de_fd e) (de_cmd e) c (dr_k s) = Ok (Inr ()) k"
      using k(1) by (cases r) simp_all
    show "served ev c (k_umem (dr_k s)) \<longrightarrow> \<not> (case r of Inl x \<Rightarrow> - 1 | Inr u \<Rightarrow> (0 :: int)) < 0"
      using pinner.accepted [OF assms(1,2) _ assms(3) k(1)] assms(4) by auto
  qed (rule k(3))
qed

lemma served_frame:
  assumes "umem_frame c m m'" and "served ev' c' m" and "handle_ptr c' \<noteq> handle_ptr c" and "physlist_ptr c' \<noteq> physlist_ptr c"
  shows "served ev' c' m'"
  using assms by (auto simp: served_def umem_frame_def list_accepted_def dom_def)

lemma dma_keeps_trans: "dma_keeps B fd s t \<Longrightarrow> dma_keeps B fd t u \<Longrightarrow> dma_keeps B fd s u"
  by (simp add: dma_keeps_def)

text \<open>When both pins succeed the engine is started.\<close>

lemma dma_pinned_starts:
  assumes names: "dma_names e" and fits: "dma_fits e sg buf (dr_k s)"
    and s: "pinner_inv B (dr_k s)" "table_of (dr_k s) (de_fd e) = Some (u, [])"
    and run: "write_cmd (de_pin_sg e) (de_fd e) (de_cmd e) (dma_sg_cmd e sg) (dr_k s) = Ok (Inr ()) k1"
      "write_cmd (de_pin_buf e) (de_fd e) (de_cmd e) (dma_buf_cmd e buf) k1 = Ok (Inr ()) k2"
  shows "\<exists>fin t. dma_start e sg (s\<lparr>dr_k := k2\<rparr>) = Ok fin t \<and> dma_started e sg buf (dr_log s) fin t \<and>
    dma_keeps B (de_fd e) (s\<lparr>dr_k := k2\<rparr>) t"
proof -
  note fit = fits [unfolded dma_fits_def]
  have c: "cmd (dma_sg_cmd e sg) = PINNER_PIN" "cmd (dma_buf_cmd e buf) = PINNER_PIN"
    and h: "handle_ptr (dma_sg_cmd e sg) = de_sg_handle e" "handle_ptr (dma_buf_cmd e buf) = de_buf_handle e"
    and apart: "de_sg_handle e \<noteq> de_buf_handle e"
      "physlist_ptr (dma_sg_cmd e sg) \<noteq> physlist_ptr (dma_buf_cmd e buf)"
    using names by (simp_all add: dma_sg_cmd_def dma_buf_cmd_def dma_names_def)
  from pinner.two_pins [OF s c _ _ _ _ apart(2) run, unfolded h] fit apart(1) obtain pgs pgs' where
    pp: "ev_gup (de_pin_sg e) = Inr pgs" "ev_gup (de_pin_buf e) = Inr pgs'" "pinner_inv B k2"
    "table_of k2 (de_fd e) = Some (u, [(ev_magic (de_pin_buf e), pgs'), (ev_magic (de_pin_sg e), pgs)])"
    "reported (de_pin_sg e) (dma_sg_cmd e sg) pgs (k_umem k2)"
    "reported (de_pin_buf e) (dma_buf_cmd e buf) pgs' (k_umem k2)"
    "um_handles (k_umem k2) (de_sg_handle e) = Some \<lparr>user_magic = u, pin_magic = ev_magic (de_pin_sg e)\<rparr>"
    "um_handles (k_umem k2) (de_buf_handle e) = Some \<lparr>user_magic = u, pin_magic = ev_magic (de_pin_buf e)\<rparr>"
    by blast
  then have "both_pinned e B (s\<lparr>dr_k := k2\<rparr>)" by (simp add: both_pinned_def)
  from dma_started_run [OF names this, of sg pgs buf pgs'] pp fit show ?thesis by simp
qed

lemma dma_transfer_run:
  assumes names: "dma_names e" and fits: "dma_fits e sg buf (dr_k s)"
    and s: "pinner_inv B (dr_k s)" "table_of (dr_k s) (de_fd e) = Some (u, [])"
  shows "\<exists>fin t. dma_transfer e sg buf s = Ok fin t \<and> dma_keeps B (de_fd e) s t \<and>
    ((fin \<and> dr_log t = dr_log s) \<or> dma_started e sg buf (dr_log s) fin t) \<and>
    (served (de_pin_sg e) (dma_sg_cmd e sg) (k_umem (dr_k s)) \<and> served (de_pin_buf e) (dma_buf_cmd e buf) (k_umem (dr_k s)) \<longrightarrow>
      dma_started e sg buf (dr_log s) fin t)"
proof -
  note fit = fits [unfolded dma_fits_def]
  obtain r1 k1 where p1: "on_k (pin_buf (de_pin_sg e) (de_fd e) (de_cmd e) sg SG_LIST_SIZE (de_sg_handle e) (de_sg_plist e)) s =
      Ok r1 (s\<lparr>dr_k := k1\<rparr>)" "dma_keeps B (de_fd e) s (s\<lparr>dr_k := k1\<rparr>)"
    "r1 < 0 \<or> write_cmd (de_pin_sg e) (de_fd e) (de_cmd e) (dma_sg_cmd e sg) (dr_k s) = Ok (Inr ()) k1"
    "umem_frame (dma_sg_cmd e sg) (k_umem (dr_k s)) (k_umem k1)"
    "served (de_pin_sg e) (dma_sg_cmd e sg) (k_umem (dr_k s)) \<longrightarrow> \<not> r1 < 0"
    by (rule dma_pin_run [OF s, of "de_pin_sg e" "dma_sg_cmd e sg"]) (use fit in \<open>simp_all add: dma_sg_cmd_def\<close>)
  show ?thesis
  proof (cases "r1 < 0")
    case True
    with p1 show ?thesis by (intro exI [of _ True] exI [of _ "s\<lparr>dr_k := k1\<rparr>"]) (simp add: dma_transfer_def)
  next
    case False
    then have w1: "write_cmd (de_pin_sg e) (de_fd e) (de_cmd e) (dma_sg_cmd e sg) (dr_k s) = Ok (Inr ()) k1"
      using p1(3) by simp
    let ?s1 = "s\<lparr>dr_k := k1\<rparr>"
    obtain se where s1: "pinner_inv B (dr_k ?s1)" "table_of (dr_k ?s1) (de_fd e) = Some se"
      using p1(2) by (auto simp: dma_keeps_def)
    have fits1: "pin_fits (de_pin_buf e) (dma_buf_cmd e buf) (dr_k ?s1)"
      using pinner.fits_kept [OF s _ _ _ _ w1, of "de_pin_buf e" "dma_buf_cmd e buf"] fit
      by (simp add: dma_sg_cmd_def)
    obtain r2 k2 where p2: "on_k (pin_buf (de_pin_buf e) (de_fd e) (de_cmd e) buf DMA_BUF_SIZE (de_buf_handle e) (de_buf_plist e)) ?s1 =
        Ok r2 (?s1\<lparr>dr_k := k2\<rparr>)" "dma_keeps B (de_fd e) ?s1 (?s1\<lparr>dr_k := k2\<rparr>)"
      "r2 < 0 \<or> write_cmd (de_pin_buf e) (de_fd e) (de_cmd e) (dma_buf_cmd e buf) (dr_k ?s1) = Ok (Inr ()) k2"
      "served (de_pin_buf e) (dma_buf_cmd e buf) (k_umem (dr_k ?s1)) \<longrightarrow> \<not> r2 < 0"
      by (rule dma_pin_run [OF s1 fits1]) (simp_all add: dma_buf_cmd_def)
    have srv: "served (de_pin_buf e) (dma_buf_cmd e buf) (k_umem (dr_k s)) \<longrightarrow> \<not> r2 < 0"
      using p2(4) served_frame [OF p1(4), of "de_pin_buf e" "dma_buf_cmd e buf"] names
      by (auto simp: dma_sg_cmd_def dma_buf_cmd_def dma_names_def)
    let ?s2 = "s\<lparr>dr_k := k2\<rparr>"
    have keeps: "dma_keeps B (de_fd e) s ?s2" using dma_keeps_trans [OF p1(2) p2(2)] by simp
    show ?thesis
    proof (cases "r2 < 0")
      case True
      with p1(1) p2(1) False keeps srv show ?thesis
        by (intro exI [of _ True] exI [of _ ?s2]) (simp add: dma_transfer_def)
    next
      case r2: False
      then have w2: "write_cmd (de_pin_buf e) (de_fd e) (de_cmd e) (dma_buf_cmd e buf) k1 = Ok (Inr ()) k2"
        using p2(3) by simp
      from dma_pinned_starts [OF names fits s w1 this] obtain fin t where
        t: "dma_start e sg ?s2 = Ok fin t" "dma_started e sg buf (dr_log s) fin t" "dma_keeps B (de_fd e) ?s2 t" by blast
      have "dma_transfer e sg buf s = Ok fin t"
        using p1(1) p2(1) False r2 t(1) by (simp add: dma_transfer_def)
      then show ?thesis using t(2) dma_keeps_trans [OF keeps t(3)] by auto
    qed
  qed
qed

section \<open>Cleaning up\<close>

definition block_of :: "u64 \<Rightarrow> u64 multiset" where
  "block_of a = (if a = 0 then {#} else {#a#})"

lemma free_block_run: "dr_heap s = block_of a + H \<Longrightarrow> free_block a s = Ok () (s\<lparr>dr_heap := H\<rparr>)"
  by (cases s) (auto simp: block_of_def free_block_def)

lemma dma_cleanup_run:
  assumes names: "dma_names e" and heap: "dr_heap s = block_of (v_buf v) + (block_of (v_sg_list v) + H)"
    and fd: "v_fd v \<Longrightarrow> pinner_inv B (dr_k s) \<and> table_of (dr_k s) (de_fd e) \<noteq> None"
  shows "\<exists>t. dma_cleanup e v s = Ok (Some 0) t \<and> dr_heap t = H \<and> dr_log t = dr_log s \<and> dr_sg t = dr_sg s \<and>
    dr_mapped t = dr_mapped s - of_bool (v_axidma_base v) \<and>
    dr_uio t = (if v_axidma_fd v then (dr_uio s)\<lparr>us_in_use := False\<rparr> else dr_uio s) \<and>
    (if v_fd v then pinner_inv B (dr_k t) \<and> table_of (dr_k t) = (table_of (dr_k s))(de_fd e := None)
     else dr_k t = dr_k s)"
proof -
  let ?s3 = "s\<lparr>dr_heap := H, dr_mapped := dr_mapped s - of_bool (v_axidma_base v),
      dr_uio := (if v_axidma_fd v then (dr_uio s)\<lparr>us_in_use := False\<rparr> else dr_uio s)\<rparr>"
  have "de_lat_buf e (v_buf v) = v_buf v" using names by (simp add: dma_names_def)
  then have run: "dma_cleanup e v s =
      obind (if v_fd v then on_k (run_op (PRelease (de_fd e))) ?s3 else Ok (Inr ()) ?s3) (\<lambda>_ t. Ok (Some 0) t)"
    using free_block_run [OF heap] free_block_run [of "s\<lparr>dr_heap := block_of (v_sg_list v) + H\<rparr>" "v_sg_list v" H]
    by (cases s) (simp add: dma_cleanup_def axidma_release_def Let_def del: run_op.simps)
  show ?thesis
  proof (cases "v_fd v")
    case True
    from close_session [of B "dr_k s" "de_fd e"] fd [OF True] obtain k where
      "run_op (PRelease (de_fd e)) (dr_k s) = Ok (Inr ()) k" "pinner_inv B k"
      "table_of k = (table_of (dr_k s))(de_fd e := None)" by blast
    then show ?thesis using True by (simp add: run on_k_def del: run_op.simps)
  qed (simp add: run)
qed

section \<open>The whole run\<close>

text \<open>Nothing is refused: the devices are there and free, and there is memory for all of it.\<close>

definition dma_served :: "dma_env \<Rightarrow> string \<Rightarrow> dma_run \<Rightarrow> bool" where
  "dma_served e path s \<longleftrightarrow> de_paths e path \<and> us_registered (dr_uio s) \<noteq> 0 \<and> \<not> us_in_use (dr_uio s) \<and>
     de_mmap e \<and> de_malloc e \<noteq> 0 \<and>
     (\<exists>sg. de_memalign e = Some sg \<and> dma_pins_served e sg (k_umem (dr_k s)))"

definition dma_env_ok :: "dma_env \<Rightarrow> dma_run \<Rightarrow> bool" where
  "dma_env_ok e s \<longleftrightarrow>
     (\<forall>x. de_info e = Some x \<longrightarrow> x \<notin># k_live (dr_k s) \<and>
        x \<notin> set (new_addrs (de_pin_sg e)) \<and> x \<notin> set (new_addrs (de_pin_buf e))) \<and>
     (\<forall>sg. de_memalign e = Some sg \<longrightarrow> sg \<noteq> 0 \<and> dma_fits e sg (de_malloc e) (dr_k s))"

text \<open>Everything is as it was, but for the log, the descriptors and the user memory.\<close>

definition dma_restored :: "dma_run \<Rightarrow> dma_run \<Rightarrow> bool" where
  "dma_restored s t \<longleftrightarrow> table_of (dr_k t) = table_of (dr_k s) \<and> k_refs (dr_k t) = k_refs (dr_k s) \<and>
     dr_uio t = dr_uio s \<and> dr_heap t = dr_heap s \<and> dr_mapped t = dr_mapped s"

text \<open>A run that ends before the engine is started has said why, or nothing when a pin was refused.\<close>

definition dma_refused :: "dma_run \<Rightarrow> dma_run \<Rightarrow> bool" where
  "dma_refused s t \<longleftrightarrow> (\<exists>xs. dr_log t = dr_log s @ xs \<and> set xs \<subseteq> {Usage} \<union> range Failed)"

lemma dma_fits_open:
  assumes "dma_fits e sg buf k" and "k_umem t = k_umem k" and "k_live t = add_mset x (k_live k)"
    and "x \<notin> set (new_addrs (de_pin_sg e))" and "x \<notin> set (new_addrs (de_pin_buf e))"
  shows "dma_fits e sg buf t"
  using assms by (auto simp: dma_fits_def pin_fits_def env_ok_def)

lemma dma_mapped_run:
  assumes names: "dma_names e" and s: "pinner_inv B (dr_k s)" "table_of (dr_k s) (de_fd e) = Some (u, [])"
    and fits: "\<forall>sg. de_memalign e = Some sg \<longrightarrow> sg \<noteq> 0 \<and> dma_fits e sg (de_malloc e) (dr_k s)"
  shows "\<exists>ret t. dma_mapped e s = Ok ret t \<and>
    (ret \<noteq> None \<longrightarrow> pinner_inv B (dr_k t) \<and> table_of (dr_k t) = (table_of (dr_k s))(de_fd e := None) \<and>
       dr_heap t = dr_heap s \<and> dr_mapped t = dr_mapped s - 1 \<and> dr_uio t = (dr_uio s)\<lparr>us_in_use := False\<rparr>) \<and>
    ((ret \<noteq> None \<and> dma_refused s t) \<or> dma_started e (the (de_memalign e)) (de_malloc e) (dr_log s) (ret \<noteq> None) t) \<and>
    (\<forall>sg. de_memalign e = Some sg \<and> de_malloc e \<noteq> 0 \<and> dma_pins_served e sg (k_umem (dr_k s)) \<longrightarrow>
       dma_started e (the (de_memalign e)) (de_malloc e) (dr_log s) (ret \<noteq> None) t)"
proof (cases "de_memalign e")
  case None
  from dma_cleanup_run [OF names, of "act [Failed ''allocate memory''] s"
      "\<lparr>v_sg_list = 0, v_buf = 0, v_fd = True, v_axidma_fd = True, v_axidma_base = True\<rparr>" "dr_heap s" B] s
  show ?thesis
    by (auto simp: dma_mapped_def None block_of_def act_def dma_refused_def Let_def)
next
  case (Some sg)
  let ?buf = "de_malloc e"
  let ?v = "\<lparr>v_sg_list = sg, v_buf = ?buf, v_fd = True, v_axidma_fd = True, v_axidma_base = True\<rparr>"
  let ?s2 = "s\<lparr>dr_heap := block_of ?buf + (block_of sg + dr_heap s)\<rparr>"
  have sg: "sg \<noteq> 0" "dma_fits e sg ?buf (dr_k s)" using fits Some by simp_all
  have run: "dma_mapped e s =
      (if ?buf = 0 then dma_cleanup e ?v (act [Failed ''allocate buffer''] ?s2)
       else obind (dma_transfer e sg ?buf ?s2) (\<lambda>fin s3. if fin then dma_cleanup e ?v s3 else Ok None s3))"
    using sg(1) names
    by (simp add: dma_mapped_def Some Let_def dma_names_def block_of_def add_mset_commute)
  show ?thesis
  proof (cases "?buf = 0")
    case True
    from dma_cleanup_run [OF names, of "act [Failed ''allocate buffer''] ?s2" ?v "dr_heap s" B] s True
    show ?thesis by (auto simp: run act_def dma_refused_def)
  next
    case False
    from dma_transfer_run [OF names, of sg ?buf ?s2 B u] sg(2) s obtain fin t where
      t: "dma_transfer e sg ?buf ?s2 = Ok fin t" "dma_keeps B (de_fd e) ?s2 t"
        "(fin \<and> dr_log t = dr_log s) \<or> dma_started e sg ?buf (dr_log s) fin t"
        "dma_pins_served e sg (k_umem (dr_k s)) \<longrightarrow> dma_started e sg ?buf (dr_log s) fin t"
      by (auto simp: dma_pins_served_def)
    show ?thesis
    proof (cases fin)
      case False
      with t \<open>?buf \<noteq> 0\<close> Some show ?thesis by (auto simp: run)
    next
      case True
      from dma_cleanup_run [OF names, of t ?v "dr_heap s" B] t(2) obtain u where
        u: "dma_cleanup e ?v t = Ok (Some 0) u" "dr_heap u = dr_heap s" "dr_log u = dr_log t" "dr_sg u = dr_sg t"
          "dr_mapped u = dr_mapped t - 1" "dr_uio u = (dr_uio t)\<lparr>us_in_use := False\<rparr>" "pinner_inv B (dr_k u)"
          "table_of (dr_k u) = (table_of (dr_k t))(de_fd e := None)"
        by (auto simp: dma_keeps_def)
      have "dma_mapped e s = Ok (Some 0) u" using \<open>?buf \<noteq> 0\<close> t(1) True u(1) by (simp add: run)
      moreover have started: "dma_started e sg ?buf (dr_log s) True u" if "dma_started e sg ?buf (dr_log s) fin t"
        using that True u(3,4) by (auto simp: dma_started_def)
      moreover have "dma_refused s u \<or> dma_started e sg ?buf (dr_log s) True u"
        using t(3) started u(3) by (auto simp: dma_refused_def)
      ultimately show ?thesis using t(2,4) u(2,5-8) Some by (auto simp: dma_keeps_def)
    qed
  qed
qed

lemma dma_cleanup_closed:
  assumes names: "dma_names e" and s: "pinner_inv B (dr_k s)" and fd: "table_of (dr_k s) (de_fd e) \<noteq> None"
    and k: "(table_of (dr_k s))(de_fd e := None) = table_of (dr_k s0)" and inv: "pinner_inv B (dr_k s0)"
    and same: "dr_heap s = dr_heap s0" "dr_mapped s = dr_mapped s0" "dr_log s = dr_log s0 @ [Failed x]"
    and uio: "(if v_axidma_fd v then (dr_uio s)\<lparr>us_in_use := False\<rparr> else dr_uio s) = dr_uio s0"
    and v: "v_sg_list v = 0" "v_buf v = 0" "v_fd v" "\<not> v_axidma_base v"
  shows "\<exists>t. dma_cleanup e v s = Ok (Some 0) t \<and> dma_restored s0 t \<and> dma_refused s0 t"
proof -
  from dma_cleanup_run [OF names, of s v "dr_heap s" B] s fd v obtain t where
    t: "dma_cleanup e v s = Ok (Some 0) t" "dr_heap t = dr_heap s" "dr_log t = dr_log s"
      "dr_mapped t = dr_mapped s" "dr_uio t = dr_uio s0" "pinner_inv B (dr_k t)"
      "table_of (dr_k t) = table_of (dr_k s0)"
    using k uio by (auto simp: block_of_def)
  then have "dma_restored s0 t"
    using same same_table_refs [OF inv t(6,7)] by (simp add: dma_restored_def)
  with t(1,3) same(3) show ?thesis by (auto simp: dma_refused_def)
qed

lemma dma_opened_run:
  assumes names: "dma_names e" and k: "pinner_inv B k" "table_of k (de_fd e) = Some (u, [])"
    and fits: "\<forall>sg. de_memalign e = Some sg \<longrightarrow> sg \<noteq> 0 \<and> dma_fits e sg (de_malloc e) k"
    and inv: "pinner_inv B (dr_k s)" and restored: "(table_of k)(de_fd e := None) = table_of (dr_k s)"
    and mem: "k_umem k = k_umem (dr_k s)"
  shows "\<exists>ret t. dma_opened e path (s\<lparr>dr_k := k\<rparr>) = Ok ret t \<and> (ret \<noteq> None \<longrightarrow> dma_restored s t) \<and>
    ((ret \<noteq> None \<and> dma_refused s t) \<or> dma_started e (the (de_memalign e)) (de_malloc e) (dr_log s) (ret \<noteq> None) t) \<and>
    (dma_served e path s \<longrightarrow> dma_started e (the (de_memalign e)) (de_malloc e) (dr_log s) (ret \<noteq> None) t)"
proof -
  let ?open = "dma_uio_open e path (dr_uio s)"
  let ?v = "\<lambda>b. \<lparr>v_sg_list = 0, v_buf = 0, v_fd = True, v_axidma_fd = b, v_axidma_base = False\<rparr>"
  have "?open = (Inl (OtherErr 2), dr_uio s) \<or> ?open = (Inl EBUSY, dr_uio s) \<or>
      (?open = (Inr (), (dr_uio s)\<lparr>us_in_use := True\<rparr>) \<and> \<not> us_in_use (dr_uio s))"
    by (simp add: dma_uio_open_def axidma_open_def)
  then consider er where "?open = (Inl er, dr_uio s)"
    | "?open = (Inr (), (dr_uio s)\<lparr>us_in_use := True\<rparr>)" "\<not> us_in_use (dr_uio s)" by blast
  then show ?thesis
  proof cases
    case 1
    have "\<exists>t. dma_cleanup e (?v False) (act [Failed ''open uio''] (s\<lparr>dr_k := k\<rparr>)) = Ok (Some 0) t \<and>
        dma_restored s t \<and> dma_refused s t"
      by (rule dma_cleanup_closed [OF names, where B = B]) (use k restored inv in \<open>simp_all add: act_def\<close>)
    moreover have "\<not> dma_served e path s"
      using 1 by (auto simp: dma_served_def dma_uio_open_def axidma_open_def)
    ultimately show ?thesis using 1 by (auto simp: dma_opened_def Let_def)
  next
    case 2
    let ?s2 = "s\<lparr>dr_k := k, dr_uio := (dr_uio s)\<lparr>us_in_use := True\<rparr>\<rparr>"
    have uio: "(dr_uio s)\<lparr>us_in_use := False\<rparr> = dr_uio s" using 2(2) by simp
    have run: "dma_opened e path (s\<lparr>dr_k := k\<rparr>) =
        (if \<not> de_mmap e then dma_cleanup e (?v True) (act [Failed ''mmap''] ?s2)
         else dma_mapped e (?s2\<lparr>dr_mapped := dr_mapped s + 1\<rparr>))"
      using 2(1) by (simp add: dma_opened_def Let_def)
    show ?thesis
    proof (cases "de_mmap e")
      case False
      have "\<exists>t. dma_cleanup e (?v True) (act [Failed ''mmap''] ?s2) = Ok (Some 0) t \<and> dma_restored s t \<and> dma_refused s t"
        by (rule dma_cleanup_closed [OF names, where B = B]) (use k restored inv uio in \<open>simp_all add: act_def\<close>)
      with False run show ?thesis by (auto simp: dma_served_def)
    next
      case True
      let ?s3 = "?s2\<lparr>dr_mapped := dr_mapped s + 1\<rparr>"
      from dma_mapped_run [OF names, of B ?s3 u] k fits obtain ret t where
        t: "dma_mapped e ?s3 = Ok ret t"
          "ret \<noteq> None \<longrightarrow> pinner_inv B (dr_k t) \<and> table_of (dr_k t) = (table_of k)(de_fd e := None) \<and>
             dr_heap t = dr_heap s \<and> dr_mapped t = dr_mapped s \<and> dr_uio t = (dr_uio s)\<lparr>us_in_use := False\<rparr>"
          "(ret \<noteq> None \<and> dma_refused ?s3 t) \<or> dma_started e (the (de_memalign e)) (de_malloc e) (dr_log s) (ret \<noteq> None) t"
          "dma_served e path s \<longrightarrow> dma_started e (the (de_memalign e)) (de_malloc e) (dr_log s) (ret \<noteq> None) t"
        by (cases "de_memalign e") (auto simp: dma_served_def mem)
      have "ret \<noteq> None \<longrightarrow> dma_restored s t"
        using t(2) restored uio same_table_refs [OF inv] by (auto simp: dma_restored_def)
      with t(1,3,4) True run show ?thesis by (auto simp: dma_refused_def)
    qed
  qed
qed

end
