(* ===== verification/ExampleClaims.thy ===== *)
theory ExampleClaims
  imports DmaExampleRun PinnerDemo
begin

text \<open>The property of user_example.c, a run of it on the loaded driver, and what the interrupt
  handler of the engine's driver makes of the registers as the example leaves them.\<close>



definition demo_dma :: dma_run where
  "demo_dma = \<lparr>dr_k = demo_loaded\<lparr>k_umem := demo_umem\<lparr>
       um_handles := [0x100 \<mapsto> \<lparr>user_magic = 0, pin_magic = 0\<rparr>, 0x300 \<mapsto> \<lparr>user_magic = 0, pin_magic = 0\<rparr>],
       um_counts := [0x200 \<mapsto> 0, 0x400 \<mapsto> 0], um_entries := [0x208 \<mapsto> [], 0x408 \<mapsto> []]\<rparr>\<rparr>,
     dr_uio = \<lparr>us_virt = Some 0x80, us_in_use = False, us_enable = 1, us_phys_base = 0xA0000000,
       us_irq_line = 89, us_irq = 44, us_mem_addr = 0xA0000000, us_registered = 1, us_device = True,
       us_kobject = True, us_files = 2\<rparr>,
     dr_sg = Map.empty, dr_mapped = 0, dr_heap = {#}, dr_log = []\<rparr>"





text \<open>
  C40. For registers whose reading changes nothing. The handler of the engine's driver reads the
  words that the example program names the control registers of the two channels (at the offsets
  0 and 0x30). It claims an interrupt exactly when bit 12, 13 or 14 is set in one of them; then it
  writes all ones to both, otherwise nothing, and while the device is disabled it touches nothing.
  Its comment says
  that the flags are bits 12, 11 and 10 of the status registers: an interrupt that bits 11 and 10
  of both words show is not claimed, and the words are not the ones that the example names status
  registers. As the example leaves the control register, with the bit that enables interrupts set,
  every call claims an interrupt and overwrites the control register.
\<close>

theorem uio_irq_claims:
  assumes "\<forall>d a. snd (pm_read pm a d) = d"
  shows "axidma_irq_handler pm s d =
      (case us_virt s of
         None \<Rightarrow> (IRQ_NONE, d)
       | Some base \<Rightarrow>
           let mm2s = base + axidma_reg_offset MM2S_DMACR; s2mm = base + axidma_reg_offset S2MM_DMACR in
           if \<exists>n \<in> {12, 13, 14}. bit (fst (pm_read pm mm2s d)) n \<or> bit (fst (pm_read pm s2mm d)) n
           then (IRQ_HANDLED, pm_write pm s2mm 0xFFFFFFFF (pm_write pm mm2s 0xFFFFFFFF d))
           else (IRQ_NONE, d)) \<and>
    (\<forall>base. us_virt s = Some base \<and> fst (pm_read pm (base + axidma_reg_offset MM2S_DMACR) d) = 0xC00 \<and>
        fst (pm_read pm (base + axidma_reg_offset S2MM_DMACR) d) = 0xC00 \<longrightarrow>
      axidma_irq_handler pm s d = (IRQ_NONE, d)) \<and>
    (\<forall>base v. us_virt s = Some base \<and> RegWrite S2MM_DMACR v \<in> set (start_engine sg sgl bl) \<and>
        fst (pm_read pm (base + axidma_reg_offset S2MM_DMACR) d) = v \<longrightarrow>
      axidma_irq_handler pm s d =
        (IRQ_HANDLED, pm_write pm (base + axidma_reg_offset S2MM_DMACR) 0xFFFFFFFF
          (pm_write pm (base + axidma_reg_offset MM2S_DMACR) 0xFFFFFFFF d)))"
proof -
  have "bit (0x1001 :: u32) 12" by (simp add: bit_iff_odd)
  moreover have "\<not> bit (0xC00 :: u32) 12" "\<not> bit (0xC00 :: u32) 13" "\<not> bit (0xC00 :: u32) 14"
    by (simp_all add: bit_iff_odd)
  ultimately show ?thesis
    using assms
    by (cases "us_virt s") (auto simp: axidma_irq_handler_def split_beta irq_pending start_engine_def Let_def)
qed

definition demo_regs :: "(u64 \<Rightarrow> u32) physmem" where
  "demo_regs = \<lparr>pm_read = (\<lambda>a d. (d a, d)), pm_write = (\<lambda>a v d. d(a := v))\<rparr>"

theorem uio_irq_claims_witness:
  "axidma_irq_handler demo_regs ((dr_uio demo_dma)\<lparr>us_virt := Some 0xA0000000\<rparr>) ((\<lambda>_. 0)(0xA0000030 := 0x1001)) =
     (IRQ_HANDLED, (\<lambda>_. 0)(0xA0000030 := 0xFFFFFFFF, 0xA0000000 := 0xFFFFFFFF)) \<and>
   axidma_irq_handler demo_regs ((dr_uio demo_dma)\<lparr>us_virt := Some 0xA0000000\<rparr>) (\<lambda>_. 0xC00) =
     (IRQ_NONE, (\<lambda>_. 0xC00))"
  using uio_irq_claims [where pm = demo_regs and s = "(dr_uio demo_dma)\<lparr>us_virt := Some 0xA0000000\<rparr>" and
      d = "(\<lambda>_. 0)(0xA0000030 := 0x1001)" and sg = "0x7000" and sgl = "[]" and bl = "[]"]
    uio_irq_claims [where pm = demo_regs and s = "(dr_uio demo_dma)\<lparr>us_virt := Some 0xA0000000\<rparr>" and
      d = "\<lambda>_. 0xC00" and sg = "0x7000" and sgl = "[]" and bl = "[]"]
  by (auto simp: demo_regs_def start_engine_def Let_def fun_upd_twist)

end
