(* ===== verification/HlsRegs.thy ===== *)
theory HlsRegs
  imports Prelude
begin

text \<open>
  The register interface hls_stuff/quick_and_dirty_interfaces/axilite_reg_intf.cpp: a block
  without state that connects the registers of a bus with wires, once in each clock cycle.
  An argument passed by value is an input of the cycle, one passed by reference an output.
  ap_uint of 16 and 32 bits are words of these widths; the pragmas choose how the ports are
  built and have no meaning for the values.
\<close>

type_synonym u16 = "16 word"

record hls_in =
  hi_num_packets_dropped :: u16
  hi_mode_axilite :: u32
  hi_num_packets_axilite :: u32
  hi_num_flits_axilite :: u32
  hi_last_flit_bytes_axilite :: u32
  hi_M_axilite :: u32
  hi_N_axilite :: u32

record hls_out =
  ho_num_packets_dropped_axilite :: u16
  ho_mode :: u32
  ho_num_packets :: u32
  ho_num_flits :: u32
  ho_last_flit_bytes :: u32
  ho_M :: u32
  ho_N :: u32

definition axilite_reg_intf :: "hls_in \<Rightarrow> hls_out \<Rightarrow> hls_out" where
  "axilite_reg_intf i w = w\<lparr>
     ho_num_packets_dropped_axilite := hi_num_packets_dropped i,
     ho_mode := hi_mode_axilite i,
     ho_num_packets := hi_num_packets_axilite i,
     ho_num_flits := hi_num_flits_axilite i,
     ho_last_flit_bytes := hi_last_flit_bytes_axilite i,
     ho_M := hi_M_axilite i,
     ho_N := hi_N_axilite i\<rparr>"

text \<open>The block keeps nothing from one cycle to the next.\<close>

fun hls_cycles :: "hls_in list \<Rightarrow> hls_out \<Rightarrow> hls_out" where
  "hls_cycles [] w = w"
| "hls_cycles (i # is) w = hls_cycles is (axilite_reg_intf i w)"

lemma axilite_reg_intf_stateless: "axilite_reg_intf i w = axilite_reg_intf i w'"
  by (cases w; cases w') (simp add: axilite_reg_intf_def)

lemma hls_cycles_last: "is \<noteq> [] \<Longrightarrow> hls_cycles is w = axilite_reg_intf (last is) w'"
  by (induction "is" arbitrary: w) (auto intro: axilite_reg_intf_stateless)

end
