(* ===== verification/AxidmaIoctl.thy ===== *)
theory AxidmaIoctl
  imports LibAxidma
begin

text \<open>
  The ioctl requests of ps_to_pl/include/axidma_ioctl.h: the layout of their arguments (of the
  64-bit ABI: 4 bytes for int and the enumerations, 8 for pointers and size_t, 1 for bool), and
  for each request its direction, number and argument size. How the macros _IO, _IOR and _IOW of
  the kernel's headers pack these into one word is not part of the repository.
\<close>

section \<open>Layouts\<close>

datatype ctype = CBool | CInt | CEnum | CPtr | CSize | CStruct "ctype list"

definition round_up :: "nat \<Rightarrow> nat \<Rightarrow> nat" where
  "round_up n a = (n + a - 1) div a * a"

fun calign :: "ctype \<Rightarrow> nat" where
  "calign CBool = 1"
| "calign CInt = 4"
| "calign CEnum = 4"
| "calign CPtr = 8"
| "calign CSize = 8"
| "calign (CStruct ts) = foldr max (map calign ts) 1"

fun csize :: "ctype \<Rightarrow> nat" and fields_end :: "nat \<Rightarrow> ctype list \<Rightarrow> nat" where
  "csize CBool = 1"
| "csize CInt = 4"
| "csize CEnum = 4"
| "csize CPtr = 8"
| "csize CSize = 8"
| "csize (CStruct ts) = round_up (fields_end 0 ts) (calign (CStruct ts))"
| "fields_end off [] = off"
| "fields_end off (t # ts) = fields_end (round_up off (calign t) + csize t) ts"

definition video_frame_t :: ctype where
  "video_frame_t = CStruct [CInt, CInt, CInt]"

definition chan_t :: ctype where
  "chan_t = CStruct [CEnum, CEnum, CInt, CPtr, CPtr]"

definition num_channels_t :: ctype where
  "num_channels_t = CStruct [CInt, CInt, CInt, CInt, CInt]"

definition channel_info_t :: ctype where
  "channel_info_t = CStruct [CPtr]"

definition register_buffer_t :: ctype where
  "register_buffer_t = CStruct [CInt, CSize, CPtr]"

text \<open>The union at the end has one member.\<close>

definition transaction_t :: ctype where
  "transaction_t = CStruct [CBool, CInt, CPtr, CSize, video_frame_t]"

definition inout_transaction_t :: ctype where
  "inout_transaction_t =
     CStruct [CBool, CInt, CPtr, CSize, video_frame_t, CInt, CPtr, CSize, video_frame_t]"

definition video_transaction_t :: ctype where
  "video_transaction_t = CStruct [CInt, CInt, CPtr, video_frame_t]"

section \<open>Requests\<close>

datatype ioc_dir = IOC_NONE | IOC_READ | IOC_WRITE

record ioctl_request =
  rq_dir :: ioc_dir
  rq_magic :: char
  rq_nr :: nat
  rq_size :: nat

definition AXIDMA_IOCTL_MAGIC :: char where
  "AXIDMA_IOCTL_MAGIC = CHR ''W''"

definition ior :: "nat \<Rightarrow> ctype \<Rightarrow> ioctl_request" where
  "ior nr t = \<lparr>rq_dir = IOC_READ, rq_magic = AXIDMA_IOCTL_MAGIC, rq_nr = nr, rq_size = csize t\<rparr>"

definition iow :: "nat \<Rightarrow> ctype \<Rightarrow> ioctl_request" where
  "iow nr t = \<lparr>rq_dir = IOC_WRITE, rq_magic = AXIDMA_IOCTL_MAGIC, rq_nr = nr, rq_size = csize t\<rparr>"

definition io_none :: "nat \<Rightarrow> ioctl_request" where
  "io_none nr = \<lparr>rq_dir = IOC_NONE, rq_magic = AXIDMA_IOCTL_MAGIC, rq_nr = nr, rq_size = 0\<rparr>"

definition AXIDMA_GET_NUM_DMA_CHANNELS :: ioctl_request where
  "AXIDMA_GET_NUM_DMA_CHANNELS = iow 0 num_channels_t"

definition AXIDMA_GET_DMA_CHANNELS :: ioctl_request where
  "AXIDMA_GET_DMA_CHANNELS = ior 1 channel_info_t"

definition AXIDMA_SET_DMA_SIGNAL :: ioctl_request where
  "AXIDMA_SET_DMA_SIGNAL = io_none 2"

definition AXIDMA_REGISTER_BUFFER :: ioctl_request where
  "AXIDMA_REGISTER_BUFFER = ior 3 register_buffer_t"

definition AXIDMA_DMA_READ :: ioctl_request where
  "AXIDMA_DMA_READ = ior 4 transaction_t"

definition AXIDMA_DMA_WRITE :: ioctl_request where
  "AXIDMA_DMA_WRITE = ior 5 transaction_t"

definition AXIDMA_DMA_READWRITE :: ioctl_request where
  "AXIDMA_DMA_READWRITE = ior 6 inout_transaction_t"

definition AXIDMA_DMA_VIDEO_READ :: ioctl_request where
  "AXIDMA_DMA_VIDEO_READ = ior 7 video_transaction_t"

definition AXIDMA_DMA_VIDEO_WRITE :: ioctl_request where
  "AXIDMA_DMA_VIDEO_WRITE = ior 8 video_transaction_t"

definition AXIDMA_STOP_DMA_CHANNEL :: ioctl_request where
  "AXIDMA_STOP_DMA_CHANNEL = ior 9 chan_t"

definition AXIDMA_UNREGISTER_BUFFER :: ioctl_request where
  "AXIDMA_UNREGISTER_BUFFER = io_none 10"

definition AXIDMA_NUM_IOCTLS :: nat where
  "AXIDMA_NUM_IOCTLS = 10"

text \<open>The request of each call of the library, and the type that its argument points to.\<close>

fun request_of :: "ioctl_call \<Rightarrow> ioctl_request" where
  "request_of GET_NUM_DMA_CHANNELS = AXIDMA_GET_NUM_DMA_CHANNELS"
| "request_of GET_DMA_CHANNELS = AXIDMA_GET_DMA_CHANNELS"
| "request_of SET_DMA_SIGNAL = AXIDMA_SET_DMA_SIGNAL"
| "request_of (REGISTER_BUFFER _ _ _) = AXIDMA_REGISTER_BUFFER"
| "request_of (DMA_READ _) = AXIDMA_DMA_READ"
| "request_of (DMA_WRITE _) = AXIDMA_DMA_WRITE"
| "request_of (DMA_READWRITE _) = AXIDMA_DMA_READWRITE"
| "request_of (DMA_VIDEO_READ _) = AXIDMA_DMA_VIDEO_READ"
| "request_of (DMA_VIDEO_WRITE _) = AXIDMA_DMA_VIDEO_WRITE"
| "request_of (STOP_DMA_CHANNEL _) = AXIDMA_STOP_DMA_CHANNEL"
| "request_of (UNREGISTER_BUFFER _) = AXIDMA_UNREGISTER_BUFFER"

definition requests :: "ioctl_request list" where
  "requests = [AXIDMA_GET_NUM_DMA_CHANNELS, AXIDMA_GET_DMA_CHANNELS, AXIDMA_SET_DMA_SIGNAL,
     AXIDMA_REGISTER_BUFFER, AXIDMA_DMA_READ, AXIDMA_DMA_WRITE, AXIDMA_DMA_READWRITE,
     AXIDMA_DMA_VIDEO_READ, AXIDMA_DMA_VIDEO_WRITE, AXIDMA_STOP_DMA_CHANNEL, AXIDMA_UNREGISTER_BUFFER]"

lemmas request_defs = AXIDMA_GET_NUM_DMA_CHANNELS_def AXIDMA_GET_DMA_CHANNELS_def
  AXIDMA_SET_DMA_SIGNAL_def AXIDMA_REGISTER_BUFFER_def AXIDMA_DMA_READ_def AXIDMA_DMA_WRITE_def
  AXIDMA_DMA_READWRITE_def AXIDMA_DMA_VIDEO_READ_def AXIDMA_DMA_VIDEO_WRITE_def
  AXIDMA_STOP_DMA_CHANNEL_def AXIDMA_UNREGISTER_BUFFER_def ior_def iow_def io_none_def

lemmas layout_defs = video_frame_t_def chan_t_def num_channels_t_def channel_info_t_def
  register_buffer_t_def transaction_t_def inout_transaction_t_def video_transaction_t_def round_up_def

text \<open>The padding after a bool, and at the end of the structures with pointers, is counted.\<close>

lemma request_sizes: "map rq_size requests = [20, 8, 0, 24, 40, 40, 72, 32, 32, 32, 0]"
  by (simp add: requests_def request_defs layout_defs)

text \<open>The numbers are those of the positions, so the requests differ; there is one more than the header's count.\<close>

lemma request_numbers: "map rq_nr requests = [0..<AXIDMA_NUM_IOCTLS + 1]"
  by (simp add: requests_def request_defs AXIDMA_NUM_IOCTLS_def upt_rec)

lemma requests_distinct: "distinct requests"
  by (rule distinct_map [of rq_nr, THEN iffD1, THEN conjunct1]) (simp add: request_numbers)

lemma request_of_in: "request_of c \<in> set requests"
  by (cases c) (simp_all add: requests_def)

text \<open>The number alone identifies the request.\<close>

lemma request_by_number: "request_of c = request_of c' \<longleftrightarrow> rq_nr (request_of c) = rq_nr (request_of c')"
proof -
  have "inj_on rq_nr (set requests)"
    by (rule distinct_map [THEN iffD1, THEN conjunct2]) (simp add: request_numbers)
  then show ?thesis using request_of_in by (auto simp: inj_on_def)
qed

lemma request_of_transfer:
  "request_of (dir_to_ioctl dir tr) = (case dir of AXIDMA_READ \<Rightarrow> AXIDMA_DMA_READ | AXIDMA_WRITE \<Rightarrow> AXIDMA_DMA_WRITE)"
  by (cases dir) simp_all

end
