(* ===== verification/Spec2Isabelle.thy ===== *)
theory Spec2Isabelle
  imports PinnerClaims XvcClaims XvcLimits DeviceClaims DmaClaims ExampleClaims HlsRegs AxidmaIoctl
begin

text \<open>
  A verification development for the software of the repository: the kernel drivers, user
  libraries and tools that connect programs on a Zynq MPSoC with the programmable logic.

  \<^bold>\<open>The program's parts.\<close> Below src/mpsoc_programming:
  \<^item> drivers/pinner: a character device. A process writes commands to it that pin a buffer of
    its memory, report the physical addresses, flush the caches, and unpin. The user programs
    under how_to_use_marcos_drivers write these commands; one of them turns the reported
    addresses into the descriptors of a DMA engine.
  \<^item> xvcserver/xvcserver_axi: a server for the Xilinx Virtual Cable protocol. xvc_server.c is
    the connection and the parser, xvc_server2axi.c the program and the handlers, and
    xvc_axi2pl.cpp shifts the bits through the registers of an AXI debug bridge, which it maps
    through the axiregs driver.
  \<^item> drivers/mpsoc_axiregs: the device through which programs map the registers of the
    programmable logic; poke and dpoke read and write single registers through it.
  \<^item> drivers/mpsoc_PSRegs: the four clocks of the programmable logic, as files in sysfs.
  \<^item> drivers/uio_with_sysfs and drivers/uio: two UIO drivers, for a DMA engine that is
    configured through sysfs and for a timer, and the program that sets up the timer.
  \<^item> ps_to_pl: libaxidma, a library over the AXI DMA driver, and control functions that map
    registers, configure clocks and move data between the memories with libaxidma.

  Beside these, src/linux_kernel_programming/basic_driver.c is an example driver, and
  src/hls_stuff has a register interface for High-Level Synthesis.

  \<^bold>\<open>Conventions.\<close> A C function is a definition of the same name (a suffix or prefix only where
  the name is taken). State is passed and returned; a function that can go wrong below the
  level of return codes (a null or dangling pointer, a double free, an access outside an
  object, uninitialised data, a failed assertion) returns \<open>Ok result state\<close> or \<open>Fault reason\<close>
  (theory Prelude). Error numbers are values of a datatype in the left part of a sum. unsigned
  int, unsigned long and the like are words of their width; signed integers that are only
  compared and divided are int, wrapped where the code can overflow. What is not in the
  repository (the kernel, the network, the hardware, the driver below libaxidma) is an
  argument: an environment record of answers, or a pair of functions for reads and writes.

  \<^bold>\<open>Theories and code.\<close>
  \<^item> Prelude: words, pages, little-endian bytes, outcomes. CStrings: the parts of sscanf,
    strtol and printf that the programs use, and that printed numbers are read back.
  \<^item> Kernel, Pinner: the data and every function of pinner.c, in the order of the file.
    PinnerInv has the ownership invariant (each page reference and heap object has one owner)
    and what freeing does to it; PinnerSG the arithmetic of the scatterlist; PinnerPin every
    outcome of the pin command; PinnerSteps the driver as a state machine with its reachable
    states; PinnerSpec the abstract table of sessions and buffers that the driver refines;
    PinnerRace two threads that unpin or flush at the same time, PinnerThreads any number of
    threads, the commands of each in two turns; PinnerListRace takes the list_add of a pin
    apart. PinnerCommentary has every function of commentary.c, an annotated copy of the driver
    that is not compiled, translated from its own text, and compares each with the driver's.
    PinnerDemo is a concrete run, PinnerClaims has the properties.
  \<^item> UserSG and UserDesc model the helper functions of user_example.c, DmaExample its registers
    and main function on top of the pinner and of the UIO driver; DmaExampleRun says what each
    part of it does, ExampleClaims has the properties. UserExample models userspace_example.c.
    Both programs use the driver through the interface of PinDevice.
  \<^item> Xvc: xvc_server.c, from the integers of the protocol to the loop over packets. XvcProto
    specifies requests and replies, and relates the parser to them; XvcStream lifts this to
    any cut of the stream into packets; XvcAxi models xvc_axi2pl.cpp and the handlers of
    xvc_server2axi.c; XvcBridge shows that they do what the server relies on; XvcStart has the
    URL, the socket and main; XvcSessions the sequence of clients. XvcDemo has simulated
    bridges; XvcClaims and XvcLimits have the properties.
  \<^item> Axiregs, Poke, PSRegs, Sysfs, AxidmaUio, AxidmaRace, AxiTimer, BasicDriver: the small
    drivers and tools. AxidmaRace runs the operations of axidma_module.c concurrently.
    DeviceClaims has the properties.
  \<^item> LibAxidma, LibAxidmaInv: libaxidma.c and what its discovery establishes; LibSignals: its
    signal handler between the stores of the program; AxidmaIoctl: the requests of axidma_ioctl.h and the
    layout of their arguments. AxiCtrl, AxiCtrlInv: axidma_ctrl_func.c. DmaClaims has the
    properties.
  \<^item> HlsRegs: axilite_reg_intf.cpp.

  \<^bold>\<open>Interfaces.\<close> Where one component relies on another the contract is a locale, interpreted
  on the model of the provider: \<open>xvc_handlers\<close> (what the server needs of its JTAG handlers;
  provided by the AXI handlers over a bridge that answers), \<open>reg_map\<close> (a mapping of
  registers; provided by the axiregs driver and by /dev/mem), \<open>pin_device\<close> (the commands of an open
  pinner file; provided by the pinner for the two example programs), \<open>sysfs_attr\<close> (a file whose
  contents can be written back; provided by the two drivers with such files), \<open>chunk_xfer\<close>
  (a transfer of one chunk, whose effect does not depend on the driver's answer; provided by
  libaxidma for the control functions).

  \<^bold>\<open>Register accesses.\<close> Registers behind a mapping (theory Axiregs) are accessed four bytes at a
  time: the first and the last byte must be in the mapping, and the address a multiple of four,
  as device memory requires; otherwise the access is a fault. The drivers and the XVC server,
  whose offsets are constants, use the address alone.

  \<^bold>\<open>Loops.\<close> The loops of the drivers and of the server's parser terminate and are functions
  with a measure. The growth of the reply buffer need not end (the doubled size can wrap to
  0): it is a partial function whose value None means that it does not return, and the
  property about it says when it returns. The polling of the debug bridge has the bound that
  the code gives it, the descriptor walk of the DMA engine gets the number of descriptors as
  fuel, which is exact. The connection loop is over a finite list of network events; the
  theorems on it hold for lists of every length.

  \<^bold>\<open>What the properties show.\<close> The pinner neither loses nor frees twice any page or object, in
  every reachable state, while the kernel does not fail halfway; it refines a table of pinned
  buffers; looking up a byte in the list it reports gives the DMA address that the mapping left
  in the entry plus the offset in the page, which is right for every byte when the mapping
  leaves the address alone, and for all pages but the first when it fills it in; processes are
  isolated; closing and unloading give everything back. Two threads that unpin the same buffer
  can make the driver free it twice, or flush what is already freed, and two pins whose list_adds
  overlap can lose a pinning with its pages; otherwise any number of threads is safe as long as
  they name different pinnings. The annotated copy does what the driver does, but for the
  synchronisations of a flush. Two error paths of the pin command fault, and
  each pin leaks its array of pages: these are properties too. The example for the DMA engine,
  with a kernel that answers its pins completely, gives
  back all it took on every path, and programs the engine with the addresses of its buffer,
  while the interrupt handler of the engine's driver then claims every interrupt. The XVC server
  answers each client exactly as the protocol says, whatever the cut into packets, while a client
  can make it write beyond its reply buffer, fail an assertion, or execute stale requests after an
  error of recv. The small drivers keep their invariants; what a sysfs file showed can be
  written back, with the exceptions C30 names; an open device can be reconfigured by an
  operation that overlaps the open.
  libaxidma discovers the channels of the device and issues exactly one call for each transfer, in
  the direction of the first channel that has the number; its callbacks work for the channels
  whose number is an index. It can be opened once per process, and its signal handler can pair a
  new callback with old data, or run after the library was closed. The control functions issue
  the transfers of whole buffers without looking at their results, and one of them never
  starts a clock because of the precedence of shifts.

  \<^bold>\<open>What is assumed.\<close> Where a property needs the environment to behave, its statement says so.
  For the pinner: new addresses are not in use (\<open>env_ok\<close>), get_user_pages_fast pins all pages and
  the scatterlist is allocated (\<open>env_complete\<close>; C9 shows what happens otherwise), dma_map_sg leaves
  page, offset and length of the entries alone (\<open>keeps_segments\<close>), random magic numbers are new.
  For the example of the DMA engine, the undeclared names stand for its buffer (\<open>dma_names\<close>).
  For libaxidma, the driver's counts are those of the channels it lists (\<open>lib_env_ok\<close>, for the
  discovery only); nothing is assumed of the channel numbers. Every kernel answer is allowed for
  the timer driver.

  \<^bold>\<open>Not modelled.\<close> user_example.c
  uses names that are declared nowhere (latencies_buf and others): they are arguments of the
  model, and its properties hold when they stand for the buffer. conversion.h has macros
  over floating-point numbers, util.h prototypes without bodies. Messages, usage texts,
  dumphex and daemonize are output and process control. The pinner's mutex guards its list of
  users; operations of the drivers are atomic steps, except in
  AxidmaRace, PinnerRace, PinnerThreads and PinnerListRace. In the pool of threads a turn is
  still a step, with the list operations in it; PinnerListRace is about two overlapping
  list_adds, other overlaps of list operations are not modelled. Hardware descriptions,
  scripts and documents are not programs.

  \<^bold>\<open>Plan.\<close> What can be added: the sockets of the XVC server at the level of
  descriptors, and video transfers of libaxidma against a model of the frame buffers.
\<close>

end
